(* ===== verification/Wg_Prelude.thy ===== *)
theory Wg_Prelude
  imports Main "HOL-Library.Word"
begin

text \<open>
  Shared vocabulary of the development: the machine types of the C sources as words, the
  C-library operations on NUL-terminated strings and numbers the sources call, and the generic
  lemmas on lists, strings and words the component theories build on.

  A C string is a \<^typ>\<open>string\<close> without its terminating NUL, so \<open>strlen\<close> is \<^const>\<open>length\<close>;
  a \<open>char *\<close> into a string is the suffix that starts there.
\<close>

unbundle bit_operations_syntax

type_synonym u8 = "8 word"
type_synonym u16 = "16 word"
type_synonym u32 = "32 word"
type_synonym u64 = "64 word"
type_synonym u128 = "128 word"
type_synonym bytes = "8 word list"

named_theorems wg_simps \<open>rewrite rules the component proofs share\<close>
named_theorems wg_defs \<open>definitions of constants and flags that proofs unfold\<close>

subsection \<open>Characters\<close>

abbreviation char_int :: "char \<Rightarrow> int" where
  "char_int c \<equiv> int (of_char c)"

definition NUL :: char where
  "NUL = char_of (0::nat)"

definition tolower :: "char \<Rightarrow> char" where
  "tolower c = (if 65 \<le> char_int c \<and> char_int c \<le> 90 then char_of (char_int c + 32) else c)"

definition isspace :: "char \<Rightarrow> bool" where
  "isspace c = (char_int c = 32 \<or> (9 \<le> char_int c \<and> char_int c \<le> 13))"

definition digit_value :: "char \<Rightarrow> nat option" where
  "digit_value c =
     (let n = (of_char c :: nat) in
      if 48 \<le> n \<and> n \<le> 57 then Some (n - 48)
      else if 97 \<le> n \<and> n \<le> 122 then Some (n - 87)
      else if 65 \<le> n \<and> n \<le> 90 then Some (n - 55)
      else None)"

definition is_digit_in :: "nat \<Rightarrow> char \<Rightarrow> bool" where
  "is_digit_in b c = (case digit_value c of None \<Rightarrow> False | Some d \<Rightarrow> d < b)"

definition digit_char :: "nat \<Rightarrow> char" where
  "digit_char d = (if d < 10 then char_of (48 + d) else char_of (87 + d))"

subsection \<open>The string functions of the C library\<close>

definition strcasecmp_eq :: "string \<Rightarrow> string \<Rightarrow> bool" where
  "strcasecmp_eq s t = (map tolower s = map tolower t)"

text \<open>\<open>strncasecmp (s, t, n) == 0\<close>.\<close>

definition strncasecmp_eq :: "string \<Rightarrow> string \<Rightarrow> nat \<Rightarrow> bool" where
  "strncasecmp_eq s t n = (map tolower (take n s) = map tolower (take n t))"

text \<open>\<open>strchr\<close>: the suffix from the first occurrence, \<^const>\<open>None\<close> for a null pointer.\<close>

definition strchr :: "string \<Rightarrow> char \<Rightarrow> string option" where
  "strchr s c = (case dropWhile (\<lambda>x. x \<noteq> c) s of [] \<Rightarrow> None | t \<Rightarrow> Some t)"

text \<open>
  Cutting a string at the first or last occurrence of a character and writing a NUL there: the
  part before it and the part after it.
\<close>

definition split_first :: "char \<Rightarrow> string \<Rightarrow> (string \<times> string) option" where
  "split_first c s =
     (if c \<in> set s then Some (takeWhile (\<lambda>x. x \<noteq> c) s, tl (dropWhile (\<lambda>x. x \<noteq> c) s)) else None)"

definition split_last :: "char \<Rightarrow> string \<Rightarrow> (string \<times> string) option" where
  "split_last c s =
     (case split_first c (rev s) of None \<Rightarrow> None | Some (after, before) \<Rightarrow> Some (rev before, rev after))"

text \<open>\<open>strsep (&s, "c")\<close> with one delimiter: the token and the rest (null at the end).\<close>

definition strsep :: "char \<Rightarrow> string \<Rightarrow> string \<times> string option" where
  "strsep c s =
     (case split_first c s of None \<Rightarrow> (s, None) | Some (tok, rest) \<Rightarrow> (tok, Some rest))"

text \<open>All the tokens a \<open>while ((tok = strsep (&s, "c")))\<close> loop sees.\<close>

fun strsep_all :: "char \<Rightarrow> string \<Rightarrow> string list" where
  "strsep_all c [] = [[]]"
| "strsep_all c (x # xs) =
     (if x = c then [] # strsep_all c xs
      else (case strsep_all c xs of [] \<Rightarrow> [[x]] | t # ts \<Rightarrow> (x # t) # ts))"

text \<open>\<open>strtok\<close> run to its end: the maximal non-empty runs of characters that are no delimiter.\<close>

function strtok_all :: "char list \<Rightarrow> string \<Rightarrow> string list" where
  "strtok_all d [] = []"
| "strtok_all d (x # xs) =
     (if x \<in> set d then strtok_all d xs
      else (x # takeWhile (\<lambda>y. y \<notin> set d) xs) # strtok_all d (dropWhile (\<lambda>y. y \<notin> set d) xs))"
  by pat_completeness auto
termination
  by (relation "measure (\<lambda>(d, s). length s)") (auto simp: le_imp_less_Suc length_dropWhile_le)

text \<open>\<open>strncpy (dst, src, n - 1); dst[n - 1] = 0\<close>, read back as a string.\<close>

definition strncpy_term :: "nat \<Rightarrow> string \<Rightarrow> string" where
  "strncpy_term n s = take (n - 1) s"

subsection \<open>Numbers as text\<close>

definition digits_value :: "nat \<Rightarrow> string \<Rightarrow> nat" where
  "digits_value b s = foldl (\<lambda>n c. n * b + the (digit_value c)) 0 s"

text \<open>
  \<open>strtoul (s, &end, base)\<close> for an \<open>unsigned long\<close> of \<open>w\<close> bits: leading white space, an optional
  sign, for base 16 an optional \<open>0x\<close>, then the longest run of digits; the value saturates at
  \<open>ULONG_MAX\<close>, and without digits the result is 0 and \<open>end\<close> is the start of the string.
\<close>

definition strip_sign :: "string \<Rightarrow> bool \<times> string" where
  "strip_sign s = (case s of
       CHR ''-'' # t \<Rightarrow> (True, t)
     | CHR ''+'' # t \<Rightarrow> (False, t)
     | _ \<Rightarrow> (False, s))"

definition strip_0x :: "string \<Rightarrow> string" where
  "strip_0x s = (case s of
       CHR ''0'' # x # d # t \<Rightarrow>
         if (x = CHR ''x'' \<or> x = CHR ''X'') \<and> is_digit_in 16 d then d # t else s
     | _ \<Rightarrow> s)"

definition strtoul :: "nat \<Rightarrow> nat \<Rightarrow> string \<Rightarrow> nat \<times> string" where
  "strtoul w b s =
     (let (neg, s2) = strip_sign (dropWhile isspace s);
          s3 = (if b = 16 then strip_0x s2 else s2);
          ds = takeWhile (is_digit_in b) s3;
          n = digits_value b ds
      in if ds = [] then (0, s)
         else (if 2 ^ w \<le> n then 2 ^ w - 1 else if neg then (2 ^ w - n) mod 2 ^ w else n,
               dropWhile (is_digit_in b) s3))"

text \<open>\<open>printf\<close> of an unsigned number: \<open>%u\<close> for base 10, \<open>%x\<close> for base 16.\<close>

function num_string :: "nat \<Rightarrow> nat \<Rightarrow> string" where
  "num_string b n =
     (if n < b \<or> b < 2 then [digit_char n] else num_string b (n div b) @ [digit_char (n mod b)])"
  by pat_completeness auto
termination
  by (relation "measure snd") auto

declare num_string.simps [simp del]

abbreviation dec_string :: "nat \<Rightarrow> string" where
  "dec_string \<equiv> num_string 10"

abbreviation hex_string :: "nat \<Rightarrow> string" where
  "hex_string \<equiv> num_string 16"

subsection \<open>Bytes in memory (little-endian, as on every Android ABI)\<close>

fun le_bytes :: "nat \<Rightarrow> nat \<Rightarrow> bytes" where
  "le_bytes 0 n = []"
| "le_bytes (Suc k) n = of_nat (n mod 256) # le_bytes k (n div 256)"

fun le_value :: "bytes \<Rightarrow> nat" where
  "le_value [] = 0"
| "le_value (x # xs) = unat x + 256 * le_value xs"

lemma le_bytes_length: "length (le_bytes k n) = k"
  by (induction k n rule: le_bytes.induct) simp_all

lemma le_value_le_bytes: "n < 256 ^ k \<Longrightarrow> le_value (le_bytes k n) = n"
proof (induction k n rule: le_bytes.induct)
  case (2 k n)
  have "unat (of_nat (n mod 256) :: u8) = n mod 256" by (simp add: unat_of_nat)
  moreover have "n div 256 < 256 ^ k" using 2 by (simp add: div_less_iff_less_mult mult.commute)
  ultimately show ?case using 2 by simp
qed simp

lemma le_value_zeros: "le_value (replicate k 0) = 0"
  by (induction k) simp_all

lemma le_bytes_le_value: "le_bytes (length b) (le_value b) = b"
proof (induction b)
  case (Cons x b)
  have "unat x < 256" using unsigned_less [of x, where 'a = nat] by simp
  with Cons show ?case by (simp add: mod_mult_self2 div_mult_self2)
qed simp

subsection \<open>Lemmas on characters and strings\<close>

lemma of_char_nat_less: "(of_char c :: nat) < 256"
  by (metis of_char_mod_256 mod_less_divisor zero_less_numeral)

lemma char_int_range: "0 \<le> char_int c" "char_int c < 256"
  using of_char_nat_less [of c] by simp_all

lemma of_char_char_of_small: "n < 256 \<Longrightarrow> (of_char (char_of n) :: nat) = n"
  by simp

lemma forall_upto: "list_all P [i..j] \<Longrightarrow> i \<le> k \<Longrightarrow> k \<le> j \<Longrightarrow> P (k::int)"
  by (simp add: list_all_iff)

lemma char_of_char_int [simp]: "char_of (char_int c) = c"
  by (metis char_of_char of_char_of char_of_nat of_nat_of_char)

lemma char_int_char_of: "char_int (char_of (x::int)) = x mod 256"
  by (simp only: of_nat_of_char of_char_of)

lemma forall_char:
  assumes "list_all (\<lambda>n. P (char_of n)) [0..255::int]"
  shows "P c"
  using forall_upto [OF assms, of "char_int c"] of_char_nat_less [of c] by simp

lemma forall_byte:
  fixes x :: u8
  assumes "list_all (\<lambda>n. P (word_of_int n)) [0..255]"
  shows "P x"
  using forall_upto [OF assms, of "uint x"] uint_bounded [of x] by simp

lemma digit_value_digit_char: "d < 36 \<Longrightarrow> digit_value (digit_char d) = Some d"
  by (auto simp: digit_value_def digit_char_def Let_def)

lemma is_digit_in_digit_char: "d < b \<Longrightarrow> b \<le> 36 \<Longrightarrow> is_digit_in b (digit_char d)"
  by (simp add: is_digit_in_def digit_value_digit_char)

lemma digits_value_append:
  "digits_value b (s @ [c]) = digits_value b s * b + the (digit_value c)"
  by (simp add: digits_value_def)

lemma num_string_nonempty [simp]: "num_string b n \<noteq> []"
  by (subst num_string.simps) simp

lemma set_num_string:
  "2 \<le> b \<Longrightarrow> b \<le> 36 \<Longrightarrow> c \<in> set (num_string b n) \<Longrightarrow> is_digit_in b c"
proof (induction b n rule: num_string.induct)
  case (1 b n)
  show ?case
  proof (cases "n < b")
    case True
    with 1 show ?thesis
      by (subst (asm) num_string.simps) (simp add: is_digit_in_digit_char)
  next
    case False
    with 1 have "c \<in> set (num_string b (n div b)) \<or> c = digit_char (n mod b)"
      by (subst (asm) num_string.simps) auto
    then show ?thesis
      using 1 False by (auto simp: is_digit_in_digit_char)
  qed
qed

lemma digits_value_num_string:
  "2 \<le> b \<Longrightarrow> b \<le> 36 \<Longrightarrow> digits_value b (num_string b n) = n"
proof (induction b n rule: num_string.induct)
  case (1 b n)
  show ?case
  proof (cases "n < b")
    case True
    with 1 show ?thesis
      by (subst num_string.simps) (simp add: digits_value_def digit_value_digit_char)
  next
    case False
    then have "n mod b < 36" using 1 by (metis mod_less_divisor less_le_trans not_less_zero
      neq0_conv less_numeral_extra(3) le_zero_eq numeral_2_eq_2 not_less_eq_eq zero_less_Suc)
    then have "digits_value b (num_string b n)
        = digits_value b (num_string b (n div b)) * b + n mod b"
      using False 1 by (subst num_string.simps) (simp add: digits_value_append digit_value_digit_char)
    also have "\<dots> = n" using 1 False by simp
    finally show ?thesis .
  qed
qed

lemma num_string_digit_chars:
  "2 \<le> b \<Longrightarrow> b \<le> 36 \<Longrightarrow> \<exists>d < b. hd (num_string b n) = digit_char d"
proof (induction b n rule: num_string.induct)
  case (1 b n)
  show ?case
  proof (cases "n < b")
    case True
    then show ?thesis by (subst num_string.simps) auto
  next
    case False
    then show ?thesis using 1 by (subst num_string.simps) auto
  qed
qed

lemma is_digit_not_space: "is_digit_in b c \<Longrightarrow> \<not> isspace c \<and> c \<noteq> CHR ''-'' \<and> c \<noteq> CHR ''+''"
  by (auto simp: is_digit_in_def digit_value_def isspace_def Let_def split: if_splits)

lemma takeWhile_all: "(\<And>x. x \<in> set xs \<Longrightarrow> P x) \<Longrightarrow> takeWhile P (xs @ ys) = xs @ takeWhile P ys"
  by (induction xs) auto

lemma dropWhile_all: "(\<And>x. x \<in> set xs \<Longrightarrow> P x) \<Longrightarrow> dropWhile P (xs @ ys) = dropWhile P ys"
  by (induction xs) auto

text \<open>A digit string with nothing sign-like in front is read back up to the first non-digit.\<close>

lemma strtoul_digits:
  assumes ds: "ds \<noteq> []" "\<And>c. c \<in> set ds \<Longrightarrow> is_digit_in b c"
    and rest: "rest = [] \<or> \<not> is_digit_in b (hd rest)"
    and base: "b \<noteq> 16"
  shows "strtoul w b (ds @ rest) =
    (if 2 ^ w \<le> digits_value b ds then 2 ^ w - 1 else digits_value b ds, rest)"
proof -
  obtain d ds' where d: "ds = d # ds'" using ds(1) by (cases ds) auto
  have nd: "\<not> isspace d" "d \<noteq> CHR ''-''" "d \<noteq> CHR ''+''"
    using ds(2) [of d] is_digit_not_space [of b d] d by auto
  have sp: "dropWhile isspace (ds @ rest) = ds @ rest"
    using nd(1) d by simp
  have sign: "strip_sign (ds @ rest) = (False, ds @ rest)"
    using nd d by (auto simp: strip_sign_def split: list.splits char.splits bool.splits)
  have tw: "takeWhile (is_digit_in b) (ds @ rest) = ds"
    using takeWhile_all [of ds "is_digit_in b" rest] ds(2) rest by (cases rest) auto
  have dw: "dropWhile (is_digit_in b) (ds @ rest) = rest"
    using dropWhile_all [of ds "is_digit_in b" rest] ds(2) rest by (cases rest) auto
  show ?thesis
    using ds(1) base by (simp add: strtoul_def sp sign tw dw Let_def)
qed

lemma strtoul_dec_string:
  assumes "n < 2 ^ w" "rest = [] \<or> \<not> is_digit_in 10 (hd rest)"
  shows "strtoul w 10 (dec_string n @ rest) = (n, rest)"
  using strtoul_digits [of "dec_string n" 10 rest w] assms set_num_string [of 10 _ n]
    digits_value_num_string [of 10 n]
  by simp

end
