(* ===== verification/Wg_Ctype.thy ===== *)
theory Wg_Ctype
  imports Wg_Prelude
begin

text \<open>
  The branch-free character classes of \<open>wireguard-tools/src/ctype.h\<close>. Their argument is an
  \<open>int\<close>; the callers pass a \<open>char\<close>, which is negative above 127 where \<open>char\<close> is signed (x86) and
  not where it is unsigned (ARM). The lemmas cover both.
\<close>

definition char_is_space :: "int \<Rightarrow> bool" where
  "char_is_space c =
     (let d = (word_of_int (c - 9) :: u8)
      in (drop_bit (unat (d AND 31)) 0x80001F :: u32) AND drop_bit (unat (drop_bit 5 d)) 1 \<noteq> 0)"

definition char_is_digit :: "int \<Rightarrow> bool" where
  "char_is_digit c = (drop_bit 31 (word_of_int ((48 - 1 - c) AND (c - (57 + 1))) :: u32) \<noteq> 0)"

definition char_is_alpha :: "int \<Rightarrow> bool" where
  "char_is_alpha c =
     (drop_bit 31 (word_of_int ((97 - 1 - (c OR 32)) AND ((c OR 32) - (122 + 1))) :: u32) \<noteq> 0)"

text \<open>The value a \<open>char\<close> has as an \<open>int\<close>, by the signedness of \<open>char\<close> on the platform.\<close>

definition plain_char :: "bool \<Rightarrow> char \<Rightarrow> int" where
  "plain_char sc c = (if sc \<and> 128 \<le> char_int c then char_int c - 256 else char_int c)"

subsection \<open>What the bit tricks compute\<close>

lemma char_is_space_mod: "char_is_space c = char_is_space (c mod 256)"
proof -
  have "(word_of_int (c - 9) :: u8) = word_of_int (c mod 256 - 9)"
    by (rule word_of_int_eq_iff [THEN iffD2]) (simp add: take_bit_eq_mod mod_simps)
  then show ?thesis by (simp add: char_is_space_def)
qed

lemma char_is_space_table:
  "list_all (\<lambda>n. char_is_space n = (n = 32 \<or> (9 \<le> n \<and> n \<le> 13))) [0..255]"
  by code_simp

lemma char_is_space_iff: "char_is_space c \<longleftrightarrow> c mod 256 = 32 \<or> (9 \<le> c mod 256 \<and> c mod 256 \<le> 13)"
  using forall_upto [OF char_is_space_table, of "c mod 256"]
  by (subst char_is_space_mod) simp

text \<open>The sign test: bit 31 of an \<open>unsigned int\<close> made of two's-complement operands.\<close>

lemma top_bit_u32: "drop_bit 31 (w :: u32) \<noteq> 0 \<longleftrightarrow> bit w 31"
proof -
  have "uint w div 2 ^ 31 \<in> {0, 1}"
    using uint_bounded [of w] div_pos_pos_trivial [of "uint w" "2 ^ 31"]
      int_div_pos_eq [of "uint w" "2 ^ 31" 1 "uint w - 2 ^ 31"]
    by (cases "uint w < 2 ^ 31") auto
  then have "(uint w div 2 ^ 31 \<noteq> 0) = odd (uint w div 2 ^ 31)" by auto
  moreover have "uint (drop_bit 31 w) = uint w div 2 ^ 31"
    by (simp add: drop_bit_eq_div uint_div)
  moreover have "bit w 31 = odd (uint w div 2 ^ 31)"
    using bit_uint_iff [of w 31] by (simp add: bit_iff_odd [of "uint w"])
  ultimately show ?thesis by (simp only: word_uint_eq_iff uint_0_eq)
qed

lemma bit_31_int:
  assumes "- (2 ^ 31) \<le> k" "k < 2 ^ 31"
  shows "bit k 31 \<longleftrightarrow> k < (0::int)"
proof (cases "k < 0")
  case True
  with assms have "k div 2 ^ 31 = -1"
    using int_div_pos_eq [of k "2 ^ 31" "-1" "k + 2 ^ 31"] by simp
  with True show ?thesis by (simp add: bit_iff_odd)
next
  case False
  with assms have "k div 2 ^ 31 = 0" by (simp add: div_pos_pos_trivial)
  with False show ?thesis by (simp add: bit_iff_odd)
qed

lemma sign_and_u32:
  assumes "- (2 ^ 31) \<le> a" "a < 2 ^ 31" "- (2 ^ 31) \<le> b" "b < 2 ^ 31"
  shows "drop_bit 31 (word_of_int (a AND b) :: u32) \<noteq> 0 \<longleftrightarrow> a < 0 \<and> b < 0"
  using assms by (simp add: top_bit_u32 bit_word_of_int_iff bit_and_iff bit_31_int)

lemma char_is_digit_iff:
  "- 128 \<le> c \<Longrightarrow> c < 256 \<Longrightarrow> char_is_digit c \<longleftrightarrow> 48 \<le> c \<and> c \<le> 57"
  unfolding char_is_digit_def by (subst sign_and_u32) auto

lemma or_32_table:
  "list_all (\<lambda>n. - 128 \<le> n OR 32 \<and> n OR 32 < 256 \<and>
     (97 \<le> n OR 32 \<and> n OR 32 \<le> 122) = (65 \<le> n \<and> n \<le> 90 \<or> 97 \<le> n \<and> n \<le> 122)) [-128..255::int]"
  by code_simp

lemma char_is_alpha_iff:
  assumes "- 128 \<le> c" "c < 256"
  shows "char_is_alpha c \<longleftrightarrow> 65 \<le> c \<and> c \<le> 90 \<or> 97 \<le> c \<and> c \<le> 122"
proof -
  from forall_upto [OF or_32_table, of c] assms
  have "- 128 \<le> c OR 32" "c OR 32 < 256"
    "(97 \<le> c OR 32 \<and> c OR 32 \<le> 122) = (65 \<le> c \<and> c \<le> 90 \<or> 97 \<le> c \<and> c \<le> 122)"
    by auto
  then show ?thesis
    unfolding char_is_alpha_def by (subst sign_and_u32) auto
qed

lemma plain_char_range: "- 128 \<le> plain_char sc c" "plain_char sc c < 256"
  using char_int_range [of c] unfolding plain_char_def
  by (auto split: if_splits simp del: nat_of_char_less_256 of_nat_less_numeral_iff)

lemma plain_char_mod: "plain_char sc c mod 256 = char_int c"
  by (simp add: plain_char_def)

lemma plain_char_between:
  "0 \<le> lo \<Longrightarrow> hi < 128 \<Longrightarrow>
     lo \<le> plain_char sc c \<and> plain_char sc c \<le> hi \<longleftrightarrow> lo \<le> char_int c \<and> char_int c \<le> hi"
  using char_int_range [of c] unfolding plain_char_def
  by (auto simp del: nat_of_char_less_256)

lemma char_is_space_plain [wg_simps]: "char_is_space (plain_char sc c) = isspace c"
  by (simp add: char_is_space_iff plain_char_mod isspace_def)

lemma char_is_space_isspace [wg_simps]: "char_is_space (char_int c) = isspace c"
  using char_is_space_plain [of False c] by (simp add: plain_char_def)

lemma is_digit_in_10: "is_digit_in 10 c \<longleftrightarrow> 48 \<le> char_int c \<and> char_int c \<le> 57"
  by (auto simp: is_digit_in_def digit_value_def Let_def)

lemma char_is_digit_plain [wg_simps]: "char_is_digit (plain_char sc c) = is_digit_in 10 c"
  by (simp only: is_digit_in_10 char_is_digit_iff [OF plain_char_range] plain_char_between)

lemma char_is_alpha_plain:
  "char_is_alpha (plain_char sc c) \<longleftrightarrow>
     65 \<le> char_int c \<and> char_int c \<le> 90 \<or> 97 \<le> char_int c \<and> char_int c \<le> 122"
  using plain_char_between [of 65 90 sc c] plain_char_between [of 97 122 sc c]
  unfolding char_is_alpha_iff [OF plain_char_range] by linarith

lemma char_is_digit_char [wg_simps]: "char_is_digit (char_int c) = is_digit_in 10 c"
  using char_is_digit_plain [of False c] by (simp add: plain_char_def)

lemma char_is_digit_NUL [wg_simps]: "\<not> char_is_digit 0"
  by (simp add: char_is_digit_iff)

text \<open>
  C15. The constant-time classes of \<open>ctype.h\<close> agree with the C-locale classes for every \<open>char\<close>,
  whether the platform's \<open>char\<close> is signed or not: white space is the set of the six ASCII blanks,
  digits and letters are the ASCII ranges.
\<close>

theorem ctype_classes_correct:
  "(char_is_space (plain_char sc c) \<longleftrightarrow>
      char_int c = 32 \<or> 9 \<le> char_int c \<and> char_int c \<le> 13) \<and>
   (char_is_digit (plain_char sc c) \<longleftrightarrow> 48 \<le> char_int c \<and> char_int c \<le> 57) \<and>
   (char_is_alpha (plain_char sc c) \<longleftrightarrow>
      65 \<le> char_int c \<and> char_int c \<le> 90 \<or> 97 \<le> char_int c \<and> char_int c \<le> 122)"
  unfolding char_is_space_plain char_is_digit_plain char_is_alpha_plain
  by (simp add: isspace_def is_digit_in_10)

end
