(* ===== verification/Wg_Encoding.thy ===== *)
theory Wg_Encoding
  imports Wg_Ctype
begin

text \<open>
  The constant-time base64 and hexadecimal codecs of \<open>wireguard-tools/src/encoding.c\<close>. A key is
  its 32 bytes; a text is a string without its NUL. \<open>int\<close> arithmetic of the source that cannot
  overflow is HOL's \<^typ>\<open>int\<close> (with arithmetic right shift), \<open>unsigned\<close> arithmetic is on words.
  The decoders return the C return value and the key buffer as they leave it.
\<close>

definition WG_KEY_LEN :: nat where
  "WG_KEY_LEN = 32"

definition WG_KEY_LEN_BASE64 :: nat where
  "WG_KEY_LEN_BASE64 = ((WG_KEY_LEN + 2) div 3) * 4 + 1"

definition WG_KEY_LEN_HEX :: nat where
  "WG_KEY_LEN_HEX = WG_KEY_LEN * 2 + 1"

lemmas key_len_defs [wg_defs] = WG_KEY_LEN_def WG_KEY_LEN_BASE64_def WG_KEY_LEN_HEX_def

subsection \<open>Base64\<close>

definition base64_digit :: "int \<Rightarrow> int" where
  "base64_digit x =
     x + 65
     + (drop_bit 8 (25 - x) AND 6)
     - (drop_bit 8 (51 - x) AND 75)
     - (drop_bit 8 (61 - x) AND 15)
     + (drop_bit 8 (62 - x) AND 3)"

definition encode_base64 :: "u8 \<Rightarrow> u8 \<Rightarrow> u8 \<Rightarrow> string" where
  "encode_base64 s0 s1 s2 =
     (let input = [drop_bit 2 (uint s0) AND 63,
                   (push_bit 4 (uint s0) OR drop_bit 4 (uint s1)) AND 63,
                   (push_bit 2 (uint s1) OR drop_bit 6 (uint s2)) AND 63,
                   uint s2 AND 63]
      in map (\<lambda>x. char_of (base64_digit x)) input)"

definition key_to_base64 :: "bytes \<Rightarrow> string" where
  "key_to_base64 key =
     (let n = WG_KEY_LEN div 3;
          b = concat (map (\<lambda>i. encode_base64 (key ! (i * 3)) (key ! (i * 3 + 1)) (key ! (i * 3 + 2))) [0..<n])
              @ encode_base64 (key ! (n * 3 + 0)) (key ! (n * 3 + 1)) 0
      in b[WG_KEY_LEN_BASE64 - 2 := CHR ''=''])"

definition base64_value :: "int \<Rightarrow> int" where
  "base64_value c =
     - 1
     + (drop_bit 8 ((64 - c) AND (c - 91)) AND (c - 64))
     + (drop_bit 8 ((96 - c) AND (c - 123)) AND (c - 70))
     + (drop_bit 8 ((47 - c) AND (c - 58)) AND (c + 5))
     + (drop_bit 8 ((42 - c) AND (c - 44)) AND 63)
     + (drop_bit 8 ((46 - c) AND (c - 48)) AND 64)"

definition decode_base64 :: "bool \<Rightarrow> char \<Rightarrow> char \<Rightarrow> char \<Rightarrow> char \<Rightarrow> int" where
  "decode_base64 sc c0 c1 c2 c3 =
     (((0 OR push_bit 18 (base64_value (plain_char sc c0)))
       OR push_bit 12 (base64_value (plain_char sc c1)))
       OR push_bit 6 (base64_value (plain_char sc c2)))
       OR push_bit 0 (base64_value (plain_char sc c3))"

definition low_byte :: "int \<Rightarrow> u8" where
  "low_byte v = word_of_int (v AND 255)"

definition sign_bit :: "int \<Rightarrow> u8" where
  "sign_bit val = ucast (drop_bit 31 (word_of_int val :: u32))"

definition from_base64_step :: "bool \<Rightarrow> string \<Rightarrow> nat \<Rightarrow> u8 \<times> bytes \<Rightarrow> u8 \<times> bytes" where
  "from_base64_step sc base64 i st =
     (case st of (ret, key) \<Rightarrow>
      let val = decode_base64 sc (base64 ! (i * 4)) (base64 ! (i * 4 + 1))
                  (base64 ! (i * 4 + 2)) (base64 ! (i * 4 + 3))
      in (ret OR sign_bit val,
          key[i * 3 + 0 := low_byte (drop_bit 16 val),
              i * 3 + 1 := low_byte (drop_bit 8 val),
              i * 3 + 2 := low_byte val]))"

definition key_from_base64 :: "bool \<Rightarrow> bytes \<Rightarrow> string \<Rightarrow> bool \<times> bytes" where
  "key_from_base64 sc key base64 =
     (if length base64 \<noteq> WG_KEY_LEN_BASE64 - 1 \<or> base64 ! (WG_KEY_LEN_BASE64 - 2) \<noteq> CHR ''=''
      then (False, key)
      else
        let n = WG_KEY_LEN div 3;
            (ret, key) = fold (from_base64_step sc base64) [0..<n] (0, key);
            val = decode_base64 sc (base64 ! (n * 4 + 0)) (base64 ! (n * 4 + 1))
                    (base64 ! (n * 4 + 2)) (CHR ''A'');
            ret = ret OR (sign_bit val OR low_byte val);
            key = key[n * 3 + 0 := low_byte (drop_bit 16 val),
                      n * 3 + 1 := low_byte (drop_bit 8 val)]
        in (1 AND drop_bit 8 (uint ret - 1) \<noteq> 0, key))"

subsection \<open>Hexadecimal\<close>

definition hex_digit :: "u32 \<Rightarrow> u32" where
  "hex_digit x = 87 + x + (drop_bit 8 (x - 10) AND NOT 38)"

definition key_to_hex :: "bytes \<Rightarrow> string" where
  "key_to_hex key =
     concat (map (\<lambda>i. [char_of (uint (ucast (hex_digit (ucast (drop_bit 4 (key ! i)))) :: u8)),
                       char_of (uint (ucast (hex_digit (ucast (key ! i AND 15))) :: u8))]) [0..<WG_KEY_LEN])"

text \<open>
  One hexadecimal digit: the value \<open>c_val\<close> and what is or-ed into \<open>ret\<close>. The \<open>uint8_t\<close>
  variables truncate what the \<open>unsigned int\<close> arithmetic yields; the operands of \<open>- 1\<close> are
  promoted to \<open>int\<close>.
\<close>

definition hex_value :: "u8 \<Rightarrow> u8 \<times> u8" where
  "hex_value c =
     (let c_num = c XOR 48;
          c_num0 = (ucast (drop_bit 8 ((ucast c_num :: u32) - 10)) :: u8);
          c_alpha = (ucast (((ucast c :: u32) AND NOT 32) - 55) :: u8);
          c_alpha0 = (ucast (drop_bit 8 (((ucast c_alpha :: u32) - 10) XOR ((ucast c_alpha :: u32) - 16))) :: u8);
          bad = (word_of_int (drop_bit 8 (uint (c_num0 OR c_alpha0) - 1)) :: u8);
          c_val = (c_num0 AND c_num) OR (c_alpha0 AND c_alpha)
      in (c_val, bad))"

definition from_hex_step :: "string \<Rightarrow> nat \<Rightarrow> u8 \<times> bytes \<Rightarrow> u8 \<times> bytes" where
  "from_hex_step hex j st =
     (case st of (ret, key) \<Rightarrow>
      let i = 2 * j;
          (v1, bad1) = hex_value (of_char (hex ! i));
          c_acc = v1 * 16;
          (v2, bad2) = hex_value (of_char (hex ! (i + 1)))
      in ((ret OR bad1) OR bad2, key[i div 2 := c_acc OR v2]))"

definition key_from_hex :: "bytes \<Rightarrow> string \<Rightarrow> bool \<times> bytes" where
  "key_from_hex key hex =
     (if length hex \<noteq> WG_KEY_LEN_HEX - 1 then (False, key)
      else
        let (ret, key) = fold (from_hex_step hex) [0..<(WG_KEY_LEN_HEX - 1) div 2] (0, key)
        in (1 AND drop_bit 8 (uint ret - 1) \<noteq> 0, key))"

definition key_is_zero :: "bytes \<Rightarrow> bool" where
  "key_is_zero key =
     (let acc = fold (\<lambda>i acc. acc OR (key ! i)) [0..<WG_KEY_LEN] (0 :: u8)
      in 1 AND drop_bit 8 (uint acc - 1) \<noteq> 0)"

subsection \<open>The base64 alphabet and one group of it\<close>

lemma base64_digit_value_table:
  "list_all (\<lambda>x. 0 \<le> base64_digit x \<and> base64_digit x < 128 \<and> base64_value (base64_digit x) = x) [0..63]"
  by code_simp

lemma base64_value_digit_table:
  "list_all (\<lambda>c. - 1 \<le> base64_value c \<and> base64_value c \<le> 63 \<and>
     (0 \<le> base64_value c \<longrightarrow> base64_digit (base64_value c) = c)) [-128..255]"
  by code_simp

lemma base64_digit_facts:
  assumes "0 \<le> x" "x < 64"
  shows "0 \<le> base64_digit x" "base64_digit x < 128" "base64_value (base64_digit x) = x"
  using forall_upto [OF base64_digit_value_table, of x] assms by auto

lemma base64_value_facts:
  assumes "- 128 \<le> c" "c < 256"
  shows "- 1 \<le> base64_value c" "base64_value c < 64"
    "0 \<le> base64_value c \<Longrightarrow> base64_digit (base64_value c) = c"
  using forall_upto [OF base64_value_digit_table, of c] assms by auto

text \<open>The six-bit value of a character, whatever the signedness of \<open>char\<close>; -1 outside the alphabet.\<close>

definition b64 :: "bool \<Rightarrow> char \<Rightarrow> int" where
  "b64 sc c = base64_value (plain_char sc c)"

lemma plain_char_ascii: "0 \<le> x \<Longrightarrow> x < 128 \<Longrightarrow> plain_char sc (char_of x) = x"
  unfolding plain_char_def char_int_char_of by simp

lemma b64_digit: "0 \<le> x \<Longrightarrow> x < 64 \<Longrightarrow> b64 sc (char_of (base64_digit x)) = x"
  by (simp add: b64_def plain_char_ascii base64_digit_facts)

lemma b64_range: "- 1 \<le> b64 sc c" "b64 sc c < 64"
  unfolding b64_def using base64_value_facts(1,2) [OF plain_char_range] by auto

lemma char_of_plain_char: "char_of (plain_char sc c) = c"
  by (metis char_of_char_int char_of_mod_256 plain_char_mod)

lemma digit_b64: "0 \<le> b64 sc c \<Longrightarrow> char_of (base64_digit (b64 sc c)) = c"
  unfolding b64_def using base64_value_facts(3) [OF plain_char_range]
  by (simp add: char_of_plain_char)

lemma or_push_bit_add: "0 \<le> y \<Longrightarrow> y < 2 ^ n \<Longrightarrow> push_bit n x OR y = x * 2 ^ n + (y::int)"
  using concat_bit_eq [of n y x] concat_bit_def [of n y x]
  by (simp add: take_bit_int_eq_self push_bit_eq_mult or.commute add.commute)

lemma decode_base64_nonneg:
  assumes "0 \<le> b64 sc a" "0 \<le> b64 sc b" "0 \<le> b64 sc c" "0 \<le> b64 sc d"
  shows "decode_base64 sc a b c d = ((b64 sc a * 64 + b64 sc b) * 64 + b64 sc c) * 64 + b64 sc d"
proof -
  have "decode_base64 sc a b c d =
    push_bit 6 (push_bit 6 (push_bit 6 (b64 sc a) OR b64 sc b) OR b64 sc c) OR b64 sc d"
    by (simp add: decode_base64_def b64_def push_bit_or)
  then show ?thesis
    using assms b64_range [of sc] by (simp add: or_push_bit_add)
qed

lemma decode_base64_neg_iff:
  "decode_base64 sc a b c d < 0 \<longleftrightarrow> b64 sc a < 0 \<or> b64 sc b < 0 \<or> b64 sc c < 0 \<or> b64 sc d < 0"
  by (simp add: decode_base64_def b64_def)

lemma mask_ints: "(63::int) = mask 6" "(255::int) = mask 8"
  by (simp_all add: mask_eq_exp_minus_1)

lemma and_63: "(x::int) AND 63 = x mod 64" and and_255: "(x::int) AND 255 = x mod 256"
  by (simp_all only: mask_ints take_bit_eq_mask [symmetric] take_bit_eq_mod) simp_all

lemma pack_div: "0 \<le> r \<Longrightarrow> r < k \<Longrightarrow> (q * k + r) div k = (q::int)"
  and pack_mod: "0 \<le> r \<Longrightarrow> r < k \<Longrightarrow> (q * k + r) mod k = (r::int)"
  by (simp_all add: div_pos_pos_trivial mod_pos_pos_trivial)

lemma ucast_drop_31_eq_0:
  "(ucast (drop_bit 31 (w :: u32)) :: u8) = 0 \<longleftrightarrow> drop_bit 31 w = 0"
proof -
  have "unat (drop_bit 31 w) < 2"
    unfolding unat_drop_bit_eq drop_bit_eq_div [where 'a = nat]
    using unsigned_less [of w, where 'a = nat] by (simp add: div_less_iff_less_mult)
  then show ?thesis
    by (auto simp: word_unat_eq_iff unsigned_ucast_eq take_bit_eq_mod)
qed

lemma char_of_65: "char_of (65::int) = CHR ''A''"
  by code_simp

lemma low_byte_eq: "low_byte v = word_of_int (v mod 256)"
  by (simp add: low_byte_def and_255)

lemma uint_low_byte: "uint (low_byte v) = v mod 256"
  by (simp add: low_byte_eq uint_word_of_int take_bit_eq_mod)

lemma low_bytes3:
  assumes v: "v = (h * 256 + m) * 256 + l"
    and "0 \<le> h" "h < 256" "0 \<le> m" "m < 256" "0 \<le> l" "l < (256::int)"
  shows "uint (low_byte (drop_bit 16 v)) = h" "uint (low_byte (drop_bit 8 v)) = m" "uint (low_byte v) = l"
proof -
  have l: "v div 256 = h * 256 + m" "v mod 256 = l"
    using pack_div [of l 256 "h * 256 + m"] pack_mod [of l 256 "h * 256 + m"] assms by simp_all
  moreover have "v div 65536 = h"
    using zdiv_zmult2_eq [of 256 v 256] l pack_div [of m 256 h] assms by simp
  ultimately show "uint (low_byte (drop_bit 16 v)) = h" "uint (low_byte (drop_bit 8 v)) = m" "uint (low_byte v) = l"
    using assms pack_mod [of m 256 h] by (simp_all add: uint_low_byte drop_bit_eq_div)
qed

lemma div_range:
  fixes x :: int
  assumes "0 \<le> x" "x < q * k" "0 < k"
  shows "0 \<le> x div k" "x div k < q"
proof -
  show "0 \<le> x div k" using assms by (simp add: pos_imp_zdiv_nonneg_iff)
  have "x div k * k \<le> x" using div_mult_mod_eq [of x k] pos_mod_sign [OF assms(3)] by (metis le_add_same_cancel1)
  then have "x div k * k < q * k" using assms(2) by simp
  then show "x div k < q" using assms(3) by simp
qed

lemma pack_mod_mult:
  assumes "0 \<le> r" "r < k" "0 \<le> m"
  shows "(q * k + r) mod (k * m) = (q mod m) * k + (r::int)"
  using zmod_zmult2_eq [of m "q * k + r" k] pack_div [of r k q] pack_mod [of r k q] assms by simp

text \<open>The bit arithmetic of one group: three bytes as four six-bit values, and back.\<close>

definition sextets :: "int \<Rightarrow> int \<Rightarrow> int \<Rightarrow> int list" where
  "sextets x y z = [x div 4, (x mod 4) * 16 + y div 16, (y mod 16) * 4 + z div 64, z mod 64]"

lemma uint_u8: "0 \<le> uint (x::u8)" "uint (x::u8) < 256"
  using uint_bounded [of x] by simp_all

lemma encode_base64_eq:
  "encode_base64 s0 s1 s2 =
     map (\<lambda>x. char_of (base64_digit x)) (sextets (uint s0) (uint s1) (uint s2))"
proof -
  have d: "0 \<le> uint s div 16" "uint s div 16 < 16" "0 \<le> uint s div 64" "uint s div 64 < 4"
    "0 \<le> uint s div 4" "uint s div 4 < 64" for s :: u8
    using div_range(1,2) [of "uint s" 16 16] div_range(1,2) [of "uint s" 4 64]
      div_range(1,2) [of "uint s" 64 4] uint_u8 [of s] by simp_all
  have "push_bit 4 (uint s0) OR drop_bit 4 (uint s1) = uint s0 * 16 + uint s1 div 16"
    using or_push_bit_add [of "uint s1 div 16" 4 "uint s0"] d(1,2) [of s1] by (simp add: drop_bit_eq_div)
  moreover have "push_bit 2 (uint s1) OR drop_bit 6 (uint s2) = uint s1 * 4 + uint s2 div 64"
    using or_push_bit_add [of "uint s2 div 64" 2 "uint s1"] d(3,4) [of s2] by (simp add: drop_bit_eq_div)
  moreover have "uint s0 div 4 mod 64 = uint s0 div 4" using d(5,6) [of s0] by simp
  moreover have "(uint s0 * 16 + uint s1 div 16) mod 64 = (uint s0 mod 4) * 16 + uint s1 div 16"
    using pack_mod_mult [of "uint s1 div 16" 16 4 "uint s0"] d(1,2) [of s1] by simp
  moreover have "(uint s1 * 4 + uint s2 div 64) mod 64 = (uint s1 mod 16) * 4 + uint s2 div 64"
    using pack_mod_mult [of "uint s2 div 64" 4 16 "uint s1"] d(3,4) [of s2] by simp
  ultimately show ?thesis
    by (simp add: encode_base64_def sextets_def Let_def and_63 drop_bit_eq_div)
qed

lemma length_encode_base64 [simp]: "length (encode_base64 a b c) = 4"
  by (simp add: encode_base64_def Let_def)

lemma sextets_range:
  assumes "0 \<le> x" "x < 256" "0 \<le> y" "y < 256" "0 \<le> z" "z < (256::int)"
  shows "0 \<le> x div 4" "x div 4 < 64"
    "0 \<le> (x mod 4) * 16 + y div 16" "(x mod 4) * 16 + y div 16 < 64"
    "0 \<le> (y mod 16) * 4 + z div 64" "(y mod 16) * 4 + z div 64 < 64"
    "0 \<le> z mod 64" "z mod 64 < 64"
proof -
  have "0 \<le> x mod 4" "x mod 4 < 4" "0 \<le> y mod 16" "y mod 16 < 16" by simp_all
  moreover have "0 \<le> x div 4" "x div 4 < 64" "0 \<le> y div 16" "y div 16 < 16" "0 \<le> z div 64" "z div 64 < 4"
    using div_range [of x 64 4] div_range [of y 16 16] div_range [of z 4 64] assms by simp_all
  ultimately show "0 \<le> x div 4" "x div 4 < 64"
    "0 \<le> (x mod 4) * 16 + y div 16" "(x mod 4) * 16 + y div 16 < 64"
    "0 \<le> (y mod 16) * 4 + z div 64" "(y mod 16) * 4 + z div 64 < 64"
    "0 \<le> z mod 64" "z mod 64 < 64"
    by simp_all
qed

lemma sextets_pack:
  fixes x y z :: int
  shows "((x div 4 * 64 + ((x mod 4) * 16 + y div 16)) * 64 + ((y mod 16) * 4 + z div 64)) * 64 + z mod 64
    = (x * 256 + y) * 256 + z"
proof -
  have "x = xq * 4 + xr \<Longrightarrow> y = yq * 16 + yr \<Longrightarrow> z = zq * 64 + zr \<Longrightarrow>
    ((xq * 64 + (xr * 16 + yq)) * 64 + (yr * 4 + zq)) * 64 + zr = (x * 256 + y) * 256 + z"
    for xq xr yq yr zq zr by simp
  then show ?thesis by (simp only: div_mult_mod_eq)
qed

lemma sextets_unpack:
  fixes p q r s :: int
  shows "((p * 64 + q) * 64 + r) * 64 + s =
    ((p * 4 + q div 16) * 256 + ((q mod 16) * 16 + r div 4)) * 256 + ((r mod 4) * 64 + s)"
proof -
  have "q = qq * 16 + qr \<Longrightarrow> r = rq * 4 + rr \<Longrightarrow>
    ((p * 64 + q) * 64 + r) * 64 + s = ((p * 4 + qq) * 256 + (qr * 16 + rq)) * 256 + (rr * 64 + s)"
    for qq qr rq rr by simp
  from this [of "q div 16" "q mod 16" "r div 4" "r mod 4"] show ?thesis by (simp only: div_mult_mod_eq)
qed

lemma decode_encode_base64:
  fixes s0 s1 s2 :: u8
  defines "e \<equiv> encode_base64 s0 s1 s2"
  shows "decode_base64 sc (e ! 0) (e ! 1) (e ! 2) (e ! 3) = (uint s0 * 256 + uint s1) * 256 + uint s2"
    and "0 \<le> b64 sc (e ! 0) \<and> 0 \<le> b64 sc (e ! 1) \<and> 0 \<le> b64 sc (e ! 2) \<and> 0 \<le> b64 sc (e ! 3)"
    and "s2 = 0 \<Longrightarrow> e ! 3 = CHR ''A''"
proof -
  note r = sextets_range [OF uint_u8 [of s0] uint_u8 [of s1] uint_u8 [of s2]]
  have e: "e ! 0 = char_of (base64_digit (uint s0 div 4))"
    "e ! 1 = char_of (base64_digit (uint s0 mod 4 * 16 + uint s1 div 16))"
    "e ! 2 = char_of (base64_digit (uint s1 mod 16 * 4 + uint s2 div 64))"
    "e ! 3 = char_of (base64_digit (uint s2 mod 64))"
    by (simp_all add: e_def encode_base64_eq sextets_def)
  have v: "b64 sc (e ! 0) = uint s0 div 4" "b64 sc (e ! 1) = uint s0 mod 4 * 16 + uint s1 div 16"
    "b64 sc (e ! 2) = uint s1 mod 16 * 4 + uint s2 div 64" "b64 sc (e ! 3) = uint s2 mod 64"
    unfolding e by (rule b64_digit, rule r, rule r)+
  show nn: "0 \<le> b64 sc (e ! 0) \<and> 0 \<le> b64 sc (e ! 1) \<and> 0 \<le> b64 sc (e ! 2) \<and> 0 \<le> b64 sc (e ! 3)"
    unfolding v using r by simp
  then show "decode_base64 sc (e ! 0) (e ! 1) (e ! 2) (e ! 3) = (uint s0 * 256 + uint s1) * 256 + uint s2"
    using decode_base64_nonneg [of sc "e ! 0" "e ! 1" "e ! 2" "e ! 3"]
    unfolding v by (simp only: sextets_pack)
  show "s2 = 0 \<Longrightarrow> e ! 3 = CHR ''A''"
    by (simp add: e base64_digit_def char_of_65)
qed

lemma encode_decode_base64:
  assumes nn: "0 \<le> b64 sc a" "0 \<le> b64 sc b" "0 \<le> b64 sc c" "0 \<le> b64 sc d"
    and v: "v = decode_base64 sc a b c d"
  shows "encode_base64 (low_byte (drop_bit 16 v)) (low_byte (drop_bit 8 v)) (low_byte v) = [a, b, c, d]"
proof -
  define p q r s where pqrs: "p = b64 sc a" "q = b64 sc b" "r = b64 sc c" "s = b64 sc d"
  have nn': "0 \<le> p" "0 \<le> q" "0 \<le> r" "0 \<le> s" "p < 64" "q < 64" "r < 64" "s < 64"
    using nn b64_range unfolding pqrs by simp_all
  let ?h = "p * 4 + q div 16" and ?m = "(q mod 16) * 16 + r div 4" and ?l = "(r mod 4) * 64 + s"
  have "v = ((p * 64 + q) * 64 + r) * 64 + s"
    using decode_base64_nonneg [OF nn] v unfolding pqrs by simp
  also have "\<dots> = (?h * 256 + ?m) * 256 + ?l"
    by (rule sextets_unpack)
  finally have v': "v = (?h * 256 + ?m) * 256 + ?l" .
  have d: "0 \<le> q div 16" "q div 16 < 4" "0 \<le> r div 4" "r div 4 < 16"
    "0 \<le> q mod 16" "q mod 16 < 16" "0 \<le> r mod 4" "r mod 4 < 4"
    using div_range [of q 4 16] div_range [of r 16 4] nn' by simp_all
  have "0 \<le> ?h" "?h < 256" "0 \<le> ?m" "?m < 256" "0 \<le> ?l" "?l < 256"
    using nn' d by linarith+
  note u = low_bytes3 [OF v' this]
  have "sextets ?h ?m ?l = [p, q, r, s]"
    unfolding sextets_def
    using pack_div [OF d(1,2)] pack_mod [OF d(1,2)] pack_div [OF d(3,4)] pack_mod [OF d(3,4)]
      pack_div [of s 64 "r mod 4"] pack_mod [of s 64 "r mod 4"] nn' by simp
  then show ?thesis
    unfolding encode_base64_eq u using nn by (simp add: pqrs digit_b64)
qed

lemma sign_bit_eq_0: "sign_bit v = 0 \<longleftrightarrow> \<not> bit v 31"
proof -
  have "(ucast (drop_bit 31 (word_of_int v :: u32)) :: u8) = 0 \<longleftrightarrow> drop_bit 31 (word_of_int v :: u32) = 0"
    by (rule ucast_drop_31_eq_0)
  then show ?thesis
    using top_bit_u32 [of "word_of_int v"] by (auto simp: sign_bit_def bit_word_of_int_iff)
qed

lemma bit_push_b64:
  assumes "n \<le> 18"
  shows "bit (push_bit n (b64 sc x)) 31 \<longleftrightarrow> b64 sc x < 0"
proof -
  have p: "(2::int) ^ n \<le> 262144"
    using power_increasing [OF assms, of "2::int"] by simp
  have "- 1 * 2 ^ n \<le> b64 sc x * 2 ^ n" "b64 sc x * 2 ^ n \<le> 63 * (2 ^ n)"
    using b64_range [of sc x] by (intro mult_right_mono; simp)+
  with p have "- 2147483648 \<le> b64 sc x * 2 ^ n \<and> b64 sc x * 2 ^ n < 2147483648"
    by linarith
  then have "- (2 ^ 31) \<le> push_bit n (b64 sc x)" "push_bit n (b64 sc x) < 2 ^ 31"
    by (simp_all add: push_bit_eq_mult)
  then show ?thesis by (simp add: bit_31_int)
qed

lemma sign_bit_zero_iff:
  "sign_bit (decode_base64 sc a b c d) = 0 \<longleftrightarrow>
     0 \<le> b64 sc a \<and> 0 \<le> b64 sc b \<and> 0 \<le> b64 sc c \<and> 0 \<le> b64 sc d"
  unfolding sign_bit_eq_0 decode_base64_def b64_def [symmetric] bit_or_iff
  using bit_push_b64 [of 18 sc a] bit_push_b64 [of 12 sc b] bit_push_b64 [of 6 sc c]
    bit_push_b64 [of 0 sc d] by auto

subsection \<open>The loops over a key\<close>

lemma length_concat_chunks:
  "(\<And>i. i < n \<Longrightarrow> length (f i) = m) \<Longrightarrow> length (concat (map f [0..<n])) = n * m"
  by (induction n) auto

lemma nth_concat_chunks:
  "(\<And>i. i < n \<Longrightarrow> length (f i) = m) \<Longrightarrow> i < n \<Longrightarrow> j < m \<Longrightarrow>
     concat (map f [0..<n]) ! (i * m + j) = f i ! j"
proof (induction n)
  case 0
  then show ?case by simp
next
  case (Suc n)
  have len: "length (concat (map f [0..<n])) = n * m"
    using Suc.prems(1) by (simp add: length_concat_chunks)
  show ?case
  proof (cases "i < n")
    case True
    then have "i * m + j < n * m"
      using Suc.prems(3) mult_le_mono1 [of "Suc i" n m] by simp
    with True Suc show ?thesis by (simp add: nth_append len)
  next
    case False
    with Suc.prems have "i = n" by simp
    with Suc.prems show ?thesis by (simp add: nth_append len)
  qed
qed

text \<open>A list of \<open>n\<close> chunks of \<open>m\<close> elements is determined by its chunks.\<close>

lemma chunks_eqI:
  assumes "length xs = n * m" "\<And>i. i < n \<Longrightarrow> length (f i) = m"
    "\<And>i j. i < n \<Longrightarrow> j < m \<Longrightarrow> xs ! (i * m + j) = f i ! j"
  shows "xs = concat (map f [0..<n])"
proof (rule nth_equalityI)
  show "length xs = length (concat (map f [0..<n]))"
    using assms by (simp add: length_concat_chunks)
next
  fix k assume k: "k < length xs"
  then have "m \<noteq> 0" using assms(1) by (cases m) auto
  with k have "k div m < n" using assms(1) by (simp add: div_less_iff_less_mult)
  moreover have "k mod m < m" using \<open>m \<noteq> 0\<close> by simp
  ultimately show "xs ! k = concat (map f [0..<n]) ! k"
    using assms(3) [of "k div m" "k mod m"] nth_concat_chunks [of n f m "k div m" "k mod m"] assms(2)
    by simp
qed

lemma or_eq_0_byte: "(x::u8) OR y = 0 \<longleftrightarrow> x = 0 \<and> y = 0"
  by (rule or_eq_0_iff)

lemma ret_zero_iff: "1 AND drop_bit 8 (uint (ret::u8) - 1) \<noteq> 0 \<longleftrightarrow> ret = 0"
proof -
  have "list_all (\<lambda>n. (1 AND drop_bit 8 (uint (word_of_int n :: u8) - 1) \<noteq> 0) = ((word_of_int n :: u8) = 0)) [0..255]"
    by code_simp
  from forall_byte [OF this] show ?thesis .
qed

abbreviation group_value :: "bool \<Rightarrow> string \<Rightarrow> nat \<Rightarrow> int" where
  "group_value sc s i \<equiv>
     decode_base64 sc (s ! (i * 4)) (s ! (i * 4 + 1)) (s ! (i * 4 + 2)) (s ! (i * 4 + 3))"

abbreviation value_bytes :: "int \<Rightarrow> bytes" where
  "value_bytes v \<equiv> [low_byte (drop_bit 16 v), low_byte (drop_bit 8 v), low_byte v]"

lemma update_three:
  assumes "length pre = n"
  shows "(pre @ a # b # c # ys)[n := x, Suc n := y, Suc (Suc n) := z] = pre @ x # y # z # ys"
  using assms by (simp add: list_update_append)

lemma length_ge_3: "3 \<le> length xs \<Longrightarrow> \<exists>a b c ys. xs = a # b # c # ys"
  by (auto simp: numeral_3_eq_3 Suc_le_length_iff)

lemma fold_from_base64:
  assumes "n * 3 \<le> length key"
  shows "fold (from_base64_step sc s) [0..<n] (r, key) =
    (fold (\<lambda>i r. r OR sign_bit (group_value sc s i)) [0..<n] r,
     concat (map (\<lambda>i. value_bytes (group_value sc s i)) [0..<n]) @ drop (n * 3) key)"
  using assms
proof (induction n)
  case 0
  then show ?case by simp
next
  case (Suc n)
  let ?c = "concat (map (\<lambda>i. value_bytes (group_value sc s i)) [0..<n])"
  have len: "length ?c = n * 3" by (simp add: length_concat_chunks)
  have "\<exists>a b c ys. drop (n * 3) key = a # b # c # ys"
    using Suc.prems length_ge_3 [of "drop (n * 3) key"] by simp
  then obtain a b c ys where d: "drop (n * 3) key = a # b # c # ys" by blast
  have "drop (Suc n * 3) key = drop 3 (drop (n * 3) key)" by (simp add: add.commute)
  then have "drop (3 + n * 3) key = ys" unfolding d by simp
  with Suc d show ?case
    by (simp add: from_base64_step_def Let_def update_three [OF len, simplified])
qed

lemma fold_or_zero_iff:
  "fold (\<lambda>i r. r OR f i) [0..<n] r = (0::u8) \<longleftrightarrow> r = 0 \<and> (\<forall>i<n. f i = 0)"
  by (induction n) (auto simp: or_eq_0_iff less_Suc_eq)

text \<open>The decoder in closed form.\<close>

definition base64_key_bytes :: "bool \<Rightarrow> string \<Rightarrow> bytes" where
  "base64_key_bytes sc s =
     concat (map (\<lambda>i. value_bytes (group_value sc s i)) [0..<10])
     @ take 2 (value_bytes (decode_base64 sc (s ! 40) (s ! 41) (s ! 42) (CHR ''A'')))"

definition base64_ok :: "bool \<Rightarrow> string \<Rightarrow> bool" where
  "base64_ok sc s =
     (length s = 44 \<and> s ! 43 = CHR ''='' \<and> (\<forall>i<43. 0 \<le> b64 sc (s ! i)) \<and>
      low_byte (decode_base64 sc (s ! 40) (s ! 41) (s ! 42) (CHR ''A'')) = 0)"

lemma b64_A: "b64 sc (CHR ''A'') = 0"
  using b64_digit [of 0 sc] by (simp add: base64_digit_def char_of_65)

lemma all_less_43: "(\<forall>i<43. P i) \<longleftrightarrow>
    (\<forall>i<10. P (i * 4) \<and> P (i * 4 + 1) \<and> P (i * 4 + 2) \<and> P (i * 4 + 3)) \<and> P 40 \<and> P 41 \<and> P (42::nat)"
proof
  assume r: "(\<forall>i<10. P (i * 4) \<and> P (i * 4 + 1) \<and> P (i * 4 + 2) \<and> P (i * 4 + 3)) \<and> P 40 \<and> P 41 \<and> P 42"
  show "\<forall>i<43. P i"
  proof (intro allI impI)
    fix i :: nat assume i: "i < 43"
    show "P i"
    proof (cases "i < 40")
      case True
      then have "i div 4 < 10" by auto
      with r have "P (i div 4 * 4)" "P (i div 4 * 4 + 1)" "P (i div 4 * 4 + 2)" "P (i div 4 * 4 + 3)"
        by blast+
      moreover have "i = i div 4 * 4 \<or> i = i div 4 * 4 + 1 \<or> i = i div 4 * 4 + 2 \<or> i = i div 4 * 4 + 3"
        by presburger
      ultimately show ?thesis by metis
    next
      case False
      with i have "i = 40 \<or> i = 41 \<or> i = 42" by auto
      with r show ?thesis by auto
    qed
  qed
qed auto

lemma key_from_base64_eq:
  assumes "length key = 32" "length s = 44" "s ! 43 = CHR ''=''"
  shows "key_from_base64 sc key s = (base64_ok sc s, base64_key_bytes sc s)"
proof -
  obtain a b where ab: "drop 30 key = [a, b]"
    using assms(1) length_Suc_conv [of "drop 30 key" 1] by (auto simp: length_Suc_conv)
  let ?v = "decode_base64 sc (s ! 40) (s ! 41) (s ! 42) (CHR ''A'')"
  let ?c = "concat (map (\<lambda>i. value_bytes (group_value sc s i)) [0..<10])"
  let ?r = "fold (\<lambda>i r. r OR sign_bit (group_value sc s i)) [0..<10] (0::u8)"
  have len: "length ?c = 30" by (simp add: length_concat_chunks [of 10 _ 3, simplified])
  have f: "fold (from_base64_step sc s) [0..<10] (0, key) = (?r, ?c @ [a, b])"
    using fold_from_base64 [of 10 key sc s 0] assms(1) ab by simp
  have "key_from_base64 sc key s =
     (1 AND drop_bit 8 (uint (?r OR (sign_bit ?v OR low_byte ?v)) - 1) \<noteq> 0,
      (?c @ [a, b])[30 := low_byte (drop_bit 16 ?v), 31 := low_byte (drop_bit 8 ?v)])"
    using assms(2,3) by (simp add: key_from_base64_def key_len_defs f Let_def del: upt_rec_numeral)
  also have "(?c @ [a, b])[30 := low_byte (drop_bit 16 ?v), 31 := low_byte (drop_bit 8 ?v)]
      = base64_key_bytes sc s"
    using len by (simp add: base64_key_bytes_def list_update_append del: upt_rec_numeral)
  also have "(1 AND drop_bit 8 (uint (?r OR (sign_bit ?v OR low_byte ?v)) - 1) \<noteq> 0) = base64_ok sc s"
    unfolding ret_zero_iff or_eq_0_iff fold_or_zero_iff sign_bit_zero_iff base64_ok_def all_less_43
    using assms(2,3) by (auto simp: b64_A)
  finally show ?thesis .
qed

lemma length_key_to_base64 [simp]: "length (key_to_base64 k) = 44"
  by (simp add: key_to_base64_def Let_def key_len_defs length_concat_chunks [of 10 _ 4, simplified]
      del: upt_rec_numeral)

lemma key_to_base64_nth:
  shows "i < 10 \<Longrightarrow> j < 4 \<Longrightarrow>
      key_to_base64 k ! (i * 4 + j) = encode_base64 (k ! (i * 3)) (k ! (i * 3 + 1)) (k ! (i * 3 + 2)) ! j"
    and "j < 3 \<Longrightarrow> key_to_base64 k ! (40 + j) = encode_base64 (k ! 30) (k ! 31) 0 ! j"
    and "key_to_base64 k ! 43 = CHR ''=''"
proof -
  let ?f = "\<lambda>i. encode_base64 (k ! (i * 3)) (k ! (i * 3 + 1)) (k ! (i * 3 + 2))"
  let ?c = "concat (map ?f [0..<10])"
  have k: "key_to_base64 k = (?c @ encode_base64 (k ! 30) (k ! 31) 0)[43 := CHR ''='']"
    by (simp add: key_to_base64_def Let_def key_len_defs del: upt_rec_numeral)
  have len: "length ?c = 40" by (simp add: length_concat_chunks [of 10 _ 4, simplified] del: upt_rec_numeral)
  show "i < 10 \<Longrightarrow> j < 4 \<Longrightarrow> key_to_base64 k ! (i * 4 + j) = ?f i ! j"
    using nth_concat_chunks [of 10 ?f 4 i j] len unfolding k
    by (simp add: nth_append del: upt_rec_numeral)
  show "j < 3 \<Longrightarrow> key_to_base64 k ! (40 + j) = encode_base64 (k ! 30) (k ! 31) 0 ! j"
    using len unfolding k by (simp add: nth_append del: upt_rec_numeral)
  show "key_to_base64 k ! 43 = CHR ''=''"
    using len unfolding k by (simp del: upt_rec_numeral)
qed

lemma value_bytes_pack: "value_bytes ((uint (x::u8) * 256 + uint y) * 256 + uint (z::u8)) = [x, y, z]"
  using low_bytes3 [OF refl uint_u8 [of x] uint_u8 [of y] uint_u8 [of z]]
  by (simp add: word_uint_eq_iff)

lemma group_of_key:
  assumes "i < 10"
  shows "group_value sc (key_to_base64 k) i =
      (uint (k ! (i * 3)) * 256 + uint (k ! (i * 3 + 1))) * 256 + uint (k ! (i * 3 + 2))"
    and "\<And>j. j < 4 \<Longrightarrow> 0 \<le> b64 sc (key_to_base64 k ! (i * 4 + j))"
proof -
  let ?e = "encode_base64 (k ! (i * 3)) (k ! (i * 3 + 1)) (k ! (i * 3 + 2))"
  have e: "key_to_base64 k ! (i * 4) = ?e ! 0" "key_to_base64 k ! (i * 4 + 1) = ?e ! 1"
    "key_to_base64 k ! (i * 4 + 2) = ?e ! 2" "key_to_base64 k ! (i * 4 + 3) = ?e ! 3"
    using key_to_base64_nth(1) [OF assms, of 0] key_to_base64_nth(1) [OF assms, of 1]
      key_to_base64_nth(1) [OF assms, of 2] key_to_base64_nth(1) [OF assms, of 3] by simp_all
  show "group_value sc (key_to_base64 k) i =
      (uint (k ! (i * 3)) * 256 + uint (k ! (i * 3 + 1))) * 256 + uint (k ! (i * 3 + 2))"
    unfolding e by (rule decode_encode_base64)
  fix j :: nat assume "j < 4"
  then have "j = 0 \<or> j = 1 \<or> j = 2 \<or> j = 3" by auto
  then show "0 \<le> b64 sc (key_to_base64 k ! (i * 4 + j))"
    using decode_encode_base64(2) [of sc "k ! (i * 3)" "k ! (i * 3 + 1)" "k ! (i * 3 + 2)"] e by auto
qed

lemma last_group_of_key:
  fixes k sc
  defines "K \<equiv> key_to_base64 k"
  shows "decode_base64 sc (K ! 40) (K ! 41) (K ! 42) (CHR ''A'') = (uint (k ! 30) * 256 + uint (k ! 31)) * 256 + uint (0::u8)"
    and "0 \<le> b64 sc (K ! 40) \<and> 0 \<le> b64 sc (K ! 41) \<and> 0 \<le> b64 sc (K ! 42)"
proof -
  let ?e = "encode_base64 (k ! 30) (k ! 31) 0"
  have e: "K ! 40 = ?e ! 0" "K ! 41 = ?e ! 1" "K ! 42 = ?e ! 2" "CHR ''A'' = ?e ! 3"
    using key_to_base64_nth(2) [of 0 k] key_to_base64_nth(2) [of 1 k] key_to_base64_nth(2) [of 2 k]
      decode_encode_base64(3) [of 0 "k ! 30" "k ! 31"] by (simp_all add: K_def)
  show "decode_base64 sc (K ! 40) (K ! 41) (K ! 42) (CHR ''A'') = (uint (k ! 30) * 256 + uint (k ! 31)) * 256 + uint (0::u8)"
    unfolding e by (rule decode_encode_base64)
  show "0 \<le> b64 sc (K ! 40) \<and> 0 \<le> b64 sc (K ! 41) \<and> 0 \<le> b64 sc (K ! 42)"
    unfolding e using decode_encode_base64(2) by blast
qed

lemma key_split:
  assumes "length k = 32"
  shows "k = concat (map (\<lambda>i. [k ! (i * 3), k ! (i * 3 + 1), k ! (i * 3 + 2)]) [0..<10]) @ [k ! 30, k ! 31]"
proof -
  have "take 30 k = concat (map (\<lambda>i. [k ! (i * 3), k ! (i * 3 + 1), k ! (i * 3 + 2)]) [0..<10])"
  proof (rule chunks_eqI [where m = 3])
    fix i j :: nat assume "i < 10" "j < 3"
    then have "j = 0 \<or> j = 1 \<or> j = 2" "i * 3 + j < 30" by auto
    then show "take 30 k ! (i * 3 + j) = [k ! (i * 3), k ! (i * 3 + 1), k ! (i * 3 + 2)] ! j"
      using assms by auto
  qed (use assms in simp_all)
  moreover have "drop 30 k = [k ! 30, k ! 31]"
    using assms Cons_nth_drop_Suc [of 30 k] Cons_nth_drop_Suc [of 31 k] by simp
  ultimately show ?thesis by (metis append_take_drop_id)
qed

lemma base64_decode_encode:
  assumes "length k = 32"
  shows "base64_ok sc (key_to_base64 k)" "base64_key_bytes sc (key_to_base64 k) = k"
proof -
  have "low_byte (decode_base64 sc (key_to_base64 k ! 40) (key_to_base64 k ! 41) (key_to_base64 k ! 42) (CHR ''A'')) = 0"
    using value_bytes_pack [of "k ! 30" "k ! 31" 0] unfolding last_group_of_key(1) by simp
  moreover have "0 \<le> b64 sc (key_to_base64 k ! (i * 4)) \<and> 0 \<le> b64 sc (key_to_base64 k ! (i * 4 + 1)) \<and>
      0 \<le> b64 sc (key_to_base64 k ! (i * 4 + 2)) \<and> 0 \<le> b64 sc (key_to_base64 k ! (i * 4 + 3))"
    if "i < 10" for i
    using group_of_key(2) [OF that, of 0 sc k] group_of_key(2) [OF that, of 1 sc k]
      group_of_key(2) [OF that, of 2 sc k] group_of_key(2) [OF that, of 3 sc k] by simp
  ultimately show "base64_ok sc (key_to_base64 k)"
    unfolding base64_ok_def all_less_43
    using last_group_of_key(2) [of sc k] key_to_base64_nth(3) [of k] by simp
  have "map (\<lambda>i. value_bytes (group_value sc (key_to_base64 k) i)) [0..<10]
      = map (\<lambda>i. [k ! (i * 3), k ! (i * 3 + 1), k ! (i * 3 + 2)]) [0..<10]"
    by (rule map_cong [OF refl]) (simp only: group_of_key(1) set_upt value_bytes_pack atLeastLessThan_iff)
  moreover have "take 2 (value_bytes (decode_base64 sc (key_to_base64 k ! 40) (key_to_base64 k ! 41) (key_to_base64 k ! 42) (CHR ''A'')))
      = [k ! 30, k ! 31]"
    unfolding last_group_of_key(1) value_bytes_pack by simp
  ultimately show "base64_key_bytes sc (key_to_base64 k) = k"
    unfolding base64_key_bytes_def using key_split [OF assms] by (simp only:)
qed

lemma base64_encode_decode:
  assumes ok: "base64_ok sc s"
  shows "key_to_base64 (base64_key_bytes sc s) = s"
proof -
  let ?k = "base64_key_bytes sc s"
  let ?c = "concat (map (\<lambda>i. value_bytes (group_value sc s i)) [0..<10])"
  let ?v = "decode_base64 sc (s ! 40) (s ! 41) (s ! 42) (CHR ''A'')"
  have len: "length ?c = 30" by (simp add: length_concat_chunks [of 10 _ 3, simplified] del: upt_rec_numeral)
  have kn: "?k ! (i * 3 + j) = value_bytes (group_value sc s i) ! j" if "i < 10" "j < 3" for i j
    using nth_concat_chunks [of 10 "\<lambda>i. value_bytes (group_value sc s i)" 3 i j] that len
    by (simp add: base64_key_bytes_def nth_append del: upt_rec_numeral)
  have k30: "?k ! 30 = low_byte (drop_bit 16 ?v)" "?k ! 31 = low_byte (drop_bit 8 ?v)"
    using len by (simp_all add: base64_key_bytes_def nth_append del: upt_rec_numeral)
  have ok': "length s = 44" "s ! 43 = CHR ''=''" "low_byte ?v = 0"
    "\<forall>i<10. 0 \<le> b64 sc (s ! (i * 4)) \<and> 0 \<le> b64 sc (s ! (i * 4 + 1)) \<and>
       0 \<le> b64 sc (s ! (i * 4 + 2)) \<and> 0 \<le> b64 sc (s ! (i * 4 + 3))"
    "0 \<le> b64 sc (s ! 40)" "0 \<le> b64 sc (s ! 41)" "0 \<le> b64 sc (s ! 42)"
    using ok unfolding base64_ok_def all_less_43 by auto
  have enc: "encode_base64 (?k ! (i * 3)) (?k ! (i * 3 + 1)) (?k ! (i * 3 + 2))
      = [s ! (i * 4), s ! (i * 4 + 1), s ! (i * 4 + 2), s ! (i * 4 + 3)]" if "i < 10" for i
    using encode_decode_base64 [OF _ _ _ _ refl, of sc "s ! (i * 4)" "s ! (i * 4 + 1)" "s ! (i * 4 + 2)" "s ! (i * 4 + 3)"]
      ok'(4) that kn [OF that, of 0] kn [OF that, of 1] kn [OF that, of 2] by simp
  have last: "encode_base64 (?k ! 30) (?k ! 31) 0 = [s ! 40, s ! 41, s ! 42, CHR ''A'']"
    using encode_decode_base64 [OF ok'(5-7) _ refl, of "CHR ''A''"] ok'(3) k30 by (simp add: b64_A)
  show ?thesis
  proof (rule nth_equalityI)
    show "length (key_to_base64 ?k) = length s" using ok' by simp
  next
    fix n assume "n < length (key_to_base64 ?k)"
    then have "n < 40 \<or> n = 40 \<or> n = 41 \<or> n = 42 \<or> n = 43" by auto
    moreover have "key_to_base64 ?k ! n = s ! n" if "n < 40"
    proof -
      from that have n: "n div 4 < 10" "n mod 4 < 4" by auto
      have "n mod 4 = 0 \<or> n mod 4 = 1 \<or> n mod 4 = 2 \<or> n mod 4 = 3" by auto
      moreover have "key_to_base64 ?k ! (n div 4 * 4 + n mod 4) =
          [s ! (n div 4 * 4), s ! (n div 4 * 4 + 1), s ! (n div 4 * 4 + 2), s ! (n div 4 * 4 + 3)] ! (n mod 4)"
        using key_to_base64_nth(1) [OF n] enc [OF n(1)] by simp
      ultimately have "key_to_base64 ?k ! (n div 4 * 4 + n mod 4) = s ! (n div 4 * 4 + n mod 4)"
        by (elim disjE) (simp_all only: nth_Cons_0 nth_Cons_numeral add_0_right, simp_all)
      then show ?thesis by simp
    qed
    moreover have "key_to_base64 ?k ! 40 = s ! 40" "key_to_base64 ?k ! 41 = s ! 41" "key_to_base64 ?k ! 42 = s ! 42"
      using key_to_base64_nth(2) [of 0 ?k] key_to_base64_nth(2) [of 1 ?k] key_to_base64_nth(2) [of 2 ?k] last
      by simp_all
    ultimately show "key_to_base64 ?k ! n = s ! n"
      using key_to_base64_nth(3) [of ?k] ok'(2) by auto
  qed
qed

lemma key_from_base64_iff:
  assumes "length key = 32"
  shows "key_from_base64 sc key s = (True, k) \<longleftrightarrow> length k = 32 \<and> s = key_to_base64 k"
proof
  assume r: "key_from_base64 sc key s = (True, k)"
  then have s: "length s = 44" "s ! 43 = CHR ''=''"
    by (auto simp: key_from_base64_def key_len_defs split: if_splits)
  from r key_from_base64_eq [OF assms s] have ok: "base64_ok sc s" "k = base64_key_bytes sc s" by auto
  have "length k = 32"
    using length_concat_chunks [of 10 "\<lambda>i. value_bytes (group_value sc s i)" 3]
    by (simp add: ok(2) base64_key_bytes_def del: upt_rec_numeral)
  with base64_encode_decode [OF ok(1)] ok(2) show "length k = 32 \<and> s = key_to_base64 k" by simp
next
  assume *: "length k = 32 \<and> s = key_to_base64 k"
  then have ok: "base64_ok sc s" "base64_key_bytes sc s = k"
    using base64_decode_encode [of k sc] by auto
  then have "length s = 44" "s ! 43 = CHR ''=''" by (auto simp: base64_ok_def)
  from key_from_base64_eq [OF assms this, of sc] ok
  show "key_from_base64 sc key s = (True, k)" by simp
qed

subsection \<open>Hexadecimal keys and the zero test\<close>

lemma hex_digit_table:
  "list_all (\<lambda>n. char_of (uint (ucast (hex_digit (word_of_int n)) :: u8)) = digit_char (nat n)) [0..15]"
  by code_simp

lemma hex_value_table:
  "list_all (\<lambda>n. case hex_value (word_of_int n) of (v, b) \<Rightarrow>
      if is_digit_in 16 (char_of n) then b = 0 \<and> uint v = int (the (digit_value (char_of n))) else b \<noteq> 0) [0..255]"
  by code_simp

lemma hex_value_char:
  "(snd (hex_value (of_char c)) = 0) = is_digit_in 16 c"
  "is_digit_in 16 c \<Longrightarrow> uint (fst (hex_value (of_char c))) = int (the (digit_value c))"
proof -
  have w: "(of_char c :: u8) = word_of_int (char_int c)" by (simp add: of_char_def)
  have r: "0 \<le> char_int c" "char_int c \<le> 255" by simp (use char_int_range [of c] in linarith)
  have "case hex_value (word_of_int (char_int c)) of (v, b) \<Rightarrow>
      if is_digit_in 16 c then b = 0 \<and> uint v = int (the (digit_value c)) else b \<noteq> 0"
    using forall_upto [OF hex_value_table r] unfolding char_of_char_int .
  then show "(snd (hex_value (of_char c)) = 0) = is_digit_in 16 c"
    "is_digit_in 16 c \<Longrightarrow> uint (fst (hex_value (of_char c))) = int (the (digit_value c))"
    unfolding w by (auto split: prod.splits if_splits)
qed

lemma nat_of_tolower:
  "(of_char (tolower c) :: nat) = (let n = of_char c in if 65 \<le> n \<and> n \<le> 90 then n + 32 else n)"
proof -
  have "char_of (char_int c + 32) = (char_of ((of_char c :: nat) + 32) :: char)"
    by (metis char_of_nat of_nat_add of_nat_numeral)
  then show ?thesis
    by (auto simp: tolower_def Let_def of_char_char_of_small)
qed

lemma tolower_digit:
  assumes "d < 16"
  shows "tolower c = digit_char d \<longleftrightarrow> digit_value c = Some d"
proof -
  have "(of_char (digit_char d) :: nat) = (if d < 10 then 48 + d else 87 + d)"
    using assms by (simp add: digit_char_def of_char_char_of_small)
  then have "tolower c = digit_char d \<longleftrightarrow>
      (let n = of_char c in if 65 \<le> n \<and> n \<le> 90 then n + 32 else n) = (if d < 10 then 48 + d else 87 + d)"
    by (metis nat_of_tolower of_char_eq_iff)
  also have "\<dots> \<longleftrightarrow> digit_value c = Some d"
    using assms by (auto simp: digit_value_def Let_def split: if_splits)
  finally show ?thesis .
qed

definition hex_byte :: "string \<Rightarrow> nat \<Rightarrow> u8" where
  "hex_byte s j = fst (hex_value (of_char (s ! (2 * j)))) * 16 OR fst (hex_value (of_char (s ! (2 * j + 1))))"

lemma fold_from_hex:
  "n \<le> length key \<Longrightarrow>
   fold (from_hex_step s) [0..<n] (0, key) =
     (fold (\<lambda>j r. r OR (snd (hex_value (of_char (s ! (2 * j)))) OR snd (hex_value (of_char (s ! (2 * j + 1)))))) [0..<n] 0,
      map (hex_byte s) [0..<n] @ drop n key)"
proof (induction n)
  case (Suc n)
  then have "drop n key = key ! n # drop (Suc n) key" by (simp add: Cons_nth_drop_Suc)
  with Suc show ?case
    by (simp add: from_hex_step_def hex_byte_def split_def Let_def list_update_append or.assoc)
qed simp

lemma forall_pairs: "(\<forall>i<2*n. P i) = (\<forall>j<n. P (2 * j) \<and> P (2 * j + 1))" for n :: nat
proof (intro iffI allI impI)
  fix i :: nat assume *: "\<forall>j<n. P (2 * j) \<and> P (2 * j + 1)" "i < 2 * n"
  then have "P (2 * (i div 2)) \<and> P (2 * (i div 2) + 1)" by auto
  then show "P i" by (cases "even i") auto
qed auto

lemma key_from_hex_eq:
  assumes "length key = 32" "length s = 64"
  shows "key_from_hex key s = (\<forall>i<64. is_digit_in 16 (s ! i), map (hex_byte s) [0..<32])"
proof -
  have all: "(\<forall>i<64. is_digit_in 16 (s ! i)) = (\<forall>j<32. is_digit_in 16 (s ! (2 * j)) \<and> is_digit_in 16 (s ! (2 * j + 1)))"
    using forall_pairs [of 32] by simp
  have n: "(WG_KEY_LEN_HEX - 1) div 2 = 32" by (simp add: key_len_defs)
  have "key_from_hex key s =
      (fold (\<lambda>j r. r OR (snd (hex_value (of_char (s ! (2 * j)))) OR snd (hex_value (of_char (s ! (2 * j + 1)))))) [0..<32] 0 = 0,
       map (hex_byte s) [0..<32])"
    unfolding key_from_hex_def n using assms
    by (simp only: fold_from_hex [of 32 key s] Let_def prod.case ret_zero_iff) (simp add: key_len_defs del: upt_rec_numeral)
  then show ?thesis
    unfolding fold_or_zero_iff or_eq_0_iff hex_value_char(1) all by (simp only: simp_thms)
qed

lemma hex_byte_digits:
  assumes "is_digit_in 16 (s ! (2 * j))" "is_digit_in 16 (s ! (2 * j + 1))"
  shows "uint (hex_byte s j) = int (the (digit_value (s ! (2 * j))) * 16 + the (digit_value (s ! (2 * j + 1))))"
proof -
  have lt: "is_digit_in 16 c \<Longrightarrow> the (digit_value c) < 16" for c
    by (auto simp: is_digit_in_def split: option.splits)
  let ?x = "fst (hex_value (of_char (s ! (2 * j))))" and ?y = "fst (hex_value (of_char (s ! (2 * j + 1))))"
  have x: "0 \<le> uint ?x" "uint ?x < 16" "0 \<le> uint ?y" "uint ?y < 16"
    unfolding hex_value_char(2) [OF assms(1)] hex_value_char(2) [OF assms(2)] using lt assms by auto
  then have "uint (?x * 16) = uint ?x * 16"
    by (simp add: uint_word_ariths)
  then have "uint (hex_byte s j) = push_bit 4 (uint ?x) OR uint ?y"
    by (simp add: hex_byte_def uint_or push_bit_eq_mult)
  also have "\<dots> = uint ?x * 16 + uint ?y" using x by (simp add: or_push_bit_add)
  finally show ?thesis unfolding hex_value_char(2) [OF assms(1)] hex_value_char(2) [OF assms(2)] by simp
qed

lemma length_key_to_hex [simp]: "length (key_to_hex k) = 64"
  by (simp add: key_to_hex_def key_len_defs length_concat_chunks [of 32 _ 2, simplified] del: upt_rec_numeral)

lemma hex_digit_char:
  assumes "unat (n::u8) < 16"
  shows "char_of (uint (ucast (hex_digit (ucast n)) :: u8)) = digit_char (unat n)"
proof -
  have "(ucast n :: u32) = word_of_int (uint n)" by (rule ucast_eq)
  moreover have "0 \<le> uint n" "uint n \<le> 15" using assms unfolding unat_eq_nat_uint by (simp, linarith)
  ultimately show ?thesis using forall_upto [OF hex_digit_table, of "uint n"] by simp
qed

lemma key_to_hex_nth:
  assumes "j < 32"
  shows "key_to_hex k ! (2 * j) = digit_char (unat (k ! j) div 16)"
    "key_to_hex k ! (2 * j + 1) = digit_char (unat (k ! j) mod 16)"
proof -
  let ?f = "\<lambda>i. [char_of (uint (ucast (hex_digit (ucast (drop_bit 4 (k ! i)))) :: u8)),
                       char_of (uint (ucast (hex_digit (ucast (k ! i AND 15))) :: u8))]"
  have hi: "unat (drop_bit 4 (k ! j)) = unat (k ! j) div 16"
    by (simp add: unat_drop_bit_eq drop_bit_eq_div [where 'a = nat])
  have lo: "unat (k ! j AND 15) = unat (k ! j) mod 16"
    using take_bit_eq_mask [of 4 "unat (k ! j)"] take_bit_eq_mod [of 4 "unat (k ! j)"]
    by (simp add: unsigned_and_eq mask_eq_exp_minus_1)
  have "unat (k ! j) div 16 < 16" "unat (k ! j) mod 16 < 16"
    using unsigned_less [of "k ! j", where 'a = nat] by auto
  then have f: "?f j = [digit_char (unat (k ! j) div 16), digit_char (unat (k ! j) mod 16)]"
    using hex_digit_char [of "drop_bit 4 (k ! j)"] hex_digit_char [of "k ! j AND 15"] hi lo by simp
  have "key_to_hex k ! (j * 2 + i) = ?f j ! i" if "i < 2" for i
    unfolding key_to_hex_def WG_KEY_LEN_def using assms that by (intro nth_concat_chunks) simp_all
  then have "key_to_hex k ! (j * 2 + i) = [digit_char (unat (k ! j) div 16), digit_char (unat (k ! j) mod 16)] ! i"
    if "i < 2" for i unfolding f [symmetric] using that by blast
  from this [of 0] this [of 1] show "key_to_hex k ! (2 * j) = digit_char (unat (k ! j) div 16)"
    "key_to_hex k ! (2 * j + 1) = digit_char (unat (k ! j) mod 16)"
    by (simp_all add: mult.commute [of 2 j])
qed

lemma div_mod_16: "b < 16 \<Longrightarrow> (a * 16 + b = n) = (a = n div 16 \<and> b = n mod 16)" for n :: nat
  using div_mult_mod_eq [of n 16] by (auto simp del: div_mult_mod_eq)

lemma key_from_hex_iff:
  assumes "length key = 32"
  shows "key_from_hex key s = (True, k) \<longleftrightarrow> length k = 32 \<and> map tolower s = key_to_hex k"
proof (cases "length s = 64")
  case False
  then have "map tolower s \<noteq> key_to_hex k" by (metis length_key_to_hex length_map)
  with False show ?thesis by (simp add: key_from_hex_def key_len_defs)
next
  case True
  define D where "D i = digit_value (s ! i)" for i
  have D: "is_digit_in 16 (s ! i) = (\<exists>d<16. D i = Some d)" for i
    by (auto simp: D_def is_digit_in_def split: option.splits)
  have low: "map tolower s = key_to_hex k \<longleftrightarrow>
      (\<forall>j<32. D (2 * j) = Some (unat (k ! j) div 16) \<and> D (2 * j + 1) = Some (unat (k ! j) mod 16))"
  proof -
    have "unat (k ! j) div 16 < 16" for j using unsigned_less [of "k ! j", where 'a = nat] by auto
    then have c: "tolower (s ! (2 * j)) = key_to_hex k ! (2 * j) \<longleftrightarrow> D (2 * j) = Some (unat (k ! j) div 16)"
      "tolower (s ! (2 * j + 1)) = key_to_hex k ! (2 * j + 1) \<longleftrightarrow> D (2 * j + 1) = Some (unat (k ! j) mod 16)" if "j < 32" for j
      unfolding D_def key_to_hex_nth [OF that] by (intro tolower_digit; simp)+
    have "map tolower s = key_to_hex k \<longleftrightarrow> (\<forall>i<2*32. tolower (s ! i) = key_to_hex k ! i)"
      using True by (auto simp: list_eq_iff_nth_eq)
    also have "\<dots> \<longleftrightarrow> (\<forall>j<32. D (2 * j) = Some (unat (k ! j) div 16) \<and> D (2 * j + 1) = Some (unat (k ! j) mod 16))"
      unfolding forall_pairs using c by blast
    finally show ?thesis .
  qed
  have byte: "hex_byte s j = k ! j \<longleftrightarrow> D (2 * j) = Some (unat (k ! j) div 16) \<and> D (2 * j + 1) = Some (unat (k ! j) mod 16)"
    if "is_digit_in 16 (s ! (2 * j))" "is_digit_in 16 (s ! (2 * j + 1))" for j
  proof -
    from that obtain a b where ab: "D (2 * j) = Some a" "D (2 * j + 1) = Some b" "a < 16" "b < 16"
      unfolding D by auto
    have "uint (hex_byte s j) = int (a * 16 + b)"
      using hex_byte_digits [OF that] ab(1,2) by (simp add: D_def)
    then have "unat (hex_byte s j) = a * 16 + b" by (simp only: unat_eq_nat_uint nat_int)
    then have "hex_byte s j = k ! j \<longleftrightarrow> a * 16 + b = unat (k ! j)"
      by (metis unsigned_word_eqI)
    also have "\<dots> \<longleftrightarrow> a = unat (k ! j) div 16 \<and> b = unat (k ! j) mod 16" 
      using ab(4) div_mod_16 by metis
    finally show ?thesis by (simp only: ab option.inject)
  qed
  have "key_from_hex key s = (True, k) \<longleftrightarrow> (\<forall>i<2*32. is_digit_in 16 (s ! i)) \<and> length k = 32 \<and> (\<forall>j<32. hex_byte s j = k ! j)"
    unfolding key_from_hex_eq [OF assms True] prod.inject list_eq_iff_nth_eq
    by (simp del: upt_rec_numeral)
  also have "\<dots> \<longleftrightarrow> length k = 32 \<and> map tolower s = key_to_hex k"
  proof -
    have lt: "unat (k ! j) div 16 < 16" "unat (k ! j) mod 16 < 16" for j
      using unsigned_less [of "k ! j", where 'a = nat] by auto
    have eq: "is_digit_in 16 (s ! (2 * j)) \<and> is_digit_in 16 (s ! (2 * j + 1)) \<and> hex_byte s j = k ! j \<longleftrightarrow>
        D (2 * j) = Some (unat (k ! j) div 16) \<and> D (2 * j + 1) = Some (unat (k ! j) mod 16)" (is "?l j = ?r j") for j
    proof
      assume "?l j" then show "?r j" using byte [of j] by blast
    next
      assume r: "?r j"
      with lt [of j] have "is_digit_in 16 (s ! (2 * j))" "is_digit_in 16 (s ! (2 * j + 1))" unfolding D by blast+
      with r byte [of j] show "?l j" by blast
    qed
    show ?thesis unfolding low forall_pairs eq [symmetric] by iprover
  qed
  finally show ?thesis .
qed

lemma key_is_zero_iff:
  assumes "length key = 32"
  shows "key_is_zero key \<longleftrightarrow> key = replicate 32 0"
  unfolding key_is_zero_def WG_KEY_LEN_def Let_def ret_zero_iff fold_or_zero_iff
  using assms by (auto simp: list_eq_iff_nth_eq)

lemma key_from_base64_length:
  "length key = 32 \<Longrightarrow> key_from_base64 sc key s = (True, k) \<Longrightarrow> length k = 32"
  by (simp add: key_from_base64_iff)

lemma key_to_base64_inj: "length k = 32 \<Longrightarrow> length k' = 32 \<Longrightarrow> key_to_base64 k = key_to_base64 k' \<longleftrightarrow> k = k'"
  using base64_decode_encode(2) by metis

subsection \<open>Properties\<close>

text \<open>
  C1. The base64 decoder accepts exactly the canonical encodings: whatever the key buffer held and
  whether \<open>char\<close> is signed or not, \<open>key_from_base64\<close> succeeds with the key \<open>k\<close> if and only if the
  text is what \<open>key_to_base64\<close> prints for the 32 bytes \<open>k\<close>. So the codec is a bijection: decoding
  inverts encoding, no second spelling of a key is accepted, and all other texts are refused.
\<close>

theorem key_from_base64_bijective:
  assumes "length key = WG_KEY_LEN"
  shows "key_from_base64 sc key s = (True, k) \<longleftrightarrow> length k = WG_KEY_LEN \<and> s = key_to_base64 k"
  using assms key_from_base64_iff by (simp add: WG_KEY_LEN_def)

theorem key_from_base64_bijective_witness:
  "length (replicate 32 0 :: bytes) = WG_KEY_LEN \<and> length (replicate 32 7 :: bytes) = WG_KEY_LEN \<and>
   key_from_base64 True (replicate 32 0) (key_to_base64 (replicate 32 7)) = (True, replicate 32 7)"
  using key_from_base64_bijective [of "replicate 32 0" True "key_to_base64 (replicate 32 7)" "replicate 32 7"]
  by (simp add: WG_KEY_LEN_def)

text \<open>
  C14. The hexadecimal decoder accepts exactly the 64-digit spellings of a key, in either case of
  letters: \<open>key_from_hex\<close> succeeds with the key \<open>k\<close> if and only if the text, in lower case, is what
  \<open>key_to_hex\<close> prints for \<open>k\<close>.
\<close>

theorem key_from_hex_correct:
  assumes "length key = WG_KEY_LEN"
  shows "key_from_hex key s = (True, k) \<longleftrightarrow> length k = WG_KEY_LEN \<and> map tolower s = key_to_hex k"
  using assms key_from_hex_iff by (simp add: WG_KEY_LEN_def)

lemma tolower_key_to_hex_9: "map tolower (key_to_hex (replicate 32 0x9f)) = key_to_hex (replicate 32 0x9f)"
  by code_simp

theorem key_from_hex_correct_witness:
  "length (replicate 32 0 :: bytes) = WG_KEY_LEN \<and>
   key_from_hex (replicate 32 0) (key_to_hex (replicate 32 0x9f)) = (True, replicate 32 0x9f)"
  using key_from_hex_correct [of "replicate 32 0" "key_to_hex (replicate 32 0x9f)" "replicate 32 0x9f"]
  by (simp add: WG_KEY_LEN_def tolower_key_to_hex_9)

end
