(* ===== verification/Wg_Containers.thy ===== *)
theory Wg_Containers
  imports Wg_Encoding
begin

text \<open>
  The data of \<open>wireguard-tools/src/containers.h\<close>: devices, peers and allowed IPs, their flag words,
  and the chains they form. A C chain reached from a \<open>first_...\<close> pointer is a list; a pointer to one
  of its nodes (\<open>last_peer\<close>, \<open>last_allowedip\<close>) is the node's index, \<open>NULL\<close> is \<^term>\<open>None\<close>. The
  unions keep their bytes: an address has 16 of them (\<open>ip4\<close> is the first four), an endpoint the 28 of
  a \<open>struct sockaddr_in6\<close>.

  The theory also has the result type of the fallible operations and the locale of an append-only
  chain, interpreted on the peers of a device and on the allowed IPs of a peer.
\<close>

subsection \<open>Results of operations\<close>

text \<open>
  A call returns a value, returns failure after reporting an error, ends the process, never returns,
  or dereferences a pointer that is \<open>NULL\<close>.
\<close>

datatype ('e, 'a) outcome = Done 'a | Error 'e | Exit 'e | Diverge | Crash

fun and_then :: "('e, 'a) outcome \<Rightarrow> ('a \<Rightarrow> ('e, 'b) outcome) \<Rightarrow> ('e, 'b) outcome" where
  "and_then (Done x) f = f x"
| "and_then (Error e) f = Error e"
| "and_then (Exit e) f = Exit e"
| "and_then Diverge f = Diverge"
| "and_then Crash f = Crash"

primrec fold_outcome :: "('a \<Rightarrow> 's \<Rightarrow> ('e, 's) outcome) \<Rightarrow> 'a list \<Rightarrow> 's \<Rightarrow> ('e, 's) outcome" where
  "fold_outcome f [] s = Done s"
| "fold_outcome f (x # xs) s = and_then (f x s) (fold_outcome f xs)"

lemma and_then_Done_iff [simp]: "and_then r f = Done y \<longleftrightarrow> (\<exists>x. r = Done x \<and> f x = Done y)"
  by (cases r) auto

lemma and_then_Crash_iff [simp]: "and_then r f = Crash \<longleftrightarrow> r = Crash \<or> (\<exists>x. r = Done x \<and> f x = Crash)"
  by (cases r) auto

lemma and_then_Diverge_iff [simp]: "and_then r f = Diverge \<longleftrightarrow> r = Diverge \<or> (\<exists>x. r = Done x \<and> f x = Diverge)"
  by (cases r) auto

lemma fold_outcome_append:
  "fold_outcome f (xs @ ys) s = and_then (fold_outcome f xs s) (fold_outcome f ys)"
proof (induction xs arbitrary: s)
  case (Cons x xs)
  then show ?case by (cases "f x s") simp_all
qed simp

text \<open>
  A result is safe for a predicate if it is no crash and its value, when there is one, satisfies the
  predicate. Safety of a composed operation is safety of its parts.
\<close>

fun safe :: "('a \<Rightarrow> bool) \<Rightarrow> ('e, 'a) outcome \<Rightarrow> bool" where
  "safe P (Done x) = P x"
| "safe P Crash = False"
| "safe P (Error e) = True"
| "safe P (Exit e) = True"
| "safe P Diverge = True"

lemma safe_iff: "safe P r \<longleftrightarrow> r \<noteq> Crash \<and> (\<forall>x. r = Done x \<longrightarrow> P x)"
  by (cases r) auto

lemma safe_mono: "safe P r \<Longrightarrow> (\<And>x. P x \<Longrightarrow> Q x) \<Longrightarrow> safe Q r"
  by (cases r) auto

lemma safe_and_then [simp]: "safe P (and_then r f) \<longleftrightarrow> safe (\<lambda>x. safe P (f x)) r"
  by (cases r) auto

lemma safe_fold_outcome:
  assumes step: "\<And>x s. I s \<Longrightarrow> safe I (f x s)"
  shows "I s \<Longrightarrow> safe I (fold_outcome f xs s)"
proof (induction xs arbitrary: s)
  case (Cons x xs)
  show ?case
    using step [OF Cons.prems, of x] by (cases "f x s") (simp_all add: Cons.IH)
qed simp

subsection \<open>The records\<close>

definition AF_UNSPEC :: nat where "AF_UNSPEC = 0"

definition AF_INET :: nat where "AF_INET = 2"

definition AF_INET6 :: nat where "AF_INET6 = 10"

lemmas af_defs [wg_defs] = AF_UNSPEC_def AF_INET_def AF_INET6_def

record timespec64 =
  tv_sec :: "64 word"
  tv_nsec :: "64 word"

definition WGALLOWEDIP_REMOVE_ME :: u32 where "WGALLOWEDIP_REMOVE_ME = 1"

record wgallowedip =
  family :: u16
  ip :: bytes
  cidr :: u8
  a_flags :: u32

definition WGPEER_REMOVE_ME :: u32 where "WGPEER_REMOVE_ME = 1"

definition WGPEER_REPLACE_ALLOWEDIPS :: u32 where "WGPEER_REPLACE_ALLOWEDIPS = 2"

definition WGPEER_HAS_PUBLIC_KEY :: u32 where "WGPEER_HAS_PUBLIC_KEY = 4"

definition WGPEER_HAS_PRESHARED_KEY :: u32 where "WGPEER_HAS_PRESHARED_KEY = 8"

definition WGPEER_HAS_PERSISTENT_KEEPALIVE_INTERVAL :: u32 where
  "WGPEER_HAS_PERSISTENT_KEEPALIVE_INTERVAL = 16"

record wgpeer =
  p_flags :: u32
  public_key :: bytes
  preshared_key :: bytes
  endpoint :: bytes
  last_handshake_time :: timespec64
  rx_bytes :: u64
  tx_bytes :: u64
  persistent_keepalive_interval :: u16
  allowedips :: "wgallowedip list"
  last_allowedip :: "nat option"

definition WGDEVICE_REPLACE_PEERS :: u32 where "WGDEVICE_REPLACE_PEERS = 1"

definition WGDEVICE_HAS_PRIVATE_KEY :: u32 where "WGDEVICE_HAS_PRIVATE_KEY = 2"

definition WGDEVICE_HAS_PUBLIC_KEY :: u32 where "WGDEVICE_HAS_PUBLIC_KEY = 4"

definition WGDEVICE_HAS_LISTEN_PORT :: u32 where "WGDEVICE_HAS_LISTEN_PORT = 8"

definition WGDEVICE_HAS_FWMARK :: u32 where "WGDEVICE_HAS_FWMARK = 16"

lemmas flag_defs [wg_defs] =
  WGALLOWEDIP_REMOVE_ME_def WGPEER_REMOVE_ME_def WGPEER_REPLACE_ALLOWEDIPS_def
  WGPEER_HAS_PUBLIC_KEY_def WGPEER_HAS_PRESHARED_KEY_def WGPEER_HAS_PERSISTENT_KEEPALIVE_INTERVAL_def
  WGDEVICE_REPLACE_PEERS_def WGDEVICE_HAS_PRIVATE_KEY_def WGDEVICE_HAS_PUBLIC_KEY_def
  WGDEVICE_HAS_LISTEN_PORT_def WGDEVICE_HAS_FWMARK_def

record wgdevice =
  name :: string
  ifindex :: u32
  d_flags :: u32
  d_public_key :: bytes
  private_key :: bytes
  fwmark :: u32
  listen_port :: u16
  peers :: "wgpeer list"
  last_peer :: "nat option"

text \<open>What \<open>calloc\<close> returns.\<close>

definition zero_key :: bytes where "zero_key = replicate WG_KEY_LEN 0"

definition zero_allowedip :: wgallowedip where
  "zero_allowedip = \<lparr>family = 0, ip = replicate 16 0, cidr = 0, a_flags = 0\<rparr>"

definition zero_peer :: wgpeer where
  "zero_peer = \<lparr>p_flags = 0, public_key = zero_key, preshared_key = zero_key, endpoint = replicate 28 0,
     last_handshake_time = \<lparr>tv_sec = 0, tv_nsec = 0\<rparr>, rx_bytes = 0, tx_bytes = 0,
     persistent_keepalive_interval = 0, allowedips = [], last_allowedip = None\<rparr>"

definition zero_device :: wgdevice where
  "zero_device = \<lparr>name = [], ifindex = 0, d_flags = 0, d_public_key = zero_key, private_key = zero_key,
     fwmark = 0, listen_port = 0, peers = [], last_peer = None\<rparr>"

definition has_flag :: "u32 \<Rightarrow> u32 \<Rightarrow> bool" where
  "has_flag flags f = (flags AND f \<noteq> 0)"

text \<open>The family stored in a socket address, and the address family of an endpoint.\<close>

definition sa_family :: "bytes \<Rightarrow> nat" where
  "sa_family addr = le_value (take 2 addr)"

subsection \<open>Chains\<close>

text \<open>
  Appending a zeroed node through the pointer to the last one: with no last node the new node
  becomes the first, otherwise it becomes the successor of that node.
\<close>

definition link_last :: "'a \<Rightarrow> 'a list \<times> nat option \<Rightarrow> 'a list \<times> nat option" where
  "link_last new c =
     (case c of (chain, lp) \<Rightarrow>
      (case lp of None \<Rightarrow> ([new], Some 0)
       | Some i \<Rightarrow> (take (Suc i) chain @ [new], Some (Suc i))))"

definition chain_ok :: "'a list \<times> nat option \<Rightarrow> bool" where
  "chain_ok c = (case c of (chain, lp) \<Rightarrow> lp = (if chain = [] then None else Some (length chain - 1)))"

text \<open>
  The contract of such a chain, seen from its clients: appending keeps the invariant and adds the
  node at the end, so that a sequence of appends builds the list in order.
\<close>

locale append_chain =
  fixes append_node :: "'n \<Rightarrow> 'c \<Rightarrow> 'c"
    and nodes :: "'c \<Rightarrow> 'n list"
    and ok :: "'c \<Rightarrow> bool"
    and empty_chain :: 'c
  assumes ok_empty: "ok empty_chain"
    and nodes_empty: "nodes empty_chain = []"
    and ok_append: "ok c \<Longrightarrow> ok (append_node x c)"
    and nodes_append: "ok c \<Longrightarrow> nodes (append_node x c) = nodes c @ [x]"
begin

lemma fold_append:
  assumes "ok c"
  shows "ok (fold append_node xs c) \<and> nodes (fold append_node xs c) = nodes c @ xs"
  using assms by (induction xs arbitrary: c) (auto simp: ok_append nodes_append)

lemma build: "nodes (fold append_node xs empty_chain) = xs"
  using fold_append [OF ok_empty] by (simp add: nodes_empty)

end

lemma link_last_ok:
  assumes "chain_ok (chain, lp)"
  shows "link_last x (chain, lp) = (chain @ [x], Some (length chain))"
  using assms by (auto simp: chain_ok_def link_last_def)

interpretation chain: append_chain link_last fst chain_ok "([], None)"
proof
  fix c :: "'a list \<times> nat option" and x :: 'a
  assume ok: "chain_ok c"
  obtain ch l where c: "c = (ch, l)" by (cases c)
  show "chain_ok (link_last x c)" "fst (link_last x c) = fst c @ [x]"
    using ok unfolding c by (simp_all add: link_last_ok) (simp add: chain_ok_def)
qed (simp_all add: chain_ok_def)

subsection \<open>Releasing a device\<close>

text \<open>
  \<open>free_wgdevice\<close> works on the pointers themselves, so it is given on memory: a map from addresses to the nodes
  allocated there. A node has the fields of its structure and the pointers it holds, \<^term>\<open>None\<close> for \<open>NULL\<close>.
  Reading a node that is not allocated, and releasing one, is \<^const>\<open>Crash\<close>. A loop that never ends has the
  value \<^const>\<open>None\<close>.
\<close>

datatype node =
  Device_node (first_peer_of: "nat option")
| Peer_node wgpeer (first_allowedip_of: "nat option") (next_peer_of: "nat option")
| Allowedip_node wgallowedip (next_allowedip_of: "nat option")

type_synonym memory = "nat \<rightharpoonup> node"

definition free_node :: "nat \<Rightarrow> memory \<Rightarrow> (unit, memory) outcome" where
  "free_node a m = (if m a = None then Crash else Done (m(a := None)))"

text \<open>\<open>p ? p->field : NULL\<close>\<close>

definition load_next :: "(node \<Rightarrow> nat option) \<Rightarrow> memory \<Rightarrow> nat option \<Rightarrow> (unit, nat option) outcome" where
  "load_next field m p =
     (case p of
        None \<Rightarrow> Done None
      | Some a \<Rightarrow> (case m a of None \<Rightarrow> Crash | Some n \<Rightarrow> Done (field n)))"

partial_function (option) free_allowedips ::
    "memory \<Rightarrow> nat option \<Rightarrow> nat option \<Rightarrow> (unit, memory) outcome option" where
  "free_allowedips m allowedip na =
     (case allowedip of
        None \<Rightarrow> Some (Done m)
      | Some a \<Rightarrow>
          (case free_node a m of
             Done m \<Rightarrow>
               (case load_next next_allowedip_of m na of
                  Done na' \<Rightarrow> free_allowedips m na na'
                | _ \<Rightarrow> Some Crash)
           | _ \<Rightarrow> Some Crash))"

text \<open>The body of the loop over the peers: the inner loop with its initialisation, then the peer.\<close>

definition free_peer :: "memory \<Rightarrow> nat \<Rightarrow> (unit, memory) outcome option" where
  "free_peer m peer =
     (case load_next first_allowedip_of m (Some peer) of
        Done allowedip \<Rightarrow>
          (case load_next next_allowedip_of m allowedip of
             Done na \<Rightarrow> map_option (\<lambda>r. and_then r (free_node peer)) (free_allowedips m allowedip na)
           | _ \<Rightarrow> Some Crash)
      | _ \<Rightarrow> Some Crash)"

partial_function (option) free_peers ::
    "memory \<Rightarrow> nat option \<Rightarrow> nat option \<Rightarrow> (unit, memory) outcome option" where
  "free_peers m peer np =
     (case peer of
        None \<Rightarrow> Some (Done m)
      | Some a \<Rightarrow>
          Option.bind (free_peer m a) (\<lambda>r. case r of
             Done m \<Rightarrow>
               (case load_next next_peer_of m np of
                  Done np' \<Rightarrow> free_peers m np np'
                | _ \<Rightarrow> Some Crash)
           | _ \<Rightarrow> Some Crash))"

definition free_wgdevice :: "memory \<Rightarrow> nat option \<Rightarrow> (unit, memory) outcome option" where
  "free_wgdevice m dev =
     (case dev of
        None \<Rightarrow> Some (Done m)
      | Some d \<Rightarrow>
          (case load_next first_peer_of m (Some d) of
             Done peer \<Rightarrow>
               (case load_next next_peer_of m peer of
                  Done np \<Rightarrow> map_option (\<lambda>r. and_then r (free_node d)) (free_peers m peer np)
                | _ \<Rightarrow> Some Crash)
           | _ \<Rightarrow> Some Crash))"

text \<open>
  The device that the pointers describe: from a pointer to a first node, the chain of nodes at the given addresses
  holds a list. For each peer the address of its node comes with the addresses of its allowed IPs.
\<close>

fun allowedips_at :: "memory \<Rightarrow> nat option \<Rightarrow> wgallowedip list \<Rightarrow> nat list \<Rightarrow> bool" where
  "allowedips_at m p [] [] \<longleftrightarrow> p = None"
| "allowedips_at m p (x # xs) (a # as) \<longleftrightarrow>
     p = Some a \<and> (\<exists>n. m a = Some (Allowedip_node x n) \<and> allowedips_at m n xs as)"
| "allowedips_at m p _ _ \<longleftrightarrow> False"

fun peers_at :: "memory \<Rightarrow> nat option \<Rightarrow> wgpeer list \<Rightarrow> (nat \<times> nat list) list \<Rightarrow> bool" where
  "peers_at m p [] [] \<longleftrightarrow> p = None"
| "peers_at m p (x # xs) ((a, as) # ns) \<longleftrightarrow>
     p = Some a \<and> (\<exists>f n. m a = Some (Peer_node (x\<lparr>allowedips := [], last_allowedip := None\<rparr>) f n) \<and>
       allowedips_at m f (allowedips x) as \<and> peers_at m n xs ns)"
| "peers_at m p _ _ \<longleftrightarrow> False"

definition device_at :: "memory \<Rightarrow> nat \<Rightarrow> wgdevice \<Rightarrow> (nat \<times> nat list) list \<Rightarrow> bool" where
  "device_at m d dev ns \<longleftrightarrow> (\<exists>p. m d = Some (Device_node p) \<and> peers_at m p (peers dev) ns)"

definition peer_addrs :: "(nat \<times> nat list) list \<Rightarrow> nat list" where
  "peer_addrs ns = concat (map (\<lambda>(a, as). as @ [a]) ns)"

lemma peer_addrs_simps [simp]:
  "peer_addrs [] = []" "peer_addrs ((a, as) # ns) = as @ a # peer_addrs ns"
  by (simp_all add: peer_addrs_def)

lemma allowedips_at_upd: "a \<notin> set as \<Longrightarrow> allowedips_at (m(a := v)) p xs as = allowedips_at m p xs as"
  by (induction m p xs as rule: allowedips_at.induct) auto

lemma allowedips_at_restrict: "A \<inter> set as = {} \<Longrightarrow> allowedips_at (m |` (- A)) p xs as = allowedips_at m p xs as"
  by (induction m p xs as rule: allowedips_at.induct) (auto simp: restrict_map_def)

lemma peers_at_restrict: "A \<inter> set (peer_addrs ns) = {} \<Longrightarrow> peers_at (m |` (- A)) p xs ns = peers_at m p xs ns"
  by (induction m p xs ns rule: peers_at.induct) (auto simp: allowedips_at_restrict Int_Un_distrib restrict_in)

lemma restrict_insert: "(m(a := None)) |` (- A) = m |` (- insert a A)"
  by (auto simp: restrict_map_def fun_eq_iff)

lemma load_next_allowedips:
  "allowedips_at m p xs as \<Longrightarrow> \<exists>na. load_next next_allowedip_of m p = Done na \<and>
    (xs \<noteq> [] \<longrightarrow> allowedips_at m na (tl xs) (tl as))"
  by (cases xs; cases as) (auto simp: load_next_def)

lemma load_next_peers:
  "peers_at m p xs ns \<Longrightarrow> \<exists>np. load_next next_peer_of m p = Done np \<and> (xs \<noteq> [] \<longrightarrow> peers_at m np (tl xs) (tl ns))"
  by (cases xs; cases ns) (auto simp: load_next_def)

lemma free_allowedips_at:
  "allowedips_at m p xs as \<Longrightarrow> distinct as \<Longrightarrow> load_next next_allowedip_of m p = Done na \<Longrightarrow>
    free_allowedips m p na = Some (Done (m |` (- set as)))"
proof (induction as arbitrary: m p xs na)
  case Nil
  then show ?case by (cases xs) (simp_all add: free_allowedips.simps)
next
  case (Cons a as)
  then obtain x xs' n where p: "xs = x # xs'" "p = Some a" "m a = Some (Allowedip_node x n)" "allowedips_at m n xs' as"
    by (cases xs) auto
  let ?m = "m(a := None)"
  have n: "na = n" using Cons.prems(3) p by (simp add: load_next_def)
  have at: "allowedips_at ?m n xs' as" using p(4) Cons.prems(2) by (simp add: allowedips_at_upd)
  then obtain na' where na': "load_next next_allowedip_of ?m n = Done na'" using load_next_allowedips by blast
  have "free_allowedips m p na = free_allowedips ?m n na'"
    using na' by (subst free_allowedips.simps) (simp add: p n free_node_def)
  also have "\<dots> = Some (Done (?m |` (- set as)))" using Cons.prems(2) by (intro Cons.IH [OF at _ na']) simp
  finally show ?case by (simp only: restrict_insert list.set)
qed

lemma free_peer_at:
  assumes "m a = Some (Peer_node x f n)" "allowedips_at m f xs as" "distinct as" "a \<notin> set as"
  shows "free_peer m a = Some (Done (m |` (- insert a (set as))))"
proof -
  obtain na where na: "load_next next_allowedip_of m f = Done na" using load_next_allowedips [OF assms(2)] by blast
  have "(m |` (- set as)) a \<noteq> None" using assms(1,4) by simp
  then have "free_node a (m |` (- set as)) = Done (m |` (- insert a (set as)))"
    by (auto simp: free_node_def restrict_map_def fun_eq_iff)
  then show ?thesis
    using na free_allowedips_at [OF assms(2,3) na] by (simp add: free_peer_def load_next_def assms(1))
qed

lemma free_peers_at:
  "peers_at m p xs ns \<Longrightarrow> distinct (peer_addrs ns) \<Longrightarrow> load_next next_peer_of m p = Done np \<Longrightarrow>
    free_peers m p np = Some (Done (m |` (- set (peer_addrs ns))))"
proof (induction ns arbitrary: m p xs np)
  case Nil
  then show ?case by (cases xs) (simp_all add: free_peers.simps)
next
  case (Cons u ns)
  obtain a as where u: "u = (a, as)" by (cases u)
  with Cons.prems obtain x xs' f n where p: "xs = x # xs'" "p = Some a" "peers_at m n xs' ns"
      "m a = Some (Peer_node (x\<lparr>allowedips := [], last_allowedip := None\<rparr>) f n)" "allowedips_at m f (allowedips x) as"
    by (cases xs) auto
  have d: "distinct as" "a \<notin> set as" "insert a (set as) \<inter> set (peer_addrs ns) = {}" "distinct (peer_addrs ns)"
    using Cons.prems(2) u by auto
  let ?m = "m |` (- insert a (set as))"
  have n: "np = n" using Cons.prems(3) p by (simp add: load_next_def)
  have at: "peers_at ?m n xs' ns" using p(3) peers_at_restrict [OF d(3)] by blast
  then obtain np' where np': "load_next next_peer_of ?m n = Done np'" using load_next_peers by blast
  have "free_peers m p np = free_peers ?m n np'"
    using np' free_peer_at [OF p(4,5) d(1,2)] by (subst free_peers.simps) (simp add: p(2) n)
  also have "\<dots> = Some (Done (?m |` (- set (peer_addrs ns))))" by (rule Cons.IH [OF at d(4) np'])
  also have "?m |` (- set (peer_addrs ns)) = m |` (- set (peer_addrs (u # ns)))"
    by (auto simp: u restrict_map_def fun_eq_iff)
  finally show ?case .
qed

text \<open>
  C17. Releasing a device that memory holds, with all its nodes at different addresses, ends, releases each of its
  nodes exactly once and nothing else: no node is read or released after it was released, none is leaked, and all
  other memory is as before. Releasing \<open>NULL\<close> does nothing.
\<close>

theorem free_wgdevice_exact:
  assumes "device_at m d dev ns" "distinct (d # peer_addrs ns)"
  shows "free_wgdevice m (Some d) = Some (Done (m |` (- set (d # peer_addrs ns)))) \<and>
    free_wgdevice m None = Some (Done m)"
proof -
  obtain p where p: "m d = Some (Device_node p)" "peers_at m p (peers dev) ns"
    using assms(1) by (auto simp: device_at_def)
  obtain np where np: "load_next next_peer_of m p = Done np" using load_next_peers [OF p(2)] by blast
  have "free_peers m p np = Some (Done (m |` (- set (peer_addrs ns))))"
    using free_peers_at [OF p(2) _ np] assms(2) by simp
  moreover have "free_node d (m |` (- set (peer_addrs ns))) = Done (m |` (- set (d # peer_addrs ns)))"
    using p(1) assms(2) by (auto simp: free_node_def restrict_map_def fun_eq_iff)
  ultimately show ?thesis by (simp add: free_wgdevice_def load_next_def p(1) np [unfolded load_next_def])
qed

text \<open>A device at 1 with peers at 2 and 3, the first with allowed IPs at 4 and 5; the node at 9 is not part of it.\<close>

definition sample_memory :: memory where
  "sample_memory = [1 \<mapsto> Device_node (Some 2), 2 \<mapsto> Peer_node zero_peer (Some 4) (Some 3),
     3 \<mapsto> Peer_node zero_peer None None, 4 \<mapsto> Allowedip_node zero_allowedip (Some 5),
     5 \<mapsto> Allowedip_node zero_allowedip None, 9 \<mapsto> Allowedip_node zero_allowedip None]"

theorem free_wgdevice_exact_witness:
  "free_wgdevice sample_memory (Some 1) = Some (Done [9 \<mapsto> Allowedip_node zero_allowedip None])"
proof -
  let ?dev = "zero_device\<lparr>peers := [zero_peer\<lparr>allowedips := [zero_allowedip, zero_allowedip]\<rparr>, zero_peer]\<rparr>"
  have "device_at sample_memory 1 ?dev [(2, [4, 5]), (3, [])]"
    by (simp add: device_at_def sample_memory_def zero_peer_def)
  moreover have "sample_memory |` (- set (1 # peer_addrs [(2, [4, 5]), (3, [])])) = [9 \<mapsto> Allowedip_node zero_allowedip None]"
    by (auto simp: sample_memory_def restrict_map_def fun_eq_iff)
  ultimately show ?thesis using free_wgdevice_exact [of sample_memory 1 ?dev "[(2, [4, 5]), (3, [])]"] by simp
qed

end
