(* ===== verification/Wg_Config.thy ===== *)
theory Wg_Config
  imports Wg_Containers
begin

text \<open>
  The configuration parser of \<open>wireguard-tools/src/config.c\<close>: values, lines, whole files and the
  arguments of \<open>wg set\<close>. What the parser calls outside the sources (the resolver, \<open>inet_pton\<close>, the
  environment, the file system) and the two facts of the platform it depends on (the width of
  \<open>unsigned long\<close>, the signedness of \<open>char\<close>) are the fields of \<open>libc\<close>, an argument of every
  operation. The error messages on \<open>stderr\<close> are the constructors of \<open>wg_error\<close>; after an error the callers
  free the device, so no state is returned with one. The texts of the warnings that change no state (a
  non-zero host part, a failed attempt of the resolver) and a failing allocation are not modelled.
\<close>

subsection \<open>The environment\<close>

record addrinfo =
  ai_family :: nat
  ai_addr :: bytes

record c_file =
  f_contents :: string
  f_error :: bool
  f_seekable :: bool

text \<open>
  \<open>getaddrinfo\<close> takes whether the hints have \<open>AI_PASSIVE\<close>, the node, the service and how many calls
  went before (a resolver may answer differently when asked again); \<open>ai_addr\<close> has \<open>ai_addrlen\<close>
  bytes. Both number-to-text conversions are used by the printing side.
\<close>

record libc =
  ulong_bits :: nat
  char_signed :: bool
  getaddrinfo :: "bool \<Rightarrow> string option \<Rightarrow> string \<Rightarrow> nat \<Rightarrow> int \<times> addrinfo"
  inet_pton :: "nat \<Rightarrow> string \<Rightarrow> bytes option"
  inet_ntop :: "nat \<Rightarrow> bytes \<Rightarrow> string option"
  getnameinfo :: "bytes \<Rightarrow> (string \<times> string) option"
  getenv :: "string \<Rightarrow> string option"
  fopen :: "string \<Rightarrow> c_file option"

datatype wg_error =
    Empty_port | Gai int string | No_inet_address string | Bad_fwmark string | Bad_key string
  | Keyfile_open string | Keyfile_length | Keyfile_trailing char | Keyfile_read
  | Bad_ip string | Bad_retries string | Empty_endpoint | No_brace string | No_port string
  | Bad_keepalive string | Bad_allowedip string | Unrecognized string | Missing_public_key
  | Invalid_argument string

definition EAI_FAIL :: int where "EAI_FAIL = 4"

definition EAI_NODATA :: int where "EAI_NODATA = 7"

definition EAI_NONAME :: int where "EAI_NONAME = 8"

text \<open>The first character of a C string, its NUL if the string is empty.\<close>

definition first_char :: "string \<Rightarrow> char" where
  "first_char s = (case s of [] \<Rightarrow> NUL | c # _ \<Rightarrow> c)"

text \<open>Reading network byte order, and writing bytes at the start of a buffer.\<close>

definition be16 :: "bytes \<Rightarrow> nat \<Rightarrow> u16" where
  "be16 b i = of_nat (256 * unat (b ! i) + unat (b ! (i + 1)))"

definition be32 :: "bytes \<Rightarrow> nat \<Rightarrow> u32" where
  "be32 b i = of_nat (((unat (b ! i) * 256 + unat (b ! (i + 1))) * 256 + unat (b ! (i + 2))) * 256 + unat (b ! (i + 3)))"

definition overwrite :: "bytes \<Rightarrow> bytes \<Rightarrow> bytes" where
  "overwrite b buf = b @ drop (length b) buf"

subsection \<open>Values\<close>

definition get_value :: "string \<Rightarrow> string \<Rightarrow> string option" where
  "get_value line key =
     (if length key \<ge> length line then None
      else if \<not> strncasecmp_eq line key (length key) then None
      else Some (drop (length key) line))"

definition parse_port :: "libc \<Rightarrow> u32 \<Rightarrow> string \<Rightarrow> (wg_error, u16 \<times> u32) outcome" where
  "parse_port L flags value =
     (if value = [] then Error Empty_port
      else case getaddrinfo L True None value 0 of (ret, resolved) \<Rightarrow>
        if ret \<noteq> 0 then Error (Gai ret value)
        else if ai_family resolved = AF_INET \<and> length (ai_addr resolved) = 16
          then Done (be16 (ai_addr resolved) 2, flags OR WGDEVICE_HAS_LISTEN_PORT)
        else if ai_family resolved = AF_INET6 \<and> length (ai_addr resolved) = 28
          then Done (be16 (ai_addr resolved) 2, flags OR WGDEVICE_HAS_LISTEN_PORT)
        else Error (No_inet_address value))"

definition parse_fwmark :: "libc \<Rightarrow> u32 \<Rightarrow> string \<Rightarrow> (wg_error, u32 \<times> u32) outcome" where
  "parse_fwmark L flags value =
     (if strcasecmp_eq value ''off'' then Done (0, flags OR WGDEVICE_HAS_FWMARK)
      else if \<not> char_is_digit (plain_char (char_signed L) (first_char value)) then Error (Bad_fwmark value)
      else
        let base = (if length value > 2 \<and> value ! 0 = CHR ''0'' \<and> value ! 1 = CHR ''x'' then 16 else 10);
            (ret, end) = strtoul (ulong_bits L) base value
        in if end \<noteq> [] \<or> ret > 2 ^ 32 - 1 then Error (Bad_fwmark value)
           else Done (of_nat ret, flags OR WGDEVICE_HAS_FWMARK))"

definition parse_key :: "libc \<Rightarrow> bytes \<Rightarrow> string \<Rightarrow> (wg_error, bytes) outcome" where
  "parse_key L key value =
     (case key_from_base64 (char_signed L) key value of
        (True, key) \<Rightarrow> Done key
      | (False, _) \<Rightarrow> Error (Bad_key value))"

text \<open>
  \<open>fread\<close> of one item of 44 bytes succeeds if the file has that many; otherwise the file is at its
  end, and \<open>ftell\<close> is 0 only on a seekable file nothing was read from. The buffer is used as a C
  string, up to a NUL in it.
\<close>

definition parse_keyfile :: "libc \<Rightarrow> bytes \<Rightarrow> string \<Rightarrow> (wg_error, bytes) outcome" where
  "parse_keyfile L key path =
     (case fopen L path of
        None \<Rightarrow> Error (Keyfile_open path)
      | Some f \<Rightarrow>
          if length (f_contents f) < WG_KEY_LEN_BASE64 - 1 then
            (if \<not> f_error f \<and> f_seekable f \<and> f_contents f = [] then Done zero_key
             else Error Keyfile_length)
          else
            let dst = take (WG_KEY_LEN_BASE64 - 1) (f_contents f);
                rest = drop (WG_KEY_LEN_BASE64 - 1) (f_contents f)
            in case find (\<lambda>c. \<not> char_is_space (char_int c)) rest of
                 Some c \<Rightarrow> Error (Keyfile_trailing c)
               | None \<Rightarrow>
                   if f_error f then Error Keyfile_read
                   else parse_key L key (takeWhile (\<lambda>c. c \<noteq> NUL) dst))"

definition parse_ip :: "libc \<Rightarrow> wgallowedip \<Rightarrow> string \<Rightarrow> (wg_error, wgallowedip) outcome" where
  "parse_ip L allowedip value =
     (let allowedip = allowedip\<lparr>family := of_nat AF_UNSPEC\<rparr>;
          allowedip =
            (if strchr value CHR '':'' \<noteq> None then
               (case inet_pton L AF_INET6 value of
                  Some b \<Rightarrow> allowedip\<lparr>ip := overwrite b (ip allowedip), family := of_nat AF_INET6\<rparr>
                | None \<Rightarrow> allowedip)
             else
               (case inet_pton L AF_INET value of
                  Some b \<Rightarrow> allowedip\<lparr>ip := overwrite b (ip allowedip), family := of_nat AF_INET\<rparr>
                | None \<Rightarrow> allowedip))
      in if family allowedip = of_nat AF_UNSPEC then Error (Bad_ip value) else Done allowedip)"

definition parse_dns_retries :: "libc \<Rightarrow> (wg_error, int) outcome" where
  "parse_dns_retries L =
     (case getenv L ''WG_ENDPOINT_RESOLUTION_RETRIES'' of
        None \<Rightarrow> Done 15
      | Some retries \<Rightarrow>
          if retries = ''infinity'' then Done (- 1)
          else
            let (ret, end) = strtoul (ulong_bits L) 10 retries
            in if end \<noteq> [] \<or> ret > 2 ^ 31 - 1 then Exit (Bad_retries retries) else Done (int ret))"

text \<open>The host and the port of an endpoint, as the two pointers into the copied string.\<close>

definition split_endpoint :: "string \<Rightarrow> (wg_error, string \<times> string) outcome" where
  "split_endpoint value =
     (if value = [] then Error Empty_endpoint
      else if first_char value = CHR ''['' then
        (case split_first (CHR '']'') (tl value) of
           None \<Rightarrow> Error (No_brace value)
         | Some (begin, end) \<Rightarrow>
             if first_char end \<noteq> CHR '':'' \<or> tl end = [] then Error (No_port value)
             else Done (begin, tl end))
      else
        (case split_last (CHR '':'') value of
           None \<Rightarrow> Error (No_port value)
         | Some (begin, end) \<Rightarrow> if end = [] then Error (No_port value) else Done (begin, end)))"

text \<open>
  The resolution loop: the answer it stops at and the pauses between the attempts. \<open>n\<close> counts the
  attempts; the loop may run forever, which is \<^term>\<open>None\<close>.
\<close>

definition permanent_failure :: "int \<Rightarrow> bool" where
  "permanent_failure ret = (ret = EAI_NONAME \<or> ret = EAI_FAIL \<or> ret = EAI_NODATA)"

definition next_timeout :: "u32 \<Rightarrow> u32" where
  "next_timeout timeout = (if 20000000 < timeout * 6 div 5 then 20000000 else timeout * 6 div 5)"

partial_function (option) resolve_loop ::
  "libc \<Rightarrow> string \<Rightarrow> string \<Rightarrow> nat \<Rightarrow> u32 \<Rightarrow> int \<Rightarrow> ((int \<times> addrinfo) \<times> u32 list) option" where
  "resolve_loop L begin end n timeout retries =
     (let (ret, resolved) = getaddrinfo L False (Some begin) end n in
      if ret = 0 then Some ((0, resolved), [])
      else if permanent_failure ret \<or> retries = 0 then Some ((ret, resolved), [])
      else
        Option.bind (resolve_loop L begin end (Suc n) (next_timeout timeout)
                       (if retries > 0 then retries - 1 else retries))
          (\<lambda>(r, pauses). Some (r, timeout # pauses)))"

definition parse_endpoint :: "libc \<Rightarrow> bytes \<Rightarrow> string \<Rightarrow> (wg_error, bytes) outcome" where
  "parse_endpoint L ep value =
     and_then (parse_dns_retries L) (\<lambda>retries.
     and_then (split_endpoint value) (\<lambda>(begin, end).
     (case resolve_loop L begin end 0 1000000 retries of
        None \<Rightarrow> Diverge
      | Some ((ret, resolved), _) \<Rightarrow>
          if ret \<noteq> 0 then Error (Gai ret value)
          else if (ai_family resolved = AF_INET \<and> length (ai_addr resolved) = 16) \<or>
                  (ai_family resolved = AF_INET6 \<and> length (ai_addr resolved) = 28)
            then Done (overwrite (ai_addr resolved) ep)
          else Error (No_inet_address value))))"

definition parse_persistent_keepalive :: "libc \<Rightarrow> u32 \<Rightarrow> string \<Rightarrow> (wg_error, u16 \<times> u32) outcome" where
  "parse_persistent_keepalive L flags value =
     (if strcasecmp_eq value ''off'' then Done (0, flags OR WGPEER_HAS_PERSISTENT_KEEPALIVE_INTERVAL)
      else if \<not> char_is_digit (plain_char (char_signed L) (first_char value)) then Error (Bad_keepalive value)
      else
        let (ret, end) = strtoul (ulong_bits L) 10 value
        in if end \<noteq> [] \<or> ret > 65535 then Error (Bad_keepalive value)
           else Done (of_nat ret, flags OR WGPEER_HAS_PERSISTENT_KEEPALIVE_INTERVAL))"

subsection \<open>Allowed IPs\<close>

text \<open>The loop over the 32-bit words of the address, from \<open>ip[n - 1]\<close> down to \<open>ip[0]\<close>.\<close>

primrec validate_words :: "bytes \<Rightarrow> nat \<Rightarrow> nat \<Rightarrow> bool" where
  "validate_words addr len 0 = True"
| "validate_words addr len (Suc i) =
     (if len \<ge> 32 * (i + 1) then True
      else
        let mask = (if len > 32 * i then drop_bit (len - 32 * i) (- 1) else - 1 :: u32)
        in if be32 addr (4 * i) AND mask \<noteq> 0 then False else validate_words addr len i)"

definition validate_netmask :: "wgallowedip \<Rightarrow> bool" where
  "validate_netmask a =
     (if family a = of_nat AF_INET then validate_words (ip a) (unat (cidr a)) 1
      else if family a = of_nat AF_INET6 then validate_words (ip a) (unat (cidr a)) 4
      else True)"

text \<open>The peer's flags, the entry's flags and the entry without its prefix character.\<close>

definition parse_ip_prefix :: "u32 \<Rightarrow> u32 \<Rightarrow> string \<Rightarrow> u32 \<times> u32 \<times> string" where
  "parse_ip_prefix pflags flags entry =
     (if first_char entry = CHR ''-'' then
        (pflags AND NOT WGPEER_REPLACE_ALLOWEDIPS, flags OR WGALLOWEDIP_REMOVE_ME, tl entry)
      else if first_char entry = CHR ''+'' then
        (pflags AND NOT WGPEER_REPLACE_ALLOWEDIPS, flags, tl entry)
      else (pflags, flags, entry))"

text \<open>
  One turn of the loop over the comma-separated entries, up to the new node. An address that \<open>validate_netmask\<close>
  refuses is only warned about. The warning prints the address and \<open>mask\<close>, which is \<open>NULL\<close> for an entry without a
  slash; its text is not part of the result.
\<close>

definition parse_cidr :: "libc \<Rightarrow> wgallowedip \<Rightarrow> string option \<Rightarrow> nat option" where
  "parse_cidr L new rest =
     (case rest of
        Some m \<Rightarrow>
          if \<not> char_is_digit (plain_char (char_signed L) (first_char m)) then None
          else
            let (n, end) = strtoul (ulong_bits L) 10 m
            in if end \<noteq> [] \<or> (n > 32 \<and> family new = of_nat AF_INET) \<or> (n > 128 \<and> family new = of_nat AF_INET6)
               then None else Some n
      | None \<Rightarrow>
          if family new = of_nat AF_INET then Some 32
          else if family new = of_nat AF_INET6 then Some 128
          else None)"

definition parse_entry :: "libc \<Rightarrow> u32 \<Rightarrow> string \<Rightarrow> (wg_error, u32 \<times> wgallowedip) outcome" where
  "parse_entry L pflags entry =
     (let (pflags, flags, saved_entry) = parse_ip_prefix pflags 0 entry;
          (addr, mask) = strsep (CHR ''/'') saved_entry
      in and_then (parse_ip L zero_allowedip addr) (\<lambda>new.
           case parse_cidr L new mask of
             None \<Rightarrow> Error (Bad_allowedip saved_entry)
           | Some n \<Rightarrow>
               let new = new\<lparr>cidr := of_nat n, a_flags := flags\<rparr>
               in if \<not> validate_netmask new \<and> mask = None then Crash else Done (pflags, new)))"

definition parse_entry_step ::
  "libc \<Rightarrow> string \<Rightarrow> u32 \<times> wgallowedip list \<times> nat option
   \<Rightarrow> (wg_error, u32 \<times> wgallowedip list \<times> nat option) outcome" where
  "parse_entry_step L entry st =
     (case st of (pflags, chain) \<Rightarrow>
      and_then (parse_entry L pflags entry) (\<lambda>(pflags, new). Done (pflags, link_last new chain)))"

definition parse_allowedips ::
  "libc \<Rightarrow> wgpeer \<Rightarrow> nat option \<Rightarrow> string \<Rightarrow> (wg_error, wgpeer \<times> nat option) outcome" where
  "parse_allowedips L peer lp value =
     (let pflags = p_flags peer OR WGPEER_REPLACE_ALLOWEDIPS in
      if value = [] then Done (peer\<lparr>p_flags := pflags\<rparr>, lp)
      else
        and_then (fold_outcome (parse_entry_step L) (strsep_all (CHR '','') value) (pflags, allowedips peer, lp))
          (\<lambda>(pflags, chain, lp). Done (peer\<lparr>p_flags := pflags, allowedips := chain\<rparr>, lp)))"

subsection \<open>Lines and files\<close>

record config_ctx =
  device :: wgdevice
  ctx_last_peer :: "nat option"
  ctx_last_allowedip :: "nat option"
  is_peer_section :: bool
  is_device_section :: bool

text \<open>An assignment through \<open>ctx->last_peer\<close>, which also may move \<open>ctx->last_allowedip\<close>.\<close>

definition on_last_peer ::
  "config_ctx \<Rightarrow> (wgpeer \<Rightarrow> (wg_error, wgpeer \<times> nat option) outcome) \<Rightarrow> (wg_error, config_ctx) outcome" where
  "on_last_peer ctx f =
     (case ctx_last_peer ctx of
        None \<Rightarrow> Crash
      | Some i \<Rightarrow>
          if i < length (peers (device ctx)) then
            and_then (f (peers (device ctx) ! i)) (\<lambda>(peer, lp).
              Done (ctx\<lparr>device := (device ctx)\<lparr>peers := (peers (device ctx))[i := peer]\<rparr>,
                        ctx_last_allowedip := lp\<rparr>))
          else Crash)"

definition process_device_line :: "libc \<Rightarrow> config_ctx \<Rightarrow> string \<Rightarrow> (wg_error, config_ctx) outcome" where
  "process_device_line L ctx line =
     (let dev = device ctx in
      case get_value line ''ListenPort='' of
        Some value \<Rightarrow>
          and_then (parse_port L (d_flags dev) value) (\<lambda>(port, flags).
            Done (ctx\<lparr>device := dev\<lparr>listen_port := port, d_flags := flags\<rparr>\<rparr>))
      | None \<Rightarrow> (case get_value line ''FwMark='' of
        Some value \<Rightarrow>
          and_then (parse_fwmark L (d_flags dev) value) (\<lambda>(mark, flags).
            Done (ctx\<lparr>device := dev\<lparr>fwmark := mark, d_flags := flags\<rparr>\<rparr>))
      | None \<Rightarrow> (case get_value line ''PrivateKey='' of
        Some value \<Rightarrow>
          and_then (parse_key L (private_key dev) value) (\<lambda>key.
            Done (ctx\<lparr>device := dev\<lparr>private_key := key, d_flags := d_flags dev OR WGDEVICE_HAS_PRIVATE_KEY\<rparr>\<rparr>))
      | None \<Rightarrow> Error (Unrecognized line))))"

definition process_peer_line :: "libc \<Rightarrow> config_ctx \<Rightarrow> string \<Rightarrow> (wg_error, config_ctx) outcome" where
  "process_peer_line L ctx line =
     (let lp = ctx_last_allowedip ctx in
      case get_value line ''Endpoint='' of
        Some value \<Rightarrow> on_last_peer ctx (\<lambda>peer.
          and_then (parse_endpoint L (endpoint peer) value) (\<lambda>ep. Done (peer\<lparr>endpoint := ep\<rparr>, lp)))
      | None \<Rightarrow> (case get_value line ''PublicKey='' of
        Some value \<Rightarrow> on_last_peer ctx (\<lambda>peer.
          and_then (parse_key L (public_key peer) value) (\<lambda>key.
            Done (peer\<lparr>public_key := key, p_flags := p_flags peer OR WGPEER_HAS_PUBLIC_KEY\<rparr>, lp)))
      | None \<Rightarrow> (case get_value line ''AllowedIPs='' of
        Some value \<Rightarrow> on_last_peer ctx (\<lambda>peer. parse_allowedips L peer lp value)
      | None \<Rightarrow> (case get_value line ''PersistentKeepalive='' of
        Some value \<Rightarrow> on_last_peer ctx (\<lambda>peer.
          and_then (parse_persistent_keepalive L (p_flags peer) value) (\<lambda>(interval, flags).
            Done (peer\<lparr>persistent_keepalive_interval := interval, p_flags := flags\<rparr>, lp)))
      | None \<Rightarrow> (case get_value line ''PresharedKey='' of
        Some value \<Rightarrow> on_last_peer ctx (\<lambda>peer.
          and_then (parse_key L (preshared_key peer) value) (\<lambda>key.
            Done (peer\<lparr>preshared_key := key, p_flags := p_flags peer OR WGPEER_HAS_PRESHARED_KEY\<rparr>, lp)))
      | None \<Rightarrow> Error (Unrecognized line))))))"

definition process_line :: "libc \<Rightarrow> config_ctx \<Rightarrow> string \<Rightarrow> (wg_error, config_ctx) outcome" where
  "process_line L ctx line =
     (if strcasecmp_eq line ''[Interface]'' then
        Done (ctx\<lparr>is_peer_section := False, is_device_section := True\<rparr>)
      else if strcasecmp_eq line ''[Peer]'' then
        (let (chain, lp) = link_last (zero_peer\<lparr>p_flags := p_flags zero_peer OR WGPEER_REPLACE_ALLOWEDIPS\<rparr>)
                             (peers (device ctx), ctx_last_peer ctx)
         in Done (ctx\<lparr>device := (device ctx)\<lparr>peers := chain\<rparr>, ctx_last_peer := lp, ctx_last_allowedip := None,
                      is_peer_section := True, is_device_section := False\<rparr>))
      else if is_device_section ctx then process_device_line L ctx line
      else if is_peer_section ctx then process_peer_line L ctx line
      else Error (Unrecognized line))"

definition COMMENT_CHAR :: char where "COMMENT_CHAR = CHR ''#''"

definition clean_line :: "libc \<Rightarrow> string \<Rightarrow> string" where
  "clean_line L input =
     filter (\<lambda>c. \<not> char_is_space (plain_char (char_signed L) c)) (takeWhile (\<lambda>c. c \<noteq> COMMENT_CHAR) input)"

definition config_read_line :: "libc \<Rightarrow> string \<Rightarrow> config_ctx \<Rightarrow> (wg_error, config_ctx) outcome" where
  "config_read_line L input ctx =
     (let line = clean_line L input in if line = [] then Done ctx else process_line L ctx line)"

definition config_read_init :: "bool \<Rightarrow> config_ctx" where
  "config_read_init app =
     (let dev = zero_device;
          dev = (if \<not> app then
                   dev\<lparr>d_flags := d_flags dev OR (((WGDEVICE_REPLACE_PEERS OR WGDEVICE_HAS_PRIVATE_KEY)
                     OR WGDEVICE_HAS_FWMARK) OR WGDEVICE_HAS_LISTEN_PORT)\<rparr>
                 else dev)
      in \<lparr>device = dev, ctx_last_peer = None, ctx_last_allowedip = None,
          is_peer_section = False, is_device_section = False\<rparr>)"

definition config_read_finish :: "config_ctx \<Rightarrow> (wg_error, wgdevice) outcome" where
  "config_read_finish ctx =
     (if list_ex (\<lambda>peer. \<not> has_flag (p_flags peer) WGPEER_HAS_PUBLIC_KEY) (peers (device ctx))
      then Error Missing_public_key else Done (device ctx))"

subsection \<open>The arguments of \<open>wg set\<close>\<close>

definition strip_spaces :: "libc \<Rightarrow> string \<Rightarrow> string" where
  "strip_spaces L s = filter (\<lambda>c. \<not> char_is_space (plain_char (char_signed L) c)) s"

record cmd_state =
  cmd_device :: wgdevice
  cmd_peer :: "nat option"
  cmd_allowedip :: "nat option"

text \<open>An assignment through the local \<open>peer\<close>, which also may move the local \<open>allowedip\<close>.\<close>

definition on_cmd_peer ::
  "cmd_state \<Rightarrow> (wgpeer \<Rightarrow> (wg_error, wgpeer \<times> nat option) outcome) \<Rightarrow> (wg_error, cmd_state) outcome" where
  "on_cmd_peer st f =
     (case cmd_peer st of
        None \<Rightarrow> Crash
      | Some i \<Rightarrow>
          if i < length (peers (cmd_device st)) then
            and_then (f (peers (cmd_device st) ! i)) (\<lambda>(peer, lp).
              Done (st\<lparr>cmd_device := (cmd_device st)\<lparr>peers := (peers (cmd_device st))[i := peer]\<rparr>,
                       cmd_allowedip := lp\<rparr>))
          else Crash)"

text \<open>
  One turn of the loop: \<open>arg\<close> is \<open>argv[0]\<close>, \<open>args\<close> what follows it; the new state and how many
  arguments were used.
\<close>

definition config_cmd_step ::
  "libc \<Rightarrow> string \<Rightarrow> string list \<Rightarrow> cmd_state \<Rightarrow> (wg_error, cmd_state \<times> nat) outcome" where
  "config_cmd_step L arg args st =
     (let dev = cmd_device st; lp = cmd_allowedip st; two = (args \<noteq> []); peer = (cmd_peer st \<noteq> None) in
      if arg = ''listen-port'' \<and> two \<and> \<not> peer then
        and_then (parse_port L (d_flags dev) (hd args)) (\<lambda>(port, flags).
          Done (st\<lparr>cmd_device := dev\<lparr>listen_port := port, d_flags := flags\<rparr>\<rparr>, 2))
      else if arg = ''fwmark'' \<and> two \<and> \<not> peer then
        and_then (parse_fwmark L (d_flags dev) (hd args)) (\<lambda>(mark, flags).
          Done (st\<lparr>cmd_device := dev\<lparr>fwmark := mark, d_flags := flags\<rparr>\<rparr>, 2))
      else if arg = ''private-key'' \<and> two \<and> \<not> peer then
        and_then (parse_keyfile L (private_key dev) (hd args)) (\<lambda>key.
          Done (st\<lparr>cmd_device := dev\<lparr>private_key := key, d_flags := d_flags dev OR WGDEVICE_HAS_PRIVATE_KEY\<rparr>\<rparr>, 2))
      else if arg = ''peer'' \<and> two then
        (let (chain, lp') = link_last zero_peer (peers dev, cmd_peer st);
             st = st\<lparr>cmd_device := dev\<lparr>peers := chain\<rparr>, cmd_peer := lp', cmd_allowedip := None\<rparr>
         in and_then (on_cmd_peer st (\<lambda>p. and_then (parse_key L (public_key p) (hd args)) (\<lambda>key.
              Done (p\<lparr>public_key := key, p_flags := p_flags p OR WGPEER_HAS_PUBLIC_KEY\<rparr>, None))))
            (\<lambda>st. Done (st, 2)))
      else if arg = ''remove'' \<and> peer then
        and_then (on_cmd_peer st (\<lambda>p. Done (p\<lparr>p_flags := p_flags p OR WGPEER_REMOVE_ME\<rparr>, lp)))
          (\<lambda>st. Done (st, 1))
      else if arg = ''endpoint'' \<and> two \<and> peer then
        and_then (on_cmd_peer st (\<lambda>p. and_then (parse_endpoint L (endpoint p) (hd args)) (\<lambda>ep.
            Done (p\<lparr>endpoint := ep\<rparr>, lp))))
          (\<lambda>st. Done (st, 2))
      else if arg = ''allowed-ips'' \<and> two \<and> peer then
        and_then (on_cmd_peer st (\<lambda>p. parse_allowedips L p lp (strip_spaces L (hd args))))
          (\<lambda>st. Done (st, 2))
      else if arg = ''persistent-keepalive'' \<and> two \<and> peer then
        and_then (on_cmd_peer st (\<lambda>p. and_then (parse_persistent_keepalive L (p_flags p) (hd args)) (\<lambda>(interval, flags).
            Done (p\<lparr>persistent_keepalive_interval := interval, p_flags := flags\<rparr>, lp))))
          (\<lambda>st. Done (st, 2))
      else if arg = ''preshared-key'' \<and> two \<and> peer then
        and_then (on_cmd_peer st (\<lambda>p. and_then (parse_keyfile L (preshared_key p) (hd args)) (\<lambda>key.
            Done (p\<lparr>preshared_key := key, p_flags := p_flags p OR WGPEER_HAS_PRESHARED_KEY\<rparr>, lp))))
          (\<lambda>st. Done (st, 2))
      else Error (Invalid_argument arg))"

function config_cmd_loop :: "libc \<Rightarrow> string list \<Rightarrow> cmd_state \<Rightarrow> (wg_error, wgdevice) outcome" where
  "config_cmd_loop L [] st = Done (cmd_device st)"
| "config_cmd_loop L (arg # args) st =
     and_then (config_cmd_step L arg args st) (\<lambda>(st, used). config_cmd_loop L (drop (used - 1) args) st)"
  by pat_completeness auto
termination
  by (relation "measure (\<lambda>(L, argv, st). length argv)") auto

definition config_read_cmd :: "libc \<Rightarrow> string list \<Rightarrow> (wg_error, wgdevice) outcome" where
  "config_read_cmd L argv =
     config_cmd_loop L argv \<lparr>cmd_device = zero_device, cmd_peer = None, cmd_allowedip = None\<rparr>"

subsection \<open>Well-formed data\<close>

definition allowedip_ok :: "wgallowedip \<Rightarrow> bool" where
  "allowedip_ok a = (length (ip a) = 16 \<and>
     ((family a = of_nat AF_INET \<and> cidr a \<le> 32) \<or> (family a = of_nat AF_INET6 \<and> cidr a \<le> 128)))"

definition peer_ok :: "wgpeer \<Rightarrow> bool" where
  "peer_ok p = (length (public_key p) = WG_KEY_LEN \<and> length (preshared_key p) = WG_KEY_LEN \<and>
     length (endpoint p) = 28 \<and> list_all allowedip_ok (allowedips p))"

definition device_ok :: "wgdevice \<Rightarrow> bool" where
  "device_ok d = (length (d_public_key d) = WG_KEY_LEN \<and> length (private_key d) = WG_KEY_LEN \<and>
     list_all peer_ok (peers d))"

text \<open>What the manual pages say of the functions outside: the sizes of the addresses they yield.\<close>

definition libc_ok :: "libc \<Rightarrow> bool" where
  "libc_ok L = (32 \<le> ulong_bits L \<and>
     (\<forall>s b. inet_pton L AF_INET s = Some b \<longrightarrow> length b = 4) \<and>
     (\<forall>s b. inet_pton L AF_INET6 s = Some b \<longrightarrow> length b = 16))"

lemma zero_ok [simp]:
  "length zero_key = WG_KEY_LEN" "peer_ok zero_peer" "device_ok zero_device"
  by (simp_all add: zero_key_def zero_peer_def zero_device_def peer_ok_def device_ok_def)

lemma parse_key_safe:
  "length key = WG_KEY_LEN \<Longrightarrow> safe (\<lambda>k. length k = WG_KEY_LEN) (parse_key L key v)"
  by (auto simp: parse_key_def key_from_base64_iff WG_KEY_LEN_def split: prod.splits bool.splits)

lemma parse_keyfile_safe:
  "length key = WG_KEY_LEN \<Longrightarrow> safe (\<lambda>k. length k = WG_KEY_LEN) (parse_keyfile L key v)"
  by (auto simp: parse_keyfile_def parse_key_safe Let_def split: option.split)

lemma parse_number_safe [simp]:
  "safe (\<lambda>_. True) (parse_port L fl v)" "safe (\<lambda>_. True) (parse_fwmark L fl v)"
  "safe (\<lambda>_. True) (parse_persistent_keepalive L fl v)" "safe (\<lambda>_. True) (parse_dns_retries L)"
  "safe (\<lambda>_. True) (split_endpoint v)"
  by (auto simp: parse_port_def parse_fwmark_def parse_persistent_keepalive_def
      parse_dns_retries_def split_endpoint_def Let_def split: prod.split option.split)

lemma parse_endpoint_safe:
  assumes "length ep = 28"
  shows "safe (\<lambda>ep. length ep = 28) (parse_endpoint L ep v)"
  unfolding parse_endpoint_def safe_and_then
  by (rule safe_mono [OF parse_number_safe(4)], rule safe_mono [OF parse_number_safe(5)])
    (use assms in \<open>auto simp: overwrite_def split: option.split prod.split\<close>)

lemma parse_ip_safe:
  assumes "libc_ok L" "length (ip a0) = 16"
  shows "safe (\<lambda>a. length (ip a) = 16 \<and> (family a = of_nat AF_INET \<or> family a = of_nat AF_INET6)) (parse_ip L a0 v)"
  using assms by (auto simp: parse_ip_def Let_def libc_ok_def overwrite_def af_defs split: option.split)

lemma parse_cidr_ok:
  assumes "parse_cidr L a m = Some n"
  shows "(family a = of_nat AF_INET \<longrightarrow> n \<le> 32) \<and> (family a = of_nat AF_INET6 \<longrightarrow> n \<le> 128)"
  using assms by (auto simp: parse_cidr_def Let_def af_defs split: if_split_asm option.split_asm prod.split_asm)

lemma validate_words_covered: "32 * k \<le> len \<Longrightarrow> validate_words addr len k"
  by (cases k) simp_all

lemma parse_cidr_no_mask:
  assumes "parse_cidr L new None = Some n"
  shows "validate_netmask (new\<lparr>cidr := of_nat n, a_flags := flags\<rparr>)"
proof -
  consider "family new = of_nat AF_INET" "n = 32" | "family new = of_nat AF_INET6" "n = 128"
    using assms by (auto simp: parse_cidr_def split: if_split_asm)
  then show ?thesis by cases (simp_all add: validate_netmask_def validate_words_covered)
qed

text \<open>The warning never prints a mask that is \<open>NULL\<close>.\<close>

lemma netmask_warning_safe:
  "(case parse_cidr L new m of None \<Rightarrow> e
    | Some n \<Rightarrow> let new = new\<lparr>cidr := of_nat n, a_flags := flags\<rparr>
        in if \<not> validate_netmask new \<and> m = None then Crash else Done (pflags, new)) =
   (case parse_cidr L new m of None \<Rightarrow> e
    | Some n \<Rightarrow> Done (pflags, new\<lparr>cidr := of_nat n, a_flags := flags\<rparr>))"
  using parse_cidr_no_mask [of L new _ flags] by (cases m) (simp_all add: Let_def split: option.split)

lemma parse_entry_eq:
  "parse_entry L pflags entry =
     (let (pflags, flags, saved_entry) = parse_ip_prefix pflags 0 entry;
          (addr, mask) = strsep (CHR ''/'') saved_entry
      in and_then (parse_ip L zero_allowedip addr) (\<lambda>new.
           case parse_cidr L new mask of
             None \<Rightarrow> Error (Bad_allowedip saved_entry)
           | Some n \<Rightarrow> Done (pflags, new\<lparr>cidr := of_nat n, a_flags := flags\<rparr>)))"
  unfolding parse_entry_def netmask_warning_safe by (rule refl)

lemma parse_entry_safe:
  assumes "libc_ok L"
  shows "safe (\<lambda>(fl, a). allowedip_ok a) (parse_entry L fl e)"
proof -
  have le: "(of_nat n :: u8) \<le> 32 \<longleftrightarrow> n \<le> 32" "(of_nat n :: u8) \<le> 128" if "n \<le> 128" for n
    using that by (simp_all add: word_le_nat_alt unat_of_nat)
  have "safe (\<lambda>new. safe (\<lambda>(fl, a). allowedip_ok a) (case parse_cidr L new m of
             None \<Rightarrow> Error (Bad_allowedip sv)
           | Some n \<Rightarrow> Done (pf :: u32, new\<lparr>cidr := of_nat n, a_flags := fg\<rparr>))) (parse_ip L zero_allowedip ad)" for m sv pf fg ad
    by (rule safe_mono [OF parse_ip_safe [OF assms]])
      (auto simp: zero_allowedip_def allowedip_ok_def le af_defs split: option.split dest!: parse_cidr_ok)
  then show ?thesis by (simp add: parse_entry_eq Let_def split: prod.split)
qed

text \<open>
  What holds of a peer that is being assigned to and of the pointer to its last allowed IP; \<open>K\<close> is a
  condition on the flags that no assignment breaks.
\<close>

definition flags_closed :: "(u32 \<Rightarrow> bool) \<Rightarrow> bool" where
  "flags_closed K = (\<forall>fl. K fl \<longrightarrow> K (fl AND NOT WGPEER_REPLACE_ALLOWEDIPS) \<and> (\<forall>x. K (fl OR x)))"

definition peer_inv :: "(u32 \<Rightarrow> bool) \<Rightarrow> wgpeer \<times> nat option \<Rightarrow> bool" where
  "peer_inv K st = (case st of (p, lp) \<Rightarrow> peer_ok p \<and> K (p_flags p) \<and> chain_ok (allowedips p, lp))"

lemma parse_entry_flags:
  "parse_entry L fl e = Done (fl', a) \<Longrightarrow> fl' = fl \<or> fl' = fl AND NOT WGPEER_REPLACE_ALLOWEDIPS"
  by (auto simp: parse_entry_eq parse_ip_prefix_def Let_def split: prod.split_asm option.split_asm if_split_asm)

lemma parse_allowedips_safe:
  assumes L: "libc_ok L" and K: "flags_closed K" and p: "peer_inv K (p, lp)"
  shows "safe (peer_inv K) (parse_allowedips L p lp v)"
proof -
  let ?I = "\<lambda>(fl, chain, lp). K fl \<and> list_all allowedip_ok chain \<and> chain_ok (chain, lp)"
  have step: "safe ?I (parse_entry_step L e st)" if "?I st" for e st
  proof -
    obtain fl chain lp where st: "st = (fl, chain, lp)" by (cases st)
    have "safe (\<lambda>(fl, a). allowedip_ok a \<and> K fl) (parse_entry L fl e)"
      using parse_entry_safe [OF L, of fl e] that K parse_entry_flags [of L fl e]
      by (auto simp: safe_iff st flags_closed_def)
    then show ?thesis
      using that unfolding st parse_entry_step_def
      by (auto elim!: safe_mono simp: link_last_ok) (simp add: chain_ok_def)
  qed
  have "safe ?I (fold_outcome (parse_entry_step L) (strsep_all (CHR '','') v)
      (p_flags p OR WGPEER_REPLACE_ALLOWEDIPS, allowedips p, lp))"
    by (rule safe_fold_outcome [where I = ?I, OF step]) (use p K in \<open>auto simp: peer_inv_def peer_ok_def flags_closed_def\<close>)
  then show ?thesis
    using p K
    by (auto simp: parse_allowedips_def Let_def peer_inv_def peer_ok_def flags_closed_def elim!: safe_mono)
qed

subsection \<open>The parsing context\<close>

definition ctx_ok :: "config_ctx \<Rightarrow> bool" where
  "ctx_ok ctx = (device_ok (device ctx) \<and> chain_ok (peers (device ctx), ctx_last_peer ctx) \<and>
     (peers (device ctx) \<noteq> [] \<longrightarrow> chain_ok (allowedips (last (peers (device ctx))), ctx_last_allowedip ctx)) \<and>
     (is_peer_section ctx \<longrightarrow> peers (device ctx) \<noteq> []) \<and>
     \<not> (is_peer_section ctx \<and> is_device_section ctx))"

text \<open>Writing through the last pointer of a well-formed chain replaces the last node.\<close>

lemma last_pointer:
  assumes "chain_ok (chain, lp)" "chain \<noteq> []"
  obtains i where "lp = Some i" "i < length chain" "chain ! i = last chain" "\<And>x. chain[i := x] = butlast chain @ [x]"
proof
  show "lp = Some (length chain - 1)" "length chain - 1 < length chain" "chain ! (length chain - 1) = last chain"
    using assms by (simp_all add: chain_ok_def last_conv_nth)
  show "chain[length chain - 1 := x] = butlast chain @ [x]" for x
    using assms(2) by (metis append_butlast_last_id length_butlast list_update_length)
qed

lemma on_last_peer_eq:
  assumes "chain_ok (peers (device ctx), ctx_last_peer ctx)" "peers (device ctx) \<noteq> []"
  shows "on_last_peer ctx f = and_then (f (last (peers (device ctx)))) (\<lambda>(peer, lp).
      Done (ctx\<lparr>device := (device ctx)\<lparr>peers := butlast (peers (device ctx)) @ [peer]\<rparr>, ctx_last_allowedip := lp\<rparr>))"
proof -
  obtain i where "ctx_last_peer ctx = Some i" "i < length (peers (device ctx))" "peers (device ctx) ! i = last (peers (device ctx))"
    "\<And>x. (peers (device ctx))[i := x] = butlast (peers (device ctx)) @ [x]"
    by (rule last_pointer [OF assms]) blast
  then show ?thesis by (simp add: on_last_peer_def)
qed

lemma peers_split:
  assumes "list_all P ps" "ps \<noteq> []"
  shows "P (last ps)" "list_all P (butlast ps)"
  using assms by (auto simp: list_all_iff dest: in_set_butlastD)

lemma on_last_peer_safe:
  assumes ctx: "ctx_ok ctx" "is_peer_section ctx"
    and f: "\<And>p. peer_inv (\<lambda>_. True) (p, ctx_last_allowedip ctx) \<Longrightarrow> safe (peer_inv (\<lambda>_. True)) (f p)"
  shows "safe ctx_ok (on_last_peer ctx f)"
proof -
  let ?ps = "peers (device ctx)"
  have ne: "?ps \<noteq> []" using ctx by (simp add: ctx_ok_def)
  then have ok: "peer_ok (last ?ps)" "list_all peer_ok (butlast ?ps)"
    using ctx peers_split [of peer_ok ?ps] by (simp_all add: ctx_ok_def device_ok_def)
  have eq: "on_last_peer ctx f = and_then (f (last ?ps)) (\<lambda>(peer, lp).
      Done (ctx\<lparr>device := (device ctx)\<lparr>peers := butlast ?ps @ [peer]\<rparr>, ctx_last_allowedip := lp\<rparr>))"
    by (rule on_last_peer_eq) (use ctx ne in \<open>auto simp: ctx_ok_def\<close>)
  have "safe (peer_inv (\<lambda>_. True)) (f (last ?ps))"
    using ctx ne ok by (intro f) (auto simp: ctx_ok_def peer_inv_def)
  then show ?thesis
    unfolding eq safe_and_then
    by (rule safe_mono) (use ctx ne ok in \<open>auto simp: ctx_ok_def device_ok_def chain_ok_def peer_inv_def\<close>)
qed

lemma process_device_line_safe:
  assumes "ctx_ok ctx" "is_device_section ctx"
  shows "safe ctx_ok (process_device_line L ctx line)"
  using assms
  by (auto simp: process_device_line_def Let_def ctx_ok_def device_ok_def split: option.split
      intro!: safe_mono [OF parse_number_safe(1)] safe_mono [OF parse_number_safe(2)] safe_mono [OF parse_key_safe])

lemma peer_update_safe:
  assumes "safe Q r" "\<And>x. Q x \<Longrightarrow> peer_inv K (g x, lp)"
  shows "safe (peer_inv K) (and_then r (\<lambda>x. Done (g x, lp)))"
  unfolding safe_and_then using assms(1) by (rule safe_mono) (use assms in simp)

text \<open>The assignments to a peer, shared by the file parser and the command line.\<close>

lemma parse_keepalive_flags: "safe (\<lambda>(i, fl'). \<exists>x. fl' = fl OR x) (parse_persistent_keepalive L fl v)"
  by (auto simp: parse_persistent_keepalive_def Let_def split: prod.split)

lemma peer_assign_safe:
  assumes K: "flags_closed K" and p: "peer_inv K (p, lp)"
  shows
    "safe (peer_inv K) (and_then (parse_endpoint L (endpoint p) v) (\<lambda>ep. Done (p\<lparr>endpoint := ep\<rparr>, lp)))"
    "safe (peer_inv K) (and_then (parse_key L (public_key p) v) (\<lambda>k.
       Done (p\<lparr>public_key := k, p_flags := p_flags p OR x\<rparr>, lp)))"
    "safe (peer_inv K) (and_then (parse_key L (preshared_key p) v) (\<lambda>k.
       Done (p\<lparr>preshared_key := k, p_flags := p_flags p OR x\<rparr>, lp)))"
    "safe (peer_inv K) (and_then (parse_keyfile L (preshared_key p) v) (\<lambda>k.
       Done (p\<lparr>preshared_key := k, p_flags := p_flags p OR x\<rparr>, lp)))"
    "safe (peer_inv K) (and_then (parse_persistent_keepalive L (p_flags p) v) (\<lambda>(i, fl).
       Done (p\<lparr>persistent_keepalive_interval := i, p_flags := fl\<rparr>, lp)))"
    "safe (peer_inv K) (Done (p\<lparr>p_flags := p_flags p OR x\<rparr>, lp))"
proof -
  have len: "length (endpoint p) = 28" "length (public_key p) = WG_KEY_LEN" "length (preshared_key p) = WG_KEY_LEN"
    using p by (simp_all add: peer_inv_def peer_ok_def)
  note inv = peer_inv_def peer_ok_def flags_closed_def
  show "safe (peer_inv K) (and_then (parse_endpoint L (endpoint p) v) (\<lambda>ep. Done (p\<lparr>endpoint := ep\<rparr>, lp)))"
    by (rule peer_update_safe [OF parse_endpoint_safe [OF len(1)]]) (use K p in \<open>auto simp: inv\<close>)
  show "safe (peer_inv K) (and_then (parse_key L (public_key p) v) (\<lambda>k.
       Done (p\<lparr>public_key := k, p_flags := p_flags p OR x\<rparr>, lp)))"
    by (rule peer_update_safe [OF parse_key_safe [OF len(2)]]) (use K p in \<open>auto simp: inv\<close>)
  show "safe (peer_inv K) (and_then (parse_key L (preshared_key p) v) (\<lambda>k.
       Done (p\<lparr>preshared_key := k, p_flags := p_flags p OR x\<rparr>, lp)))"
    by (rule peer_update_safe [OF parse_key_safe [OF len(3)]]) (use K p in \<open>auto simp: inv\<close>)
  show "safe (peer_inv K) (and_then (parse_keyfile L (preshared_key p) v) (\<lambda>k.
       Done (p\<lparr>preshared_key := k, p_flags := p_flags p OR x\<rparr>, lp)))"
    by (rule peer_update_safe [OF parse_keyfile_safe [OF len(3)]]) (use K p in \<open>auto simp: inv\<close>)
  show "safe (peer_inv K) (and_then (parse_persistent_keepalive L (p_flags p) v) (\<lambda>(i, fl).
       Done (p\<lparr>persistent_keepalive_interval := i, p_flags := fl\<rparr>, lp)))"
    unfolding safe_and_then
    by (rule safe_mono [OF parse_keepalive_flags]) (use K p in \<open>auto simp: inv\<close>)
  show "safe (peer_inv K) (Done (p\<lparr>p_flags := p_flags p OR x\<rparr>, lp))"
    using K p by (auto simp: inv)
qed

lemma process_peer_line_safe:
  assumes "libc_ok L" "ctx_ok ctx" "is_peer_section ctx"
  shows "safe ctx_ok (process_peer_line L ctx line)"
proof -
  note on = on_last_peer_safe [OF assms(2,3)]
  show ?thesis
    unfolding process_peer_line_def Let_def
    by (auto split: option.split simp del: safe_and_then
        intro!: on peer_assign_safe parse_allowedips_safe [OF assms(1)] simp: flags_closed_def)
qed

lemma process_line_safe:
  assumes "libc_ok L" "ctx_ok ctx"
  shows "safe ctx_ok (process_line L ctx line)"
proof -
  let ?p = "zero_peer\<lparr>p_flags := p_flags zero_peer OR WGPEER_REPLACE_ALLOWEDIPS\<rparr>"
  have "peer_ok ?p" "allowedips ?p = []" by (simp_all add: peer_ok_def zero_peer_def)
  moreover have "link_last ?p (peers (device ctx), ctx_last_peer ctx)
      = (peers (device ctx) @ [?p], Some (length (peers (device ctx))))"
    by (rule link_last_ok) (use assms(2) in \<open>simp add: ctx_ok_def\<close>)
  ultimately show ?thesis
    using assms process_device_line_safe process_peer_line_safe
    by (auto simp: process_line_def Let_def) (auto simp: ctx_ok_def device_ok_def chain_ok_def)
qed

lemma config_read_line_safe:
  "libc_ok L \<Longrightarrow> ctx_ok ctx \<Longrightarrow> safe ctx_ok (config_read_line L input ctx)"
  by (simp add: config_read_line_def Let_def process_line_safe)

lemma config_read_init_ok: "ctx_ok (config_read_init app)"
  by (simp add: config_read_init_def ctx_ok_def Let_def chain_ok_def zero_device_def device_ok_def)

text \<open>The invariant of the local variables of \<open>config_read_cmd\<close>.\<close>

definition cmd_ok :: "cmd_state \<Rightarrow> bool" where
  "cmd_ok st = (device_ok (cmd_device st) \<and> chain_ok (peers (cmd_device st), cmd_peer st) \<and>
     (peers (cmd_device st) \<noteq> [] \<longrightarrow> chain_ok (allowedips (last (peers (cmd_device st))), cmd_allowedip st)) \<and>
     list_all (\<lambda>p. has_flag (p_flags p) WGPEER_HAS_PUBLIC_KEY) (peers (cmd_device st)))"

lemma has_public_key_closed: "flags_closed (\<lambda>fl. has_flag fl WGPEER_HAS_PUBLIC_KEY)"
proof -
  have "has_flag fl WGPEER_HAS_PUBLIC_KEY = bit fl 2" for fl
    by (simp add: has_flag_def flag_defs and_exp_eq_0_iff_not_bit [of fl 2, simplified])
  then show ?thesis
    by (simp add: flags_closed_def flag_defs bit_simps)
qed

lemma on_cmd_peer_eq:
  assumes "chain_ok (peers (cmd_device st), cmd_peer st)" "peers (cmd_device st) \<noteq> []"
  shows "on_cmd_peer st f = and_then (f (last (peers (cmd_device st)))) (\<lambda>(peer, lp).
      Done (st\<lparr>cmd_device := (cmd_device st)\<lparr>peers := butlast (peers (cmd_device st)) @ [peer]\<rparr>, cmd_allowedip := lp\<rparr>))"
proof -
  obtain i where "cmd_peer st = Some i" "i < length (peers (cmd_device st))"
    "peers (cmd_device st) ! i = last (peers (cmd_device st))"
    "\<And>x. (peers (cmd_device st))[i := x] = butlast (peers (cmd_device st)) @ [x]"
    by (rule last_pointer [OF assms]) blast
  then show ?thesis by (simp add: on_cmd_peer_def)
qed

lemma on_cmd_peer_safe:
  assumes st: "device_ok (cmd_device st)" "chain_ok (peers (cmd_device st), cmd_peer st)" "peers (cmd_device st) \<noteq> []"
      "list_all (\<lambda>p. has_flag (p_flags p) WGPEER_HAS_PUBLIC_KEY) (butlast (peers (cmd_device st)))"
    and f: "safe (peer_inv (\<lambda>fl. has_flag fl WGPEER_HAS_PUBLIC_KEY)) (f (last (peers (cmd_device st))))"
  shows "safe cmd_ok (on_cmd_peer st f)"
proof -
  have "list_all peer_ok (butlast (peers (cmd_device st)))"
    using st peers_split [of peer_ok] by (simp add: device_ok_def)
  then show ?thesis
    unfolding on_cmd_peer_eq [OF st(2,3)] safe_and_then
    by (intro safe_mono [OF f]) (use st in \<open>auto simp: cmd_ok_def device_ok_def chain_ok_def peer_inv_def\<close>)
qed

lemma config_cmd_peer_safe:
  assumes st: "cmd_ok st" "cmd_peer st \<noteq> None" and L: "libc_ok L"
  shows
    "safe cmd_ok (on_cmd_peer st (\<lambda>p. Done (p\<lparr>p_flags := p_flags p OR x\<rparr>, cmd_allowedip st)))"
    "safe cmd_ok (on_cmd_peer st (\<lambda>p. and_then (parse_endpoint L (endpoint p) v) (\<lambda>ep.
            Done (p\<lparr>endpoint := ep\<rparr>, cmd_allowedip st))))"
    "safe cmd_ok (on_cmd_peer st (\<lambda>p. parse_allowedips L p (cmd_allowedip st) v))"
    "safe cmd_ok (on_cmd_peer st (\<lambda>p. and_then (parse_persistent_keepalive L (p_flags p) v) (\<lambda>(interval, flags).
            Done (p\<lparr>persistent_keepalive_interval := interval, p_flags := flags\<rparr>, cmd_allowedip st))))"
    "safe cmd_ok (on_cmd_peer st (\<lambda>p. and_then (parse_keyfile L (preshared_key p) v) (\<lambda>key.
            Done (p\<lparr>preshared_key := key, p_flags := p_flags p OR x\<rparr>, cmd_allowedip st))))"
proof -
  let ?K = "\<lambda>fl. has_flag fl WGPEER_HAS_PUBLIC_KEY" and ?ps = "peers (cmd_device st)"
  have ne: "?ps \<noteq> []" using st by (auto simp: cmd_ok_def chain_ok_def)
  have all: "list_all peer_ok ?ps" "list_all (\<lambda>p. ?K (p_flags p)) ?ps"
    using st by (simp_all add: cmd_ok_def device_ok_def)
  have p: "peer_inv ?K (last ?ps, cmd_allowedip st)"
    using st ne peers_split(1) [OF all(1) ne] peers_split(1) [OF all(2) ne]
    by (auto simp: peer_inv_def cmd_ok_def)
  have on: "safe cmd_ok (on_cmd_peer st f)" if "safe (peer_inv ?K) (f (last ?ps))" for f
    using st ne that peers_split(2) [OF all(2) ne] by (intro on_cmd_peer_safe) (simp_all add: cmd_ok_def)
  note assign = peer_assign_safe [OF has_public_key_closed p]
  show "safe cmd_ok (on_cmd_peer st (\<lambda>p. Done (p\<lparr>p_flags := p_flags p OR x\<rparr>, cmd_allowedip st)))"
    "safe cmd_ok (on_cmd_peer st (\<lambda>p. and_then (parse_endpoint L (endpoint p) v) (\<lambda>ep.
            Done (p\<lparr>endpoint := ep\<rparr>, cmd_allowedip st))))"
    "safe cmd_ok (on_cmd_peer st (\<lambda>p. parse_allowedips L p (cmd_allowedip st) v))"
    "safe cmd_ok (on_cmd_peer st (\<lambda>p. and_then (parse_persistent_keepalive L (p_flags p) v) (\<lambda>(interval, flags).
            Done (p\<lparr>persistent_keepalive_interval := interval, p_flags := flags\<rparr>, cmd_allowedip st))))"
    "safe cmd_ok (on_cmd_peer st (\<lambda>p. and_then (parse_keyfile L (preshared_key p) v) (\<lambda>key.
            Done (p\<lparr>preshared_key := key, p_flags := p_flags p OR x\<rparr>, cmd_allowedip st))))"
    by (rule on, rule assign parse_allowedips_safe [OF L has_public_key_closed p])+
qed

lemma config_cmd_new_peer_safe:
  assumes st: "cmd_ok st" and c: "link_last zero_peer (peers (cmd_device st), cmd_peer st) = (chain, lp)"
  shows "safe cmd_ok (on_cmd_peer (st\<lparr>cmd_device := (cmd_device st)\<lparr>peers := chain\<rparr>, cmd_peer := lp, cmd_allowedip := None\<rparr>)
    (\<lambda>p. and_then (parse_key L (public_key p) v) (\<lambda>key.
       Done (p\<lparr>public_key := key, p_flags := p_flags p OR WGPEER_HAS_PUBLIC_KEY\<rparr>, None))))"
    (is "safe cmd_ok (on_cmd_peer ?st ?f)")
proof (rule on_cmd_peer_safe)
  have chain: "chain = peers (cmd_device st) @ [zero_peer]" "lp = Some (length (peers (cmd_device st)))"
    using c link_last_ok [of "peers (cmd_device st)" "cmd_peer st" zero_peer] st by (auto simp: cmd_ok_def)
  then show "device_ok (cmd_device ?st)" "chain_ok (peers (cmd_device ?st), cmd_peer ?st)"
    "peers (cmd_device ?st) \<noteq> []"
    "list_all (\<lambda>p. has_flag (p_flags p) WGPEER_HAS_PUBLIC_KEY) (butlast (peers (cmd_device ?st)))"
    using st by (auto simp: cmd_ok_def device_ok_def chain_ok_def)
  have "has_flag (0 OR WGPEER_HAS_PUBLIC_KEY) WGPEER_HAS_PUBLIC_KEY" by (simp add: has_flag_def flag_defs)
  moreover have "last (peers (cmd_device ?st)) = zero_peer" by (simp add: chain)
  ultimately show "safe (peer_inv (\<lambda>fl. has_flag fl WGPEER_HAS_PUBLIC_KEY)) (?f (last (peers (cmd_device ?st))))"
    by (simp only:, unfold safe_and_then, intro safe_mono [OF parse_key_safe])
      (auto simp: zero_peer_def peer_inv_def peer_ok_def chain_ok_def)
qed

lemma safe_if: "(c \<Longrightarrow> safe P a) \<Longrightarrow> (\<not> c \<Longrightarrow> safe P b) \<Longrightarrow> safe P (if c then a else b)"
  by simp

lemma config_cmd_step_safe:
  assumes L: "libc_ok L" and st: "cmd_ok st"
  shows "safe (\<lambda>(st, n). cmd_ok st) (config_cmd_step L arg args st)"
proof -
  have dev: "length (private_key (cmd_device st)) = WG_KEY_LEN" using st by (simp add: cmd_ok_def device_ok_def)
  have cmd: "cmd_ok (st\<lparr>cmd_device := d\<rparr>)" if "peers d = peers (cmd_device st)" "device_ok d" for d
    using that st by (auto simp: cmd_ok_def)
  have d1: "safe (\<lambda>(st, n). cmd_ok st) (and_then (parse_port L fl v) (\<lambda>(port, flags).
          Done (st\<lparr>cmd_device := (cmd_device st)\<lparr>listen_port := port, d_flags := flags\<rparr>\<rparr>, 2)))" for fl v
    unfolding safe_and_then by (rule safe_mono [OF parse_number_safe(1)])
      (use st in \<open>auto intro!: cmd simp: cmd_ok_def device_ok_def\<close>)
  have d2: "safe (\<lambda>(st, n). cmd_ok st) (and_then (parse_fwmark L fl v) (\<lambda>(mark, flags).
          Done (st\<lparr>cmd_device := (cmd_device st)\<lparr>fwmark := mark, d_flags := flags\<rparr>\<rparr>, 2)))" for fl v
    unfolding safe_and_then by (rule safe_mono [OF parse_number_safe(2)])
      (use st in \<open>auto intro!: cmd simp: cmd_ok_def device_ok_def\<close>)
  have d3: "safe (\<lambda>(st, n). cmd_ok st) (and_then (parse_keyfile L (private_key (cmd_device st)) v) (\<lambda>key.
          Done (st\<lparr>cmd_device := (cmd_device st)\<lparr>private_key := key, d_flags := fl\<rparr>\<rparr>, 2)))" for fl v
    unfolding safe_and_then by (rule safe_mono [OF parse_keyfile_safe [OF dev]])
      (use st in \<open>auto intro!: cmd simp: cmd_ok_def device_ok_def\<close>)
  have n: "safe (\<lambda>(st, n). cmd_ok st) (and_then r (\<lambda>st. Done (st, k)))" if "safe cmd_ok r"
    for r :: "(wg_error, cmd_state) outcome" and k :: nat
    using that by simp
  show ?thesis
    unfolding config_cmd_step_def Let_def
    by (intro safe_if) (simp_all add: d1 d2 d3 n config_cmd_peer_safe [OF st _ L] config_cmd_new_peer_safe [OF st]
        split: prod.split del: safe_and_then)
qed

lemma config_cmd_loop_safe:
  assumes "libc_ok L"
  shows "cmd_ok st \<Longrightarrow> safe (\<lambda>d. device_ok d \<and> list_all (\<lambda>p. has_flag (p_flags p) WGPEER_HAS_PUBLIC_KEY) (peers d))
    (config_cmd_loop L argv st)"
  using assms
proof (induction L argv st rule: config_cmd_loop.induct)
  case (2 L arg args st)
  have "safe (\<lambda>(st, n). cmd_ok st) (config_cmd_step L arg args st)"
    using 2 by (intro config_cmd_step_safe)
  with 2 show ?case by (cases "config_cmd_step L arg args st") auto
qed (simp add: cmd_ok_def)

end
