(* ===== verification/Wg_Config_Spec.thy ===== *)
theory Wg_Config_Spec
  imports Wg_Config
begin

text \<open>
  What the operations of \<open>config.c\<close> compute: the numbers they accept, the lists of allowed IPs they
  build, the netmask check as arithmetic, the retries of the resolution loop; and the properties of
  the configuration parser.
\<close>

subsection \<open>Numbers\<close>

lemma first_char_digit:
  assumes "is_digit_in 10 (first_char s)"
  obtains c t where "s = c # t" "is_digit_in 10 c"
proof (cases s)
  case Nil
  have "\<not> is_digit_in 10 NUL" by code_simp
  with assms Nil show ?thesis by (simp add: first_char_def)
next
  case (Cons c t)
  with assms that show ?thesis by (simp add: first_char_def)
qed

lemma strtoul_from_digit:
  assumes "is_digit_in 10 (first_char s)"
  shows "strtoul w 10 s = (let n = digits_value 10 (takeWhile (is_digit_in 10) s) in
      if 2 ^ w \<le> n then 2 ^ w - 1 else n, dropWhile (is_digit_in 10) s)"
proof -
  obtain c t where s: "s = c # t" "is_digit_in 10 c" by (rule first_char_digit [OF assms])
  have rest: "dropWhile (is_digit_in 10) s = [] \<or> \<not> is_digit_in 10 (hd (dropWhile (is_digit_in 10) s))"
    using hd_dropWhile by blast
  have ne: "takeWhile (is_digit_in 10) s \<noteq> []" using s by simp
  have dig: "\<And>c. c \<in> set (takeWhile (is_digit_in 10) s) \<Longrightarrow> is_digit_in 10 c" by (blast dest: set_takeWhileD)
  from strtoul_digits [OF ne dig rest, of w] show ?thesis
    by (simp add: Let_def)
qed

text \<open>A decimal number: one digit or more and nothing else.\<close>

definition is_number :: "nat \<Rightarrow> string \<Rightarrow> bool" where
  "is_number b s = (s \<noteq> [] \<and> list_all (is_digit_in b) s)"

lemma is_number_run:
  assumes "is_number b s"
  shows "takeWhile (is_digit_in b) s = s" "dropWhile (is_digit_in b) s = []"
  using assms by (simp_all add: is_number_def list_all_iff)

lemma not_number_rest: "s \<noteq> [] \<Longrightarrow> \<not> is_number b s \<Longrightarrow> dropWhile (is_digit_in b) s \<noteq> []"
  by (auto simp: is_number_def list_all_iff)

lemma first_char_number: "is_number 10 s \<Longrightarrow> is_digit_in 10 (first_char s)"
  by (cases s) (auto simp: is_number_def first_char_def)

text \<open>\<open>strtoul\<close> on a text that starts with a digit, and the check of \<open>*end\<close> after it.\<close>

lemma strtoul_number:
  assumes "is_number 10 s"
  shows "strtoul w 10 s = (if 2 ^ w \<le> digits_value 10 s then 2 ^ w - 1 else digits_value 10 s, [])"
  using strtoul_from_digit [OF first_char_number [OF assms], of w] by (simp add: Let_def is_number_run [OF assms])

lemma strtoul_not_number:
  assumes "is_digit_in 10 (first_char s)" "\<not> is_number 10 s"
  shows "\<exists>n c t. strtoul w 10 s = (n, c # t)"
proof -
  have "s \<noteq> []" using first_char_digit [OF assms(1)] by blast
  from not_number_rest [OF this assms(2)] obtain c t where "dropWhile (is_digit_in 10) s = c # t"
    by (cases "dropWhile (is_digit_in 10) s") auto
  then show ?thesis using strtoul_from_digit [OF assms(1), of w] by simp
qed

lemma strtoul_hex:
  "strtoul w 16 (CHR ''0'' # CHR ''x'' # d # t) =
     (if is_digit_in 16 d then
        (let n = digits_value 16 (takeWhile (is_digit_in 16) (d # t)) in
         if 2 ^ w \<le> n then 2 ^ w - 1 else n, dropWhile (is_digit_in 16) (d # t))
      else (0, CHR ''x'' # d # t))"
proof -
  have "is_digit_in 16 CHR ''0''" "\<not> is_digit_in 16 CHR ''x''" "\<not> isspace CHR ''0''"
    "digits_value 16 ''0'' = 0" by code_simp+
  then show ?thesis by (simp add: strtoul_def strip_sign_def strip_0x_def Let_def)
qed

text \<open>The number a firewall mark denotes: \<open>off\<close>, decimal digits, or \<open>0x\<close> and hexadecimal digits.\<close>

definition fwmark_value :: "string \<Rightarrow> nat option" where
  "fwmark_value v =
     (if strcasecmp_eq v ''off'' then Some 0
      else if take 2 v = ''0x'' then (if is_number 16 (drop 2 v) then Some (digits_value 16 (drop 2 v)) else None)
      else if is_number 10 v then Some (digits_value 10 v) else None)"

lemma parse_fwmark_eq:
  assumes "32 < ulong_bits L"
  shows "parse_fwmark L fl v =
    (case fwmark_value v of
       Some n \<Rightarrow> if n < 2 ^ 32 then Done (of_nat n, fl OR WGDEVICE_HAS_FWMARK) else Error (Bad_fwmark v)
     | None \<Rightarrow> Error (Bad_fwmark v))"
proof -
  have w: "(2::nat) ^ 32 < 2 ^ ulong_bits L" using assms by (intro power_strict_increasing) auto
  then have w': "(2::nat) ^ 32 - 1 < 2 ^ ulong_bits L - 1" "\<And>n :: nat. n < 2 ^ 32 \<Longrightarrow> n < 2 ^ ulong_bits L" by auto
  show ?thesis
  proof (cases "take 2 v = ''0x''")
    case True
    then obtain t where v: "v = CHR ''0'' # CHR ''x'' # t"
      by (cases v; cases "tl v") auto
    have off: "\<not> strcasecmp_eq v ''off''"
      by (simp add: v strcasecmp_eq_def) (simp add: tolower_def)
    have dig: "is_digit_in 10 CHR ''0''" "\<not> is_digit_in 10 CHR ''x''" by code_simp+
    show ?thesis
    proof (cases "is_number 16 t")
      case num: True
      then obtain d t' where t: "t = d # t'" "is_digit_in 16 d" by (cases t) (auto simp: is_number_def)
      have "strtoul (ulong_bits L) 16 v =
          (if 2 ^ ulong_bits L \<le> digits_value 16 t then 2 ^ ulong_bits L - 1 else digits_value 16 t, [])"
        using t(2) strtoul_hex [of "ulong_bits L" d t', folded t(1)] by (simp add: v Let_def is_number_run [OF num])
      then show ?thesis
        using off num w w' t dig by (auto simp: parse_fwmark_def fwmark_value_def v first_char_def wg_simps)
    next
      case num: False
      have "snd (strtoul (ulong_bits L) (if length v > 2 then 16 else 10) v) \<noteq> []"
      proof (cases t)
        case Nil
        then show ?thesis
          using strtoul_not_number [of v "ulong_bits L"] dig by (auto simp: v first_char_def is_number_def)
      next
        case (Cons d t')
        from this [symmetric] show ?thesis
          using strtoul_hex [of "ulong_bits L" d t'] not_number_rest [of t 16] num by (auto simp: v Let_def)
      qed
      then show ?thesis
        using off num dig
        by (cases "t = []") (auto simp: parse_fwmark_def fwmark_value_def v first_char_def wg_simps split: prod.split)
    qed
  next
    case False
    then have base: "\<not> (length v > 2 \<and> v ! 0 = CHR ''0'' \<and> v ! 1 = CHR ''x'')"
      by (cases v; cases "tl v") auto
    have num: "is_number 10 v \<Longrightarrow> is_digit_in 10 (first_char v)" by (rule first_char_number)
    show ?thesis
      using False base num w w' strtoul_number [of v "ulong_bits L"] strtoul_not_number [of v "ulong_bits L"]
      by (auto simp: parse_fwmark_def fwmark_value_def wg_simps)
  qed
qed

lemma parse_persistent_keepalive_eq:
  assumes "32 \<le> ulong_bits L"
  shows "parse_persistent_keepalive L fl v =
    (if strcasecmp_eq v ''off'' then Done (0, fl OR WGPEER_HAS_PERSISTENT_KEEPALIVE_INTERVAL)
     else if is_number 10 v \<and> digits_value 10 v < 2 ^ 16
       then Done (of_nat (digits_value 10 v), fl OR WGPEER_HAS_PERSISTENT_KEEPALIVE_INTERVAL)
     else Error (Bad_keepalive v))"
proof -
  have w: "(2::nat) ^ 32 \<le> 2 ^ ulong_bits L" using assms by (intro power_increasing) auto
  show ?thesis
  proof (cases "is_number 10 v")
    case True
    with w first_char_number [OF True] show ?thesis
      by (auto simp: parse_persistent_keepalive_def wg_simps strtoul_number)
  next
    case False
    then show ?thesis
      using strtoul_not_number [of v "ulong_bits L"]
      by (auto simp: parse_persistent_keepalive_def wg_simps)
  qed
qed

subsection \<open>Lists of allowed IPs\<close>

text \<open>All the values of a list of fallible operations, or the first failure.\<close>

primrec map_outcome :: "('a \<Rightarrow> ('e, 'b) outcome) \<Rightarrow> 'a list \<Rightarrow> ('e, 'b list) outcome" where
  "map_outcome f [] = Done []"
| "map_outcome f (x # xs) = and_then (f x) (\<lambda>y. and_then (map_outcome f xs) (\<lambda>ys. Done (y # ys)))"

definition incremental :: "string \<Rightarrow> bool" where
  "incremental entry = (first_char entry = CHR ''+'' \<or> first_char entry = CHR ''-'')"

text \<open>What one entry denotes, whatever the flags of the peer.\<close>

definition entry_value :: "libc \<Rightarrow> string \<Rightarrow> (wg_error, wgallowedip) outcome" where
  "entry_value L entry = and_then (parse_entry L 0 entry) (\<lambda>(_, a). Done a)"

lemma and_then_assoc: "and_then (and_then r f) g = and_then r (\<lambda>x. and_then (f x) g)"
  by (cases r) simp_all

lemma parse_entry_flags_eq:
  "parse_entry L fl entry = and_then (entry_value L entry) (\<lambda>a.
     Done (if incremental entry then fl AND NOT WGPEER_REPLACE_ALLOWEDIPS else fl, a))"
proof -
  have opt: "and_then (case x of None \<Rightarrow> Error e | Some n \<Rightarrow> Done (g n)) h = (case x of None \<Rightarrow> Error e | Some n \<Rightarrow> h (g n))"
    for x :: "nat option" and e and g :: "nat \<Rightarrow> 'b" and h :: "'b \<Rightarrow> (wg_error, 'c) outcome"
    by (cases x) simp_all
  show ?thesis
    by (auto simp: entry_value_def parse_entry_eq parse_ip_prefix_def incremental_def and_then_assoc opt
        split: prod.split cong: option.case_cong)
qed

lemma fold_parse_entry:
  assumes "chain_ok (chain, lp)"
  shows "fold_outcome (parse_entry_step L) es (fl, chain, lp) =
    and_then (map_outcome (entry_value L) es) (\<lambda>as.
      Done (if list_ex incremental es then fl AND NOT WGPEER_REPLACE_ALLOWEDIPS else fl, chain @ as,
            if as = [] then lp else Some (length chain + length as - 1)))"
  using assms
proof (induction es arbitrary: fl chain lp)
  case (Cons e es)
  show ?case
  proof (cases "entry_value L e")
    case (Done a)
    have "chain_ok (chain @ [a], Some (length chain))" by (simp add: chain_ok_def)
    from Cons.IH [OF this] show ?thesis
      by (cases "map_outcome (entry_value L) es")
        (auto simp: parse_entry_step_def parse_entry_flags_eq Done link_last_ok [OF Cons.prems])
  qed (auto simp: parse_entry_step_def parse_entry_flags_eq)
qed simp

lemma map_outcome_length: "map_outcome f xs = Done ys \<Longrightarrow> length ys = length xs"
  by (induction xs arbitrary: ys) auto

lemma strsep_all_nonempty [simp]: "strsep_all c s \<noteq> []"
  by (cases s) (auto split: list.split)

lemma parse_allowedips_eq:
  assumes "chain_ok (allowedips peer, lp)" "value \<noteq> []"
  shows "parse_allowedips L peer lp value =
    and_then (map_outcome (entry_value L) (strsep_all (CHR '','') value)) (\<lambda>as.
      Done (peer\<lparr>p_flags :=
               (if list_ex incremental (strsep_all (CHR '','') value)
                then p_flags peer AND NOT WGPEER_REPLACE_ALLOWEDIPS
                else p_flags peer OR WGPEER_REPLACE_ALLOWEDIPS),
             allowedips := allowedips peer @ as\<rparr>,
            Some (length (allowedips peer) + length as - 1)))"
proof -
  have fl: "(p_flags peer OR WGPEER_REPLACE_ALLOWEDIPS) AND NOT WGPEER_REPLACE_ALLOWEDIPS
      = p_flags peer AND NOT WGPEER_REPLACE_ALLOWEDIPS"
    by (rule bit_eqI) (auto simp: bit_simps)
  have ne: "as \<noteq> []" if "map_outcome (entry_value L) (strsep_all (CHR '','') value) = Done as" for as
    using map_outcome_length [OF that] by auto
  show ?thesis
    using assms(2) ne
    by (cases "map_outcome (entry_value L) (strsep_all (CHR '','') value)")
      (auto simp: parse_allowedips_def Let_def fold_parse_entry [OF assms(1)] fl)
qed

subsection \<open>The netmask check\<close>

definition be_value :: "bytes \<Rightarrow> nat" where
  "be_value bs = foldl (\<lambda>n b. n * 256 + unat b) 0 bs"

lemma be_value_append: "be_value (xs @ ys) = be_value xs * 256 ^ length ys + be_value ys"
proof -
  have "foldl (\<lambda>n b. n * 256 + unat b) n ys = n * 256 ^ length ys + foldl (\<lambda>n b. n * 256 + unat b) 0 ys" for n
  proof (induction ys rule: rev_induct)
    case (snoc y ys)
    then show ?case by (simp add: algebra_simps)
  qed simp
  from this [of "be_value xs"] show ?thesis by (simp add: be_value_def)
qed

lemma four_bytes_less:
  "a < 256 \<Longrightarrow> b < 256 \<Longrightarrow> c < 256 \<Longrightarrow> d < 256 \<Longrightarrow> ((a * 256 + b) * 256 + c) * 256 + d < (4294967296 :: nat)"
  using less_Suc_eq_le [of a 255] less_Suc_eq_le [of b 255] less_Suc_eq_le [of c 255] less_Suc_eq_le [of d 255] by simp

lemma unat_be32: "unat (be32 b i) = ((unat (b ! i) * 256 + unat (b ! (i + 1))) * 256 + unat (b ! (i + 2))) * 256 + unat (b ! (i + 3))"
proof -
  have "unat x < 256" for x :: u8 using unsigned_less [of x, where 'a = nat] by simp
  from this [of "b ! i"] this [of "b ! (i + 1)"] this [of "b ! (i + 2)"] this [of "b ! (i + 3)"]
  have "((unat (b ! i) * 256 + unat (b ! (i + 1))) * 256 + unat (b ! (i + 2))) * 256 + unat (b ! (i + 3)) < 4294967296"
    by (rule four_bytes_less)
  then show ?thesis unfolding be32_def unat_of_nat by (simp add: take_bit_eq_mod)
qed

lemma be_value_words:
  assumes "4 * Suc n \<le> length b"
  shows "be_value (take (4 * Suc n) b) = be_value (take (4 * n) b) * 2 ^ 32 + unat (be32 b (4 * n))"
proof -
  have "take (4 * Suc n) b = take (4 * n) b @ [b ! (4 * n), b ! (4 * n + 1), b ! (4 * n + 2), b ! (4 * n + 3)]"
    using assms take_Suc_conv_app_nth [of "4 * n" b] take_Suc_conv_app_nth [of "4 * n + 1" b]
      take_Suc_conv_app_nth [of "4 * n + 2" b] take_Suc_conv_app_nth [of "4 * n + 3" b]
    by (simp add: eval_nat_numeral)
  then show ?thesis by (simp only: be_value_append unat_be32) (simp add: be_value_def)
qed

lemma and_low_mask:
  assumes "0 < k" "k < 32"
  shows "(w :: u32) AND drop_bit k (- 1) = 0 \<longleftrightarrow> unat w mod 2 ^ (32 - k) = 0"
proof -
  have "w AND drop_bit k (- 1) = take_bit (32 - k) w"
    by (rule bit_word_eqI) (use assms in \<open>auto simp: bit_simps\<close>)
  moreover have "take_bit (32 - k) w = 0 \<longleftrightarrow> unat w mod 2 ^ (32 - k) = 0"
    by (metis unat_eq_zero unsigned_take_bit_eq take_bit_eq_mod)
  ultimately show ?thesis by simp
qed

lemma validate_words_iff:
  "4 * n \<le> length addr \<Longrightarrow>
   validate_words addr len n \<longleftrightarrow> be_value (take (4 * n) addr) mod 2 ^ (32 * n - len) = 0"
proof (induction n)
  case (Suc i)
  let ?V = "be_value (take (4 * i) addr)" and ?w = "be32 addr (4 * i)"
  have V: "be_value (take (4 * Suc i) addr) = ?V * 2 ^ 32 + unat ?w" using Suc.prems by (rule be_value_words)
  have IH: "validate_words addr len i \<longleftrightarrow> ?V mod 2 ^ (32 * i - len) = 0" using Suc by simp
  consider (ge) "32 * Suc i \<le> len" | (mid) "32 * i < len" "len < 32 * Suc i" | (le) "len \<le> 32 * i" by linarith
  then show ?case
  proof cases
    case ge
    then show ?thesis by simp
  next
    case mid
    let ?k = "32 * Suc i - len"
    have k: "32 - (len - 32 * i) = ?k" "?k \<le> 32" using mid by auto
    have "2 ^ ?k dvd ?V * 2 ^ 32" by (rule dvd_mult) (rule le_imp_power_dvd [OF k(2)])
    then have "(?V * 2 ^ 32 + unat ?w) mod 2 ^ ?k = unat ?w mod 2 ^ ?k"
      by (simp only: mod_add_left_eq [of "?V * 2 ^ 32", symmetric] dvd_imp_mod_0 add_0)
    moreover have "?w AND drop_bit (len - 32 * i) (- 1) = 0 \<longleftrightarrow> unat ?w mod 2 ^ ?k = 0"
      using and_low_mask [of "len - 32 * i" ?w] mid k by simp
    ultimately show ?thesis unfolding V using mid IH by (simp add: Let_def)
  next
    case le
    let ?k = "32 * i - len"
    have w: "unat ?w < 2 ^ 32" using unsigned_less [of ?w, where 'a = nat] by simp
    have "32 * Suc i - len = 32 + ?k" using le by simp
    then have "(?V * 2 ^ 32 + unat ?w) mod 2 ^ (32 * Suc i - len) = 2 ^ 32 * (?V mod 2 ^ ?k) + unat ?w"
      using w by (simp only: power_add mod_mult2_eq) simp
    then show ?thesis unfolding V using le IH by (auto simp: Let_def unat_eq_zero)
  qed
qed simp

subsection \<open>The resolution loop\<close>

abbreviation answer :: "libc \<Rightarrow> string \<Rightarrow> string \<Rightarrow> nat \<Rightarrow> int \<times> addrinfo" where
  "answer L host port n \<equiv> getaddrinfo L False (Some host) port n"

definition transient :: "int \<Rightarrow> bool" where
  "transient ret = (ret \<noteq> 0 \<and> \<not> permanent_failure ret)"

lemma next_timeout_le: "next_timeout t \<le> 20000000"
  by (auto simp: next_timeout_def not_less)

lemma resolve_loop_step:
  "resolve_loop L h p n t r =
     (if transient (fst (answer L h p n)) \<and> r \<noteq> 0
      then Option.bind (resolve_loop L h p (Suc n) (next_timeout t) (if r > 0 then r - 1 else r))
             (\<lambda>(res, pauses). Some (res, t # pauses))
      else Some (answer L h p n, []))"
  by (subst resolve_loop.simps) (auto simp: transient_def Let_def split: prod.splits)

text \<open>The loop stops at the first attempt that is no transient failure or uses up the retries.\<close>

lemma resolve_loop_stops:
  assumes "\<And>k. n \<le> k \<Longrightarrow> k < n + m \<Longrightarrow> transient (fst (answer L h p k))"
    and "r < 0 \<or> int m \<le> r"
    and "\<not> transient (fst (answer L h p (n + m))) \<or> int m = r"
    and "t \<le> 20000000"
  shows "\<exists>ps. resolve_loop L h p n t r = Some (answer L h p (n + m), ps) \<and> length ps = m \<and> (\<forall>x\<in>set ps. x \<le> 20000000)"
  using assms
proof (induction m arbitrary: n t r)
  case 0
  then show ?case by (auto simp: resolve_loop_step)
next
  case (Suc m)
  have tr: "transient (fst (answer L h p n))" and r: "r \<noteq> 0" using Suc.prems by auto
  let ?r = "if r > 0 then r - 1 else r"
  have "\<exists>ps. resolve_loop L h p (Suc n) (next_timeout t) ?r = Some (answer L h p (Suc n + m), ps) \<and>
      length ps = m \<and> (\<forall>x\<in>set ps. x \<le> 20000000)"
  proof (rule Suc.IH)
    show "\<And>k. Suc n \<le> k \<Longrightarrow> k < Suc n + m \<Longrightarrow> transient (fst (answer L h p k))" using Suc.prems(1) by simp
    show "?r < 0 \<or> int m \<le> ?r" using Suc.prems(2) r by auto
    show "\<not> transient (fst (answer L h p (Suc n + m))) \<or> int m = ?r" using Suc.prems(2,3) by auto
  qed (rule next_timeout_le)
  then obtain ps where "resolve_loop L h p (Suc n) (next_timeout t) ?r = Some (answer L h p (Suc n + m), ps)"
    "length ps = m" "\<forall>x\<in>set ps. x \<le> 20000000" by blast
  then show ?case
    using tr r Suc.prems(4) by (simp add: resolve_loop_step [of L h p n t r])
qed

lemma resolve_loop_returns_only_if:
  assumes "resolve_loop L h p n t r = Some res" "r < 0"
  shows "\<exists>k\<ge>n. \<not> transient (fst (answer L h p k))"
proof -
  have "r < 0 \<longrightarrow> (\<exists>k\<ge>n. \<not> transient (fst (answer L h p k)))" if "resolve_loop L h p n t r = Some res" for res
  proof (rule resolve_loop.raw_induct [OF _ that])
    fix rl :: "libc \<Rightarrow> string \<Rightarrow> string \<Rightarrow> nat \<Rightarrow> u32 \<Rightarrow> int \<Rightarrow> ((int \<times> addrinfo) \<times> u32 list) option"
      and L h p n t r y
    assume IH: "\<And>L h p n t r y. rl L h p n t r = Some y \<Longrightarrow> r < 0 \<longrightarrow> (\<exists>k\<ge>n. \<not> transient (fst (answer L h p k)))"
      and eq: "(let (ret, resolved) = getaddrinfo L False (Some h) p n in
         if ret = 0 then Some ((0, resolved), [])
         else if permanent_failure ret \<or> r = 0 then Some ((ret, resolved), [])
         else Option.bind (rl L h p (Suc n) (next_timeout t) (if r > 0 then r - 1 else r))
             (\<lambda>(res, pauses). Some (res, t # pauses))) = Some y"
    show "r < 0 \<longrightarrow> (\<exists>k\<ge>n. \<not> transient (fst (answer L h p k)))"
    proof
      assume "r < 0"
      show "\<exists>k\<ge>n. \<not> transient (fst (answer L h p k))"
      proof (cases "transient (fst (answer L h p n))")
        case True
        with eq \<open>r < 0\<close> obtain z where "rl L h p (Suc n) (next_timeout t) r = Some z"
          by (auto simp: transient_def Let_def bind_eq_Some_conv split: prod.splits if_splits)
        from IH [OF this] \<open>r < 0\<close> show ?thesis by (meson Suc_leD)
      qed blast
    qed
  qed
  with assms show ?thesis by blast
qed

text \<open>How often the resolver is asked: at most once more than the retries allow.\<close>

lemma resolve_loop_total:
  assumes "0 \<le> r" "t \<le> 20000000"
  shows "\<exists>k ps. resolve_loop L h p 0 t r = Some (answer L h p k, ps) \<and> length ps = k \<and> int k \<le> r \<and>
    (\<forall>j<k. transient (fst (answer L h p j))) \<and> (transient (fst (answer L h p k)) \<longrightarrow> int k = r) \<and>
    (\<forall>x\<in>set ps. x \<le> 20000000)"
proof -
  define k where "k = (LEAST k. \<not> transient (fst (answer L h p k)) \<or> int k = r)"
  have ex: "\<not> transient (fst (answer L h p (nat r))) \<or> int (nat r) = r" using assms(1) by simp
  have stop: "\<not> transient (fst (answer L h p k)) \<or> int k = r"
    unfolding k_def by (rule LeastI [of "\<lambda>k. \<not> transient (fst (answer L h p k)) \<or> int k = r", OF ex])
  have before: "transient (fst (answer L h p j))" if "j < k" for j
    using not_less_Least [of j "\<lambda>k. \<not> transient (fst (answer L h p k)) \<or> int k = r"] that by (simp add: k_def)
  have "k \<le> nat r" unfolding k_def by (rule Least_le) (rule ex)
  then have le: "int k \<le> r" using assms(1) by simp
  have "\<exists>ps. resolve_loop L h p 0 t r = Some (answer L h p (0 + k), ps) \<and> length ps = k \<and> (\<forall>x\<in>set ps. x \<le> 20000000)"
    by (rule resolve_loop_stops) (use before stop le assms in auto)
  then show ?thesis using le before stop by auto
qed

lemma resolve_loop_forever:
  assumes "r < 0" "t \<le> 20000000"
  shows "resolve_loop L h p 0 t r = None \<longleftrightarrow> (\<forall>k. transient (fst (answer L h p k)))"
proof
  assume none: "resolve_loop L h p 0 t r = None"
  show "\<forall>k. transient (fst (answer L h p k))"
  proof (rule ccontr)
    assume "\<not> ?thesis"
    then obtain j where ex: "\<not> transient (fst (answer L h p j))" by blast
    define k where "k = (LEAST k. \<not> transient (fst (answer L h p k)))"
    have stop: "\<not> transient (fst (answer L h p k))"
      unfolding k_def by (rule LeastI [of "\<lambda>k. \<not> transient (fst (answer L h p k))", OF ex])
    have before: "transient (fst (answer L h p j))" if "j < k" for j
      using not_less_Least [of j "\<lambda>k. \<not> transient (fst (answer L h p k))"] that by (simp add: k_def)
    have "\<exists>ps. resolve_loop L h p 0 t r = Some (answer L h p (0 + k), ps) \<and> length ps = k \<and> (\<forall>x\<in>set ps. x \<le> 20000000)"
      by (rule resolve_loop_stops) (use before stop assms in auto)
    with none show False by simp
  qed
next
  assume "\<forall>k. transient (fst (answer L h p k))"
  with resolve_loop_returns_only_if [of L h p 0 t r] assms(1)
  show "resolve_loop L h p 0 t r = None" by (cases "resolve_loop L h p 0 t r") auto
qed

lemma parse_dns_retries_range: "parse_dns_retries L = Done r \<Longrightarrow> 0 \<le> r \<or> r = - 1"
  by (auto simp: parse_dns_retries_def Let_def split: option.split_asm if_split_asm prod.split_asm)

lemma parse_dns_retries_infinity:
  "parse_dns_retries L = Done (- 1) \<longleftrightarrow> getenv L ''WG_ENDPOINT_RESOLUTION_RETRIES'' = Some ''infinity''"
  by (auto simp: parse_dns_retries_def Let_def split: option.split_asm if_split_asm prod.split_asm)

lemma parse_endpoint_diverges_iff:
  "parse_endpoint L ep v = Diverge \<longleftrightarrow>
     parse_dns_retries L = Done (- 1) \<and>
     (\<exists>h p. split_endpoint v = Done (h, p) \<and> (\<forall>k. transient (fst (answer L h p k))))"
proof -
  have nd: "parse_dns_retries L \<noteq> Diverge" "split_endpoint v \<noteq> Diverge"
    by (auto simp: parse_dns_retries_def split_endpoint_def Let_def split: option.split prod.split)
  have loop: "resolve_loop L h p 0 1000000 r = None \<longleftrightarrow> r = - 1 \<and> (\<forall>k. transient (fst (answer L h p k)))"
    if "parse_dns_retries L = Done r" for h p r
    using parse_dns_retries_range [OF that] resolve_loop_total [of r 1000000 L h p] resolve_loop_forever [of r 1000000 L h p]
    by auto
  show ?thesis
  proof (cases "parse_dns_retries L")
    case (Done r)
    show ?thesis
    proof (cases "split_endpoint v")
      case (Done hp)
      obtain h p where hp: "hp = (h, p)" by (cases hp)
      have "parse_endpoint L ep v = Diverge \<longleftrightarrow> resolve_loop L h p 0 1000000 r = None"
        by (auto simp: parse_endpoint_def Done \<open>parse_dns_retries L = Done r\<close> hp split: option.split)
      then show ?thesis
        unfolding loop [OF \<open>parse_dns_retries L = Done r\<close>] by (simp add: Done hp \<open>parse_dns_retries L = Done r\<close>)
    qed (use nd Done in \<open>simp_all add: parse_endpoint_def\<close>)
  qed (use nd in \<open>simp_all add: parse_endpoint_def\<close>)
qed

end
