(* ===== verification/Wg_Text.thy ===== *)
theory Wg_Text
  imports Wg_Prelude
begin

text \<open>
  Text as the tools write and read it back: joined fields, lines, numerals and what characters they
  are made of. These lemmas carry the round trips between the printing and the parsing programs.
\<close>

abbreviation newline :: char where
  "newline \<equiv> CHR 0x0A"

fun join :: "string \<Rightarrow> string list \<Rightarrow> string" where
  "join sep [] = []"
| "join sep [x] = x"
| "join sep (x # y # ys) = x @ sep @ join sep (y # ys)"

lemma strsep_all_no_sep: "c \<notin> set x \<Longrightarrow> strsep_all c x = [x]"
  by (induction x) auto

lemma strsep_all_append: "c \<notin> set x \<Longrightarrow> strsep_all c (x @ c # rest) = x # strsep_all c rest"
  by (induction x) auto

lemma strsep_all_join:
  assumes "xs \<noteq> []" "\<And>x. x \<in> set xs \<Longrightarrow> c \<notin> set x"
  shows "strsep_all c (join [c] xs) = xs"
  using assms by (induction "[c]" xs rule: join.induct) (auto simp: strsep_all_no_sep strsep_all_append)

lemma strsep_no_sep: "c \<notin> set x \<Longrightarrow> strsep c x = (x, None)"
  by (simp add: strsep_def split_first_def)

lemma split_first_append: "c \<notin> set x \<Longrightarrow> split_first c (x @ c # rest) = Some (x, rest)"
  by (induction x) (auto simp: split_first_def)

lemma strsep_append: "c \<notin> set x \<Longrightarrow> strsep c (x @ c # rest) = (x, Some rest)"
  by (simp add: strsep_def split_first_append)

lemma split_last_append: "c \<notin> set y \<Longrightarrow> split_last c (x @ c # y) = Some (x, y)"
  using split_first_append [of c "rev y" "rev x"] by (simp add: split_last_def)

lemma set_join: "set (join sep xs) \<subseteq> set sep \<union> (\<Union>x\<in>set xs. set x)"
  by (induction sep xs rule: join.induct) auto

text \<open>The lines \<open>getline\<close> yields one after the other, each with its line feed.\<close>

fun getlines :: "string \<Rightarrow> string list" where
  "getlines [] = []"
| "getlines (x # xs) =
     (if x = newline then [x] # getlines xs
      else (case getlines xs of [] \<Rightarrow> [[x]] | l # ls \<Rightarrow> (x # l) # ls))"

lemma getlines_line: "newline \<notin> set l \<Longrightarrow> getlines (l @ newline # rest) = (l @ [newline]) # getlines rest"
  by (induction l) auto

lemma getlines_lines:
  "(\<And>l. l \<in> set ls \<Longrightarrow> newline \<notin> set l) \<Longrightarrow> getlines (concat (map (\<lambda>l. l @ [newline]) ls)) = map (\<lambda>l. l @ [newline]) ls"
  by (induction ls) (auto simp: getlines_line)

lemma concat_getlines: "concat (getlines s) = s"
  by (induction s rule: getlines.induct) (auto split: list.split)

text \<open>Numerals consist of digits, so they contain no separator.\<close>

lemma digit_10_in_16: "is_digit_in 10 c \<Longrightarrow> is_digit_in 16 c"
  by (auto simp: is_digit_in_def split: option.splits)

lemma digit_char_range:
  assumes "is_digit_in 16 c"
  shows "(48 \<le> char_int c \<and> char_int c \<le> 57) \<or> (97 \<le> char_int c \<and> char_int c \<le> 102) \<or> (65 \<le> char_int c \<and> char_int c \<le> 70)"
  using assms by (auto simp: is_digit_in_def digit_value_def Let_def split: if_splits)

lemma num_string_set:
  "set (dec_string n) \<subseteq> {c. is_digit_in 10 c}" "set (hex_string n) \<subseteq> {c. is_digit_in 16 c}"
  using set_num_string [of 10] set_num_string [of 16] by auto

end
