(* ===== verification/Wg_Libc.thy ===== *)
theory Wg_Libc
  imports Wg_Config_Spec Wg_Text
begin

text \<open>
  The documented behaviour of the address functions outside the sources that the printing and parsing
  programs rely on, as one predicate, and a small instance of them that has it: dotted decimal IPv4
  addresses, IPv6 addresses written in full, numeric ports. The instance is what the witnesses
  evaluate; every property is stated for all environments with the documented behaviour.
\<close>

subsection \<open>The documented behaviour\<close>

text \<open>A socket address as the kernel reports one: no padding, no flow label, no scope.\<close>

definition canonical_sockaddr :: "bytes \<Rightarrow> bool" where
  "canonical_sockaddr ep =
     ((sa_family ep = AF_INET \<and> length ep = 16 \<and> drop 8 ep = replicate 8 0) \<or>
      (sa_family ep = AF_INET6 \<and> length ep = 28 \<and> take 4 (drop 4 ep) = replicate 4 0 \<and> drop 24 ep = replicate 4 0))"

definition ip_chars :: "char set" where
  "ip_chars = {c. is_digit_in 16 c} \<union> {CHR ''.'', CHR '':''}"

text \<open>
  Printing a binary address and reading the text gives the address back; the text consists of
  digits, dots and colons, and has a colon exactly for IPv6. A numeric port resolves to itself, and
  the numeric host and port of a socket address resolve to that socket address.
\<close>

definition libc_text :: "libc \<Rightarrow> bool" where
  "libc_text L =
     ((\<forall>b. length b = 4 \<longrightarrow> (\<exists>s. inet_ntop L AF_INET b = Some s \<and> inet_pton L AF_INET s = Some b \<and>
         set s \<subseteq> ip_chars - {CHR '':''} \<and> s \<noteq> [])) \<and>
      (\<forall>b. length b = 16 \<longrightarrow> (\<exists>s. inet_ntop L AF_INET6 b = Some s \<and> inet_pton L AF_INET6 s = Some b \<and>
         set s \<subseteq> ip_chars \<and> CHR '':'' \<in> set s)) \<and>
      (\<forall>p<65536. \<exists>res. getaddrinfo L True None (dec_string p) 0 = (0, res) \<and>
         ((ai_family res = AF_INET \<and> length (ai_addr res) = 16) \<or> (ai_family res = AF_INET6 \<and> length (ai_addr res) = 28)) \<and>
         be16 (ai_addr res) 2 = of_nat p) \<and>
      (\<forall>ep. canonical_sockaddr ep \<longrightarrow> (\<exists>h s. getnameinfo L ep = Some (h, s) \<and>
         getaddrinfo L False (Some h) s 0 = (0, \<lparr>ai_family = sa_family ep, ai_addr = ep\<rparr>) \<and>
         set h \<subseteq> ip_chars \<and> h \<noteq> [] \<and> (CHR '':'' \<in> set h \<longleftrightarrow> sa_family ep = AF_INET6) \<and>
         set s \<subseteq> {c. is_digit_in 10 c} \<and> s \<noteq> [])))"

subsection \<open>A numeric instance\<close>

definition v4_ntop :: "bytes \<Rightarrow> string" where
  "v4_ntop b = join ''.'' (map (\<lambda>x. dec_string (unat x)) b)"

definition v4_pton :: "string \<Rightarrow> bytes option" where
  "v4_pton s =
     (let ts = strsep_all (CHR ''.'') s
      in if length ts = 4 \<and> list_all (\<lambda>t. is_number 10 t \<and> digits_value 10 t < 256) ts
         then Some (map (\<lambda>t. of_nat (digits_value 10 t)) ts) else None)"

definition v6_ntop :: "bytes \<Rightarrow> string" where
  "v6_ntop b = join '':'' (map (\<lambda>i. hex_string (unat (be16 b (2 * i)))) [0..<8])"

definition v6_pton :: "string \<Rightarrow> bytes option" where
  "v6_pton s =
     (let ts = strsep_all (CHR '':'') s
      in if length ts = 8 \<and> list_all (\<lambda>t. is_number 16 t \<and> digits_value 16 t < 65536) ts
         then Some (concat (map (\<lambda>t. [of_nat (digits_value 16 t div 256), of_nat (digits_value 16 t mod 256)]) ts))
         else None)"

definition port_bytes :: "nat \<Rightarrow> bytes" where
  "port_bytes p = [of_nat (p div 256), of_nat (p mod 256)]"

definition sockaddr_v4 :: "bytes \<Rightarrow> nat \<Rightarrow> bytes" where
  "sockaddr_v4 a p = le_bytes 2 AF_INET @ port_bytes p @ a @ replicate 8 0"

definition sockaddr_v6 :: "bytes \<Rightarrow> nat \<Rightarrow> bytes" where
  "sockaddr_v6 a p = le_bytes 2 AF_INET6 @ port_bytes p @ replicate 4 0 @ a @ replicate 4 0"

definition numeric_getaddrinfo :: "bool \<Rightarrow> string option \<Rightarrow> string \<Rightarrow> nat \<Rightarrow> int \<times> addrinfo" where
  "numeric_getaddrinfo passive node service n =
     (if \<not> (is_number 10 service \<and> digits_value 10 service < 65536)
      then (EAI_NONAME, \<lparr>ai_family = 0, ai_addr = []\<rparr>)
      else
        let p = digits_value 10 service in
        case node of
          None \<Rightarrow> (0, \<lparr>ai_family = AF_INET, ai_addr = sockaddr_v4 (replicate 4 0) p\<rparr>)
        | Some h \<Rightarrow>
            (case v4_pton h of
               Some a \<Rightarrow> (0, \<lparr>ai_family = AF_INET, ai_addr = sockaddr_v4 a p\<rparr>)
             | None \<Rightarrow>
                 (case v6_pton h of
                    Some a \<Rightarrow> (0, \<lparr>ai_family = AF_INET6, ai_addr = sockaddr_v6 a p\<rparr>)
                  | None \<Rightarrow> (EAI_NONAME, \<lparr>ai_family = 0, ai_addr = []\<rparr>))))"

definition numeric_getnameinfo :: "bytes \<Rightarrow> (string \<times> string) option" where
  "numeric_getnameinfo ep =
     (if sa_family ep = AF_INET then Some (v4_ntop (take 4 (drop 4 ep)), dec_string (unat (be16 ep 2)))
      else if sa_family ep = AF_INET6 then Some (v6_ntop (take 16 (drop 8 ep)), dec_string (unat (be16 ep 2)))
      else None)"

definition numeric_libc :: libc where
  "numeric_libc =
     \<lparr>ulong_bits = 64, char_signed = False, getaddrinfo = numeric_getaddrinfo,
      inet_pton = (\<lambda>af s. if af = AF_INET then v4_pton s else if af = AF_INET6 then v6_pton s else None),
      inet_ntop = (\<lambda>af b. if af = AF_INET then Some (v4_ntop b) else if af = AF_INET6 then Some (v6_ntop b) else None),
      getnameinfo = numeric_getnameinfo, getenv = (\<lambda>_. None), fopen = (\<lambda>_. None)\<rparr>"

subsection \<open>The instance has the documented behaviour\<close>

lemma is_number_num_string: "is_number 10 (dec_string n)" "is_number 16 (hex_string n)"
  using set_num_string [of 10 _ n] set_num_string [of 16 _ n] by (auto simp: is_number_def list_all_iff)

lemma digits_value_numeral: "digits_value 10 (dec_string n) = n" "digits_value 16 (hex_string n) = n"
  by (simp_all add: digits_value_num_string)

lemma not_digit: "\<not> is_digit_in 16 (CHR ''.'')" "\<not> is_digit_in 16 (CHR '':'')" "\<not> is_digit_in 10 (CHR ''.'')"
  by code_simp+

lemma num_string_no_sep:
  "CHR ''.'' \<notin> set (dec_string n)" "CHR '':'' \<notin> set (hex_string n)" "CHR '':'' \<notin> set (dec_string n)"
  using num_string_set [of n] not_digit digit_10_in_16 by blast+

lemma v4_pton_ntop:
  assumes "length b = 4"
  shows "v4_pton (v4_ntop b) = Some b"
proof -
  have "strsep_all (CHR ''.'') (v4_ntop b) = map (\<lambda>x. dec_string (unat x)) b"
    unfolding v4_ntop_def using assms num_string_no_sep by (intro strsep_all_join) auto
  moreover have "unat x < 256" for x :: u8 using unsigned_less [of x, where 'a = nat] by simp
  ultimately show ?thesis
    using assms by (simp add: v4_pton_def list_all_iff is_number_num_string digits_value_numeral o_def)
qed

lemma port_be16: "p < 65536 \<Longrightarrow> of_nat p = (of_nat (256 * unat (of_nat (p div 256) :: u8) + unat (of_nat (p mod 256) :: u8)) :: u16)"
  by (simp add: unat_of_nat take_bit_eq_mod div_less_iff_less_mult)

lemma be16_bytes:
  "[of_nat (unat (be16 b i) div 256), of_nat (unat (be16 b i) mod 256)] = [b ! i, b ! (i + 1)]"
proof -
  have u: "unat x < 256" for x :: u8 using unsigned_less [of x, where 'a = nat] by simp
  have "256 * unat (b ! i) + unat (b ! (i + 1)) < 65536" using u [of "b ! i"] u [of "b ! (i + 1)"] by linarith
  then have "unat (be16 b i) = 256 * unat (b ! i) + unat (b ! (i + 1))"
    unfolding be16_def unat_of_nat by (simp add: take_bit_eq_mod)
  then show ?thesis using u [of "b ! (i + 1)"] by simp
qed

lemma v6_pton_ntop:
  assumes "length b = 16"
  shows "v6_pton (v6_ntop b) = Some b"
proof -
  have s: "strsep_all (CHR '':'') (v6_ntop b) = map (\<lambda>i. hex_string (unat (be16 b (2 * i)))) [0..<8]"
    unfolding v6_ntop_def using num_string_no_sep by (intro strsep_all_join) auto
  let ?t = "\<lambda>i. hex_string (unat (be16 b (2 * i)))"
  have "unat (w :: u16) < 65536" for w using unsigned_less [of w, where 'a = nat] by simp
  then have ok: "list_all (\<lambda>t. is_number 16 t \<and> digits_value 16 t < 65536) (map ?t [0..<8])"
    by (simp only: list_all_iff set_map) (auto simp: is_number_num_string digits_value_numeral)
  have "v6_pton (v6_ntop b) = Some (concat (map (\<lambda>i. [b ! (2 * i), b ! (2 * i + 1)]) [0..<8]))"
    unfolding v6_pton_def s Let_def using ok
    by (simp only: length_map length_upt diff_zero simp_thms if_True map_map o_def digits_value_numeral be16_bytes)
  also have "concat (map (\<lambda>i. [b ! (2 * i), b ! (2 * i + 1)]) [0..<8]) = b"
    by (rule chunks_eqI [where m = 2, symmetric]) (use assms in \<open>auto simp: less_Suc_eq mult.commute numeral_2_eq_2\<close>)
  finally show ?thesis .
qed

lemma set_ntop:
  "set (v4_ntop b) \<subseteq> ip_chars - {CHR '':''}" "set (v6_ntop b) \<subseteq> ip_chars - {CHR ''.''}"
proof -
  show "set (v4_ntop b) \<subseteq> ip_chars - {CHR '':''}"
    using set_join [of "''.''" "map (\<lambda>x. dec_string (unat x)) b"] num_string_set(1) num_string_no_sep(3) digit_10_in_16
    unfolding v4_ntop_def ip_chars_def by fastforce
  show "set (v6_ntop b) \<subseteq> ip_chars - {CHR ''.''}"
    using set_join [of "'':''" "map (\<lambda>i. hex_string (unat (be16 b (2 * i)))) [0..<8]"] num_string_set(2) not_digit(1)
    unfolding v6_ntop_def ip_chars_def by fastforce
qed

lemma v6_ntop_colon: "CHR '':'' \<in> set (v6_ntop b)"
proof -
  have "[0..<8] = 0 # 1 # [2..<8::nat]" by (simp add: upt_rec)
  then show ?thesis by (simp add: v6_ntop_def)
qed

lemma v4_ntop_nonempty: "length b = 4 \<Longrightarrow> v4_ntop b \<noteq> []"
  by (cases b; cases "tl b") (auto simp: v4_ntop_def)

lemma v4_pton_v6_ntop: "v4_pton (v6_ntop b) = None"
proof -
  have "strsep_all (CHR ''.'') (v6_ntop b) = [v6_ntop b]"
    using set_ntop(2) by (intro strsep_all_no_sep) auto
  then show ?thesis by (simp add: v4_pton_def)
qed

lemma v4_pton_length: "v4_pton s = Some b \<Longrightarrow> length b = 4"
  by (auto simp: v4_pton_def Let_def split: if_splits)

lemma v6_pton_length: "v6_pton s = Some b \<Longrightarrow> length b = 16"
  by (auto simp: v6_pton_def Let_def length_concat o_def sum_list_triv split: if_splits)

lemma split_sockaddr:
  assumes "sa_family ep = f" "8 \<le> length ep"
  shows "ep = le_bytes 2 f @ port_bytes (unat (be16 ep 2)) @ drop 4 ep"
proof -
  have "le_bytes 2 f = take 2 ep"
    using assms le_bytes_le_value [of "take 2 ep"] by (simp add: sa_family_def)
  moreover have "port_bytes (unat (be16 ep 2)) = take 2 (drop 2 ep)"
    using be16_bytes [of ep 2] assms(2)
    by (simp add: port_bytes_def take_Suc_conv_app_nth numeral_2_eq_2 numeral_3_eq_3)
  moreover have "ep = take 2 ep @ take 2 (drop 2 ep) @ drop 4 ep"
    by (metis append_take_drop_id drop_drop numeral_Bit0)
  ultimately show ?thesis by simp
qed

lemma canonical_sockaddr_cases:
  assumes "canonical_sockaddr ep"
  shows "(sa_family ep = AF_INET \<and> ep = sockaddr_v4 (take 4 (drop 4 ep)) (unat (be16 ep 2)) \<and> length (take 4 (drop 4 ep)) = 4) \<or>
    (sa_family ep = AF_INET6 \<and> ep = sockaddr_v6 (take 16 (drop 8 ep)) (unat (be16 ep 2)) \<and> length (take 16 (drop 8 ep)) = 16)"
proof -
  have a: "drop 4 ep = take 4 (drop 4 ep) @ drop 8 ep"
    using append_take_drop_id [of 4 "drop 4 ep"] by simp
  have b: "drop 8 ep = take 16 (drop 8 ep) @ drop 24 ep"
    using append_take_drop_id [of 16 "drop 8 ep"] by simp
  show ?thesis
    using assms split_sockaddr [of ep AF_INET] split_sockaddr [of ep AF_INET6] a b
    unfolding canonical_sockaddr_def sockaddr_v4_def sockaddr_v6_def
    by (elim disjE) auto
qed

lemma numeric_libc_ok: "libc_ok numeric_libc"
  by (auto simp: libc_ok_def numeric_libc_def af_defs v4_pton_length v6_pton_length)

lemma be16_sockaddr_v4: "p < 65536 \<Longrightarrow> be16 (sockaddr_v4 a p) 2 = of_nat p"
  using port_be16 [of p] by (simp add: be16_def sockaddr_v4_def port_bytes_def numeral_2_eq_2 nth_append)

lemma numeric_libc_text: "libc_text numeric_libc"
proof -
  have port: "\<exists>res. numeric_getaddrinfo True None (dec_string p) 0 = (0, res) \<and>
      ((ai_family res = AF_INET \<and> length (ai_addr res) = 16) \<or> (ai_family res = AF_INET6 \<and> length (ai_addr res) = 28)) \<and>
      be16 (ai_addr res) 2 = of_nat p" if "p < 65536" for p
    using that be16_sockaddr_v4 [OF that, of "replicate 4 0"]
    by (simp add: numeric_getaddrinfo_def is_number_num_string digits_value_numeral sockaddr_v4_def port_bytes_def numeral_2_eq_2)
  have lt: "unat (w :: u16) < 65536" for w using unsigned_less [of w, where 'a = nat] by simp
  have name: "\<exists>h s. numeric_getnameinfo ep = Some (h, s) \<and>
         numeric_getaddrinfo False (Some h) s 0 = (0, \<lparr>ai_family = sa_family ep, ai_addr = ep\<rparr>) \<and>
         set h \<subseteq> ip_chars \<and> h \<noteq> [] \<and> (CHR '':'' \<in> set h \<longleftrightarrow> sa_family ep = AF_INET6) \<and>
         set s \<subseteq> {c. is_digit_in 10 c} \<and> s \<noteq> []" if "canonical_sockaddr ep" for ep
    using canonical_sockaddr_cases [OF that]
  proof (elim disjE conjE)
    assume ep: "sa_family ep = AF_INET" "ep = sockaddr_v4 (take 4 (drop 4 ep)) (unat (be16 ep 2))" "length (take 4 (drop 4 ep)) = 4"
    let ?h = "v4_ntop (take 4 (drop 4 ep))" and ?s = "dec_string (unat (be16 ep 2))"
    have "numeric_getaddrinfo False (Some ?h) ?s 0 = (0, \<lparr>ai_family = sa_family ep, ai_addr = ep\<rparr>)"
      using ep lt by (simp add: numeric_getaddrinfo_def is_number_num_string digits_value_numeral v4_pton_ntop)
    then show ?thesis
      using ep set_ntop(1) [of "take 4 (drop 4 ep)"] v4_ntop_nonempty [OF ep(3)] num_string_set(1)
      by (intro exI [of _ ?h] exI [of _ ?s]) (auto simp: numeric_getnameinfo_def af_defs)
  next
    assume ep: "sa_family ep = AF_INET6" "ep = sockaddr_v6 (take 16 (drop 8 ep)) (unat (be16 ep 2))" "length (take 16 (drop 8 ep)) = 16"
    let ?h = "v6_ntop (take 16 (drop 8 ep))" and ?s = "dec_string (unat (be16 ep 2))"
    have "numeric_getaddrinfo False (Some ?h) ?s 0 = (0, \<lparr>ai_family = sa_family ep, ai_addr = ep\<rparr>)"
      using ep lt by (simp add: numeric_getaddrinfo_def is_number_num_string digits_value_numeral v4_pton_v6_ntop v6_pton_ntop)
    then show ?thesis
      using ep set_ntop(2) [of "take 16 (drop 8 ep)"] v6_ntop_colon [of "take 16 (drop 8 ep)"] num_string_set(1)
      by (intro exI [of _ ?h] exI [of _ ?s]) (auto simp: numeric_getnameinfo_def af_defs)
  qed
  show ?thesis
    unfolding libc_text_def numeric_libc_def libc.simps
    using v4_pton_ntop v6_pton_ntop set_ntop v6_ntop_colon v4_ntop_nonempty port name
    by (simp add: af_defs) blast
qed

end
