(* ===== verification/Wg_Config_Properties.thy ===== *)
theory Wg_Config_Properties
  imports Wg_Libc
begin

text \<open>
  The properties of the configuration parser of \<open>config.c\<close>, each with an instance at a concrete
  input under the numeric environment of \<open>Wg_Libc\<close>.
\<close>

lemmas number_defs = is_number_def is_digit_in_def digit_value_def digits_value_def Let_def

text \<open>
  C2. Reading a configuration is memory safe and keeps its data well formed. From
  \<open>config_read_init\<close>, whatever lines follow, \<open>config_read_line\<close> never dereferences a null pointer;
  and a device that \<open>config_read_finish\<close> returns has keys of 32 bytes, endpoints of 28, allowed IPs
  whose family is IPv4 with a prefix of at most 32 or IPv6 with one of at most 128, and a public key
  for every peer.
\<close>

theorem config_reader_safe:
  assumes "libc_ok L"
  shows "safe (\<lambda>dev. device_ok dev \<and> list_all (\<lambda>p. has_flag (p_flags p) WGPEER_HAS_PUBLIC_KEY) (peers dev))
    (and_then (fold_outcome (config_read_line L) lines (config_read_init app)) config_read_finish)"
proof -
  have "safe ctx_ok (fold_outcome (config_read_line L) lines (config_read_init app))"
    by (rule safe_fold_outcome) (simp_all add: config_read_line_safe [OF assms] config_read_init_ok)
  then show ?thesis
    unfolding safe_and_then
    by (rule safe_mono) (auto simp: config_read_finish_def ctx_ok_def list_all_iff list_ex_iff)
qed

definition sample_lines :: "string list" where
  "sample_lines = [''[Interface]'', ''ListenPort = 51820'', ''[Peer]'',
     ''PublicKey = AAAAAAAAAAAAAAAAAAAAAAAAAAAAAAAAAAAAAAAAAAA= # the key'', ''AllowedIPs = 10.0.0.0/8, +10.1.2.3'']"

theorem config_reader_safe_witness:
  "libc_ok numeric_libc \<and>
   safe (\<lambda>dev. device_ok dev \<and> list_all (\<lambda>p. has_flag (p_flags p) WGPEER_HAS_PUBLIC_KEY) (peers dev))
    (and_then (fold_outcome (config_read_line numeric_libc) sample_lines (config_read_init False)) config_read_finish)"
  using config_reader_safe [OF numeric_libc_ok] numeric_libc_ok by blast

text \<open>
  C3. The same for the arguments of \<open>wg set\<close>: for every argument vector \<open>config_read_cmd\<close> returns a
  well-formed device all of whose peers have a public key, or reports an error; it never follows the
  null \<open>peer\<close> pointer, whatever the order of the arguments.
\<close>

theorem config_read_cmd_safe:
  assumes "libc_ok L"
  shows "safe (\<lambda>dev. device_ok dev \<and> list_all (\<lambda>p. has_flag (p_flags p) WGPEER_HAS_PUBLIC_KEY) (peers dev))
    (config_read_cmd L argv)"
  unfolding config_read_cmd_def
  by (rule config_cmd_loop_safe [OF assms]) (simp add: cmd_ok_def chain_ok_def zero_device_def device_ok_def)

theorem config_read_cmd_safe_witness:
  "libc_ok numeric_libc \<and>
   safe (\<lambda>dev. device_ok dev \<and> list_all (\<lambda>p. has_flag (p_flags p) WGPEER_HAS_PUBLIC_KEY) (peers dev))
    (config_read_cmd numeric_libc [''endpoint'', ''10.0.0.1:1''])"
  using config_read_cmd_safe [OF numeric_libc_ok] numeric_libc_ok by blast

text \<open>
  C12. On a platform whose \<open>unsigned long\<close> is wider than 32 bits, \<open>parse_fwmark\<close> accepts exactly
  \<open>off\<close> in any case, decimal numbers and \<open>0x\<close>-prefixed hexadecimal numbers below \<open>2 ^ 32\<close>, stores the
  number they denote and sets the flag; every other text is an error.
\<close>

theorem parse_fwmark_correct:
  assumes "32 < ulong_bits L"
  shows "parse_fwmark L fl v =
    (case fwmark_value v of
       Some n \<Rightarrow> if n < 2 ^ 32 then Done (of_nat n, fl OR WGDEVICE_HAS_FWMARK) else Error (Bad_fwmark v)
     | None \<Rightarrow> Error (Bad_fwmark v))"
  by (rule parse_fwmark_eq [OF assms])

theorem parse_fwmark_correct_witness:
  "32 < ulong_bits numeric_libc \<and>
   parse_fwmark numeric_libc 0 ''0xca6c'' = Done (0xca6c, WGDEVICE_HAS_FWMARK) \<and>
   parse_fwmark numeric_libc 0 ''4294967296'' = Error (Bad_fwmark ''4294967296'')"
proof -
  have w: "32 < ulong_bits numeric_libc" by (simp add: numeric_libc_def)
  have v: "fwmark_value ''0xca6c'' = Some 51820" "fwmark_value ''4294967296'' = Some 4294967296"
    by (simp_all add: fwmark_value_def strcasecmp_eq_def tolower_def number_defs)
  show ?thesis
    using w parse_fwmark_correct [OF w, of 0 "''0xca6c''"] parse_fwmark_correct [OF w, of 0 "''4294967296''"]
    by (simp add: v)
qed

text \<open>Where \<open>unsigned long\<close> has 32 bits \<open>strtoul\<close> saturates at the largest mark, which is then accepted.\<close>

lemma parse_fwmark_saturates:
  "parse_fwmark (numeric_libc\<lparr>ulong_bits := 32\<rparr>) 0 ''4294967296'' = Done (0xffffffff, WGDEVICE_HAS_FWMARK)"
  by (simp add: parse_fwmark_def strcasecmp_eq_def tolower_def number_defs wg_simps first_char_def numeric_libc_def
      strtoul_number)

text \<open>
  C4. \<open>parse_allowedips\<close> reads its comma-separated entries in order, stops at the first bad one, and
  otherwise appends exactly their values to the peer's chain: nothing that was there is lost or
  reordered, the pointer to the last entry ends at the last one, and the peer's replace flag is left
  set exactly if no entry is incremental (prefixed by \<open>+\<close> or \<open>-\<close>).
\<close>

theorem parse_allowedips_correct:
  assumes "chain_ok (allowedips peer, lp)" "value \<noteq> []"
  shows "parse_allowedips L peer lp value =
    and_then (map_outcome (entry_value L) (strsep_all (CHR '','') value)) (\<lambda>as.
      Done (peer\<lparr>p_flags :=
               (if list_ex incremental (strsep_all (CHR '','') value)
                then p_flags peer AND NOT WGPEER_REPLACE_ALLOWEDIPS
                else p_flags peer OR WGPEER_REPLACE_ALLOWEDIPS),
             allowedips := allowedips peer @ as\<rparr>,
            Some (length (allowedips peer) + length as - 1)))"
  by (rule parse_allowedips_eq [OF assms])

lemmas text_eval =
  entry_value_def parse_entry_eq parse_ip_prefix_def first_char_def strsep_def split_first_def parse_ip_def strchr_def
  parse_cidr_def v4_pton_def zero_allowedip_def overwrite_def number_defs wg_simps numeric_libc_def af_defs flag_defs
  strtoul_number incremental_def

lemma sample_entries:
  "map_outcome (entry_value numeric_libc) (strsep_all (CHR '','') ''10.0.0.0/8,-10.1.2.3'') =
     Done [\<lparr>family = 2, ip = [10, 0, 0, 0] @ replicate 12 0, cidr = 8, a_flags = 0\<rparr>,
           \<lparr>family = 2, ip = [10, 1, 2, 3] @ replicate 12 0, cidr = 32, a_flags = WGALLOWEDIP_REMOVE_ME\<rparr>]"
  "list_ex incremental (strsep_all (CHR '','') ''10.0.0.0/8,-10.1.2.3'')"
  by (simp_all add: text_eval)

theorem parse_allowedips_correct_witness:
  "chain_ok (allowedips zero_peer, None) \<and>
   parse_allowedips numeric_libc zero_peer None ''10.0.0.0/8,-10.1.2.3'' =
     Done (zero_peer\<lparr>p_flags := 0, allowedips :=
       [\<lparr>family = 2, ip = [10, 0, 0, 0] @ replicate 12 0, cidr = 8, a_flags = 0\<rparr>,
        \<lparr>family = 2, ip = [10, 1, 2, 3] @ replicate 12 0, cidr = 32, a_flags = WGALLOWEDIP_REMOVE_ME\<rparr>]\<rparr>, Some 1)"
proof -
  have c: "chain_ok (allowedips zero_peer, None)" by (simp add: chain_ok_def zero_peer_def)
  show ?thesis
    using c parse_allowedips_correct [OF c, of "''10.0.0.0/8,-10.1.2.3''" numeric_libc]
    unfolding sample_entries(1) using sample_entries(2)
    by (simp add: zero_peer_def)
qed

text \<open>
  C13. \<open>validate_netmask\<close> warns exactly when the address has a non-zero host part: read as one
  big-endian number, an IPv4 or IPv6 address passes if and only if it is a multiple of two to the
  number of host bits.
\<close>

theorem validate_netmask_correct:
  assumes "allowedip_ok a"
  shows "validate_netmask a \<longleftrightarrow>
    (if family a = of_nat AF_INET then be_value (take 4 (ip a)) mod 2 ^ (32 - unat (cidr a)) = 0
     else be_value (ip a) mod 2 ^ (128 - unat (cidr a)) = 0)"
  using assms validate_words_iff [of 1 "ip a" "unat (cidr a)"] validate_words_iff [of 4 "ip a" "unat (cidr a)"]
  by (auto simp: validate_netmask_def allowedip_ok_def af_defs)

theorem validate_netmask_correct_witness:
  "allowedip_ok \<lparr>family = 2, ip = [10, 1, 0, 0] @ replicate 12 0, cidr = 8, a_flags = 0\<rparr> \<and>
   \<not> validate_netmask \<lparr>family = 2, ip = [10, 1, 0, 0] @ replicate 12 0, cidr = 8, a_flags = 0\<rparr>"
proof -
  have ok: "allowedip_ok \<lparr>family = 2, ip = [10, 1, 0, 0] @ replicate 12 0, cidr = 8, a_flags = 0\<rparr>"
    by (simp add: allowedip_ok_def af_defs)
  show ?thesis
    using ok validate_netmask_correct [OF ok] by (simp add: af_defs be_value_def)
qed

text \<open>
  C10. Resolving an endpoint hangs only when the user asked for it: \<open>parse_endpoint\<close> fails to return
  if and only if the variable \<open>WG_ENDPOINT_RESOLUTION_RETRIES\<close> is set to \<open>infinity\<close>, the endpoint has a host and a
  port, and the resolver answers every attempt with a transient failure. In particular it returns when the variable is
  not set.
\<close>

theorem parse_endpoint_terminates:
  "parse_endpoint L ep v = Diverge \<longleftrightarrow>
     getenv L ''WG_ENDPOINT_RESOLUTION_RETRIES'' = Some ''infinity'' \<and>
     (\<exists>h p. split_endpoint v = Done (h, p) \<and> (\<forall>k. transient (fst (answer L h p k))))"
  unfolding parse_endpoint_diverges_iff parse_dns_retries_infinity ..

text \<open>
  C11. With a bound on the retries the resolver is asked at most once more than the bound, every
  pause is at most 20 seconds, and the answer the loop ends with is the one of the first attempt that
  is not a transient failure, or of the last attempt allowed.
\<close>

theorem resolve_loop_bounded:
  assumes "0 \<le> r"
  shows "\<exists>k ps. resolve_loop L h p 0 1000000 r = Some (answer L h p k, ps) \<and> length ps = k \<and> int k \<le> r \<and>
    (\<forall>j<k. transient (fst (answer L h p j))) \<and> (transient (fst (answer L h p k)) \<longrightarrow> int k = r) \<and>
    (\<forall>x\<in>set ps. x \<le> 20000000)"
  by (rule resolve_loop_total [OF assms]) simp

theorem resolve_loop_bounded_witness:
  "(0 :: int) \<le> 15 \<and> (\<exists>k ps. resolve_loop numeric_libc ''10.0.0.1'' ''51820'' 0 1000000 15
      = Some (answer numeric_libc ''10.0.0.1'' ''51820'' k, ps) \<and> length ps = k \<and> int k \<le> 15)"
  using resolve_loop_bounded [of 15 numeric_libc "''10.0.0.1''" "''51820''"] by fastforce

end
