(* ===== verification/Wg_Showconf.thy ===== *)
theory Wg_Showconf
  imports Wg_Libc
begin

text \<open>
  \<open>wg showconf\<close> (\<open>wireguard-tools/src/showconf.c\<close>): the text it prints for a device, and that reading
  this text with the configuration parser gives the device's configuration back.
\<close>

subsection \<open>Printing\<close>

definition allowedip_text :: "libc \<Rightarrow> wgallowedip \<Rightarrow> string option" where
  "allowedip_text L a =
     (if family a = of_nat AF_INET then inet_ntop L AF_INET (take 4 (ip a))
      else if family a = of_nat AF_INET6 then inet_ntop L AF_INET6 (ip a)
      else None)"

fun showconf_allowedips :: "libc \<Rightarrow> wgallowedip list \<Rightarrow> string" where
  "showconf_allowedips L [] = []"
| "showconf_allowedips L (a # next_allowedip) =
     (case allowedip_text L a of
        None \<Rightarrow> []
      | Some t \<Rightarrow> t @ ''/'' @ dec_string (unat (cidr a)) @ (if next_allowedip \<noteq> [] then '', '' else []))
     @ showconf_allowedips L next_allowedip"

definition showconf_endpoint :: "libc \<Rightarrow> bytes \<Rightarrow> string" where
  "showconf_endpoint L ep =
     (if sa_family ep = AF_INET \<or> sa_family ep = AF_INET6 then
        let addr_len = (if sa_family ep = AF_INET then 16 else if sa_family ep = AF_INET6 then 28 else 0)
        in case getnameinfo L (take addr_len ep) of
             Some (host, service) \<Rightarrow>
               if sa_family ep = AF_INET6 \<and> strchr host (CHR '':'') \<noteq> None
               then ''Endpoint = ['' @ host @ '']:'' @ service @ [newline]
               else ''Endpoint = '' @ host @ '':'' @ service @ [newline]
           | None \<Rightarrow> []
      else [])"

definition showconf_peer :: "libc \<Rightarrow> wgpeer \<Rightarrow> string" where
  "showconf_peer L peer =
     ''[Peer]'' @ [newline] @ ''PublicKey = '' @ key_to_base64 (public_key peer) @ [newline]
     @ (if has_flag (p_flags peer) WGPEER_HAS_PRESHARED_KEY
        then ''PresharedKey = '' @ key_to_base64 (preshared_key peer) @ [newline] else [])
     @ (if allowedips peer \<noteq> [] then ''AllowedIPs = '' else [])
     @ showconf_allowedips L (allowedips peer)
     @ (if allowedips peer \<noteq> [] then [newline] else [])
     @ showconf_endpoint L (endpoint peer)
     @ (if persistent_keepalive_interval peer \<noteq> 0
        then ''PersistentKeepalive = '' @ dec_string (unat (persistent_keepalive_interval peer)) @ [newline] else [])"

fun showconf_peers :: "libc \<Rightarrow> wgpeer list \<Rightarrow> string" where
  "showconf_peers L [] = []"
| "showconf_peers L (peer # next_peer) =
     showconf_peer L peer @ (if next_peer \<noteq> [] then [newline] else []) @ showconf_peers L next_peer"

definition showconf_device :: "libc \<Rightarrow> wgdevice \<Rightarrow> string" where
  "showconf_device L dev =
     ''[Interface]'' @ [newline]
     @ (if listen_port dev \<noteq> 0 then ''ListenPort = '' @ dec_string (unat (listen_port dev)) @ [newline] else [])
     @ (if fwmark dev \<noteq> 0 then ''FwMark = 0x'' @ hex_string (unat (fwmark dev)) @ [newline] else [])
     @ (if has_flag (d_flags dev) WGDEVICE_HAS_PRIVATE_KEY
        then ''PrivateKey = '' @ key_to_base64 (private_key dev) @ [newline] else [])
     @ [newline] @ showconf_peers L (peers dev)"

text \<open>
  The whole program: \<open>get_device\<close> is \<open>ipc_get_device\<close>; the result is the exit status and what is
  printed.
\<close>

definition showconf_main :: "libc \<Rightarrow> (string \<Rightarrow> (int, wgdevice) outcome) \<Rightarrow> string list \<Rightarrow> int \<times> string" where
  "showconf_main L get_device argv =
     (if length argv \<noteq> 2 then (1, [])
      else case get_device (argv ! 1) of
             Done dev \<Rightarrow> (0, showconf_device L dev)
           | _ \<Rightarrow> (1, []))"

subsection \<open>The lines it prints\<close>

text \<open>The same text as a list of lines without their line feeds.\<close>

definition endpoint_lines :: "libc \<Rightarrow> bytes \<Rightarrow> string list" where
  "endpoint_lines L ep = (if showconf_endpoint L ep = [] then [] else [butlast (showconf_endpoint L ep)])"

definition peer_lines :: "libc \<Rightarrow> wgpeer \<Rightarrow> string list" where
  "peer_lines L peer =
     [''[Peer]'', ''PublicKey = '' @ key_to_base64 (public_key peer)]
     @ (if has_flag (p_flags peer) WGPEER_HAS_PRESHARED_KEY
        then [''PresharedKey = '' @ key_to_base64 (preshared_key peer)] else [])
     @ (if allowedips peer \<noteq> [] then [''AllowedIPs = '' @ showconf_allowedips L (allowedips peer)] else [])
     @ endpoint_lines L (endpoint peer)
     @ (if persistent_keepalive_interval peer \<noteq> 0
        then [''PersistentKeepalive = '' @ dec_string (unat (persistent_keepalive_interval peer))] else [])"

fun peers_lines :: "libc \<Rightarrow> wgpeer list \<Rightarrow> string list" where
  "peers_lines L [] = []"
| "peers_lines L (p # ps) = peer_lines L p @ (if ps \<noteq> [] then [[]] else []) @ peers_lines L ps"

definition device_lines :: "libc \<Rightarrow> wgdevice \<Rightarrow> string list" where
  "device_lines L dev =
     [''[Interface]'']
     @ (if listen_port dev \<noteq> 0 then [''ListenPort = '' @ dec_string (unat (listen_port dev))] else [])
     @ (if fwmark dev \<noteq> 0 then [''FwMark = 0x'' @ hex_string (unat (fwmark dev))] else [])
     @ (if has_flag (d_flags dev) WGDEVICE_HAS_PRIVATE_KEY then [''PrivateKey = '' @ key_to_base64 (private_key dev)] else [])
     @ [[]] @ peers_lines L (peers dev)"

abbreviation unlines :: "string list \<Rightarrow> string" where
  "unlines ls \<equiv> concat (map (\<lambda>l. l @ [newline]) ls)"

lemma showconf_endpoint_lines: "showconf_endpoint L ep = unlines (endpoint_lines L ep)"
proof (cases "showconf_endpoint L ep = []")
  case False
  have "last (showconf_endpoint L ep) = newline"
    using False by (auto simp: showconf_endpoint_def Let_def split: if_split_asm option.split_asm prod.split_asm)
  with False show ?thesis
    using append_butlast_last_id [OF False] by (simp add: endpoint_lines_def)
qed (simp add: endpoint_lines_def)

lemma showconf_peer_lines: "showconf_peer L p = unlines (peer_lines L p)"
  by (simp add: showconf_peer_def peer_lines_def showconf_endpoint_lines)

lemma showconf_peers_lines: "showconf_peers L ps = unlines (peers_lines L ps)"
  by (induction ps) (simp_all add: showconf_peer_lines)

lemma showconf_device_lines: "showconf_device L dev = unlines (device_lines L dev)"
  by (simp add: showconf_device_def device_lines_def showconf_peers_lines)

subsection \<open>Reading one line\<close>

definition plain :: "string \<Rightarrow> bool" where
  "plain s = (\<forall>c\<in>set s. \<not> isspace c \<and> c \<noteq> CHR ''#'')"

lemma plain_append [simp]: "plain (s @ t) = (plain s \<and> plain t)"
  by (auto simp: plain_def)

lemma plain_Nil [simp]: "plain []"
  by (simp add: plain_def)

lemma plain_Cons [simp]: "plain (c # s) = (\<not> isspace c \<and> c \<noteq> CHR ''#'' \<and> plain s)"
  by (auto simp: plain_def)

lemma digit_plain: "is_digit_in 16 c \<Longrightarrow> \<not> isspace c \<and> c \<noteq> CHR ''#''"
  using is_digit_not_space [of 16 c] by (auto simp: is_digit_in_def digit_value_def)

lemma plain_numeral [simp]: "plain (dec_string n)" "plain (hex_string n)"
  using num_string_set [of n] digit_plain digit_10_in_16 by (auto simp: plain_def)

lemma plain_ip: "set s \<subseteq> ip_chars \<Longrightarrow> plain s"
  using digit_plain by (fastforce simp: plain_def ip_chars_def isspace_def)

lemma b64_space: "isspace c \<or> c = CHR ''#'' \<Longrightarrow> b64 sc c < 0"
proof -
  assume c: "isspace c \<or> c = CHR ''#''"
  have tab: "list_all (\<lambda>n. base64_value n < 0) [32, 9, 10, 11, 12, 13, 35]" by code_simp
  from c have "char_int c \<in> {32, 9, 10, 11, 12, 13, 35}" by (auto simp: isspace_def)
  with tab show ?thesis by (auto simp: b64_def plain_char_def)
qed

lemma plain_key [simp]:
  assumes "length k = 32"
  shows "plain (key_to_base64 k)"
proof -
  have ok: "base64_ok True (key_to_base64 k)" by (rule base64_decode_encode(1) [OF assms])
  have "\<not> isspace c \<and> c \<noteq> CHR ''#''" if c: "c \<in> set (key_to_base64 k)" for c
  proof -
    obtain i where i: "i < 44" "c = key_to_base64 k ! i" using c by (auto simp: in_set_conv_nth)
    show ?thesis
    proof (cases "i < 43")
      case True
      with ok i have "0 \<le> b64 True c" by (auto simp: base64_ok_def)
      then show ?thesis using b64_space [of c True] by auto
    next
      case False
      with i ok have "c = CHR ''=''" by (simp add: base64_ok_def less_Suc_eq numeral_eq_Suc)
      then show ?thesis by (simp add: isspace_def)
    qed
  qed
  then show ?thesis by (simp add: plain_def)
qed

text \<open>What the reader makes of a printed line: spaces and the line feed go, the rest stays.\<close>

lemma clean_line_plain:
  assumes "CHR ''#'' \<notin> set s"
  shows "clean_line L (s @ [newline]) = filter (\<lambda>c. \<not> isspace c) s"
proof -
  have "takeWhile (\<lambda>c. c \<noteq> CHR ''#'') (s @ [newline]) = s @ [newline]"
    using assms by (auto simp: takeWhile_append)
  then show ?thesis by (simp add: clean_line_def COMMENT_CHAR_def wg_simps isspace_def)
qed

lemma filter_plain: "plain s \<Longrightarrow> filter (\<lambda>c. \<not> isspace c) s = s"
  by (induction s) auto

lemma plain_no_comment: "plain s \<Longrightarrow> CHR ''#'' \<notin> set s"
  by (auto simp: plain_def)

lemma config_read_line_plain:
  assumes "plain v" "v \<noteq> []" "CHR ''#'' \<notin> set key"
  shows "config_read_line L ((key @ v) @ [newline]) ctx = process_line L ctx (filter (\<lambda>c. \<not> isspace c) key @ v)"
  using assms plain_no_comment [OF assms(1)]
  by (simp only: config_read_line_def clean_line_plain Let_def) (simp add: clean_line_plain filter_plain del: append_assoc)

lemma get_value_hit: "v \<noteq> [] \<Longrightarrow> get_value (key @ v) key = Some v"
  by (simp add: get_value_def strncasecmp_eq_def)

lemma get_value_miss:
  assumes "i < length line" "i < length key" "tolower (line ! i) \<noteq> tolower (key ! i)"
  shows "get_value line key = None"
proof -
  have "map tolower (take (length key) line) ! i \<noteq> map tolower (take (length key) key) ! i"
    using assms by simp
  then have "\<not> strncasecmp_eq line key (length key)"
    unfolding strncasecmp_eq_def by metis
  then show ?thesis by (simp add: get_value_def)
qed

lemma strcasecmp_hd: "s \<noteq> [] \<Longrightarrow> t \<noteq> [] \<Longrightarrow> tolower (hd s) \<noteq> tolower (hd t) \<Longrightarrow> \<not> strcasecmp_eq s t"
  by (cases s; cases t) (auto simp: strcasecmp_eq_def)

text \<open>The keys are told apart by their letters.\<close>

lemma first_letter:
  "\<not> strcasecmp_eq (c # s) ''[Interface]''" "\<not> strcasecmp_eq (c # s) ''[Peer]''" if "tolower c \<noteq> CHR ''[''"
  using that by (auto simp: strcasecmp_eq_def tolower_def)

lemma letters:
  "tolower CHR ''L'' \<noteq> CHR ''[''" "tolower CHR ''F'' \<noteq> CHR ''[''" "tolower CHR ''P'' \<noteq> CHR ''[''"
  "tolower CHR ''E'' \<noteq> CHR ''[''" "tolower CHR ''A'' \<noteq> CHR ''[''"
  by code_simp+

lemma read_listen_port:
  assumes "libc_text L" "is_device_section ctx" "p < 65536"
  shows "config_read_line L ((''ListenPort = '' @ dec_string p) @ [newline]) ctx =
    Done (ctx\<lparr>device := (device ctx)\<lparr>listen_port := of_nat p, d_flags := d_flags (device ctx) OR WGDEVICE_HAS_LISTEN_PORT\<rparr>\<rparr>)"
proof -
  have "parse_port L fl (dec_string p) = Done (of_nat p, fl OR WGDEVICE_HAS_LISTEN_PORT)" for fl
    using assms(1,3) unfolding libc_text_def parse_port_def by (fastforce split: prod.splits)
  moreover have "get_value (''ListenPort='' @ dec_string p) ''ListenPort='' = Some (dec_string p)"
    by (rule get_value_hit) simp
  ultimately show ?thesis
    using assms(2) first_letter [OF letters(1), of "''istenPort='' @ dec_string p"]
    by (subst config_read_line_plain) (simp_all add: isspace_def process_line_def process_device_line_def Let_def tolower_def)
qed

lemma digits_hex_value: "fwmark_value (''0x'' @ hex_string n) = Some n"
proof -
  have "\<not> strcasecmp_eq (''0x'' @ hex_string n) ''off''" by (simp add: strcasecmp_eq_def tolower_def)
  then show ?thesis by (simp add: fwmark_value_def is_number_num_string digits_value_numeral)
qed

lemma read_fwmark:
  assumes "32 < ulong_bits L" "is_device_section ctx"
  shows "config_read_line L ((''FwMark = '' @ ''0x'' @ hex_string (unat m)) @ [newline]) ctx =
    Done (ctx\<lparr>device := (device ctx)\<lparr>fwmark := m, d_flags := d_flags (device ctx) OR WGDEVICE_HAS_FWMARK\<rparr>\<rparr>)"
proof -
  have "unat m < 2 ^ 32" for m :: u32 using unsigned_less [of m, where 'a = nat] by simp
  then have "parse_fwmark L fl (''0x'' @ hex_string (unat m)) = Done (m, fl OR WGDEVICE_HAS_FWMARK)" for fl
    using parse_fwmark_eq [OF assms(1), of fl "''0x'' @ hex_string (unat m)"] unfolding digits_hex_value by simp
  moreover have "get_value (''FwMark='' @ ''0x'' @ hex_string (unat m)) ''FwMark='' = Some (''0x'' @ hex_string (unat m))"
    by (rule get_value_hit) simp
  moreover have "get_value (''FwMark='' @ ''0x'' @ hex_string (unat m)) ''ListenPort='' = None"
    by (rule get_value_miss [of 0]) (simp_all add: tolower_def)
  ultimately show ?thesis
    using assms(2) first_letter [OF letters(2), of "''wMark='' @ ''0x'' @ hex_string (unat m)"]
    by (subst config_read_line_plain) (simp_all add: isspace_def process_line_def process_device_line_def Let_def tolower_def)
qed

lemma parse_key_printed:
  assumes "length k = 32" "length old = WG_KEY_LEN"
  shows "parse_key L old (key_to_base64 k) = Done k"
  using key_from_base64_iff [of old "char_signed L" "key_to_base64 k" k] assms by (simp add: parse_key_def WG_KEY_LEN_def)

lemma key_nonempty [simp]: "key_to_base64 k \<noteq> []"
  using length_key_to_base64 [of k] by (metis list.size(3) zero_neq_numeral)

lemma read_private_key:
  assumes "is_device_section ctx" "length k = 32" "length (private_key (device ctx)) = WG_KEY_LEN"
  shows "config_read_line L ((''PrivateKey = '' @ key_to_base64 k) @ [newline]) ctx =
    Done (ctx\<lparr>device := (device ctx)\<lparr>private_key := k, d_flags := d_flags (device ctx) OR WGDEVICE_HAS_PRIVATE_KEY\<rparr>\<rparr>)"
proof -
  let ?l = "''PrivateKey='' @ key_to_base64 k"
  have "get_value ?l ''PrivateKey='' = Some (key_to_base64 k)"
    by (rule get_value_hit) simp
  moreover have "get_value ?l ''ListenPort='' = None" "get_value ?l ''FwMark='' = None"
    by (rule get_value_miss [of 0]; simp add: tolower_def)+
  ultimately show ?thesis
    using assms first_letter [OF letters(3), of "''rivateKey='' @ key_to_base64 k"] parse_key_printed [OF assms(2,3), of L]
    by (subst config_read_line_plain) (simp_all add: isspace_def process_line_def process_device_line_def Let_def tolower_def)
qed

text \<open>The context while a peer is read: the peers before it and the peer itself.\<close>

definition peer_ctx :: "wgdevice \<Rightarrow> wgpeer list \<Rightarrow> wgpeer \<Rightarrow> nat option \<Rightarrow> config_ctx" where
  "peer_ctx dev ps p lp =
     \<lparr>device = dev\<lparr>peers := ps @ [p]\<rparr>, ctx_last_peer = Some (length ps), ctx_last_allowedip = lp,
      is_peer_section = True, is_device_section = False\<rparr>"

lemma on_last_peer_ctx:
  "on_last_peer (peer_ctx dev ps p lp) f = and_then (f p) (\<lambda>(p', lp'). Done (peer_ctx dev ps p' lp'))"
  by (simp add: on_last_peer_def peer_ctx_def)

lemma process_line_peer:
  assumes "tolower (hd line) \<noteq> CHR ''[''" "line \<noteq> []"
  shows "process_line L (peer_ctx dev ps p lp) line = process_peer_line L (peer_ctx dev ps p lp) line"
  using assms first_letter [of "hd line" "tl line"] by (simp add: process_line_def peer_ctx_def)

lemma ctx_last_allowedip_peer_ctx [simp]: "ctx_last_allowedip (peer_ctx dev ps p lp) = lp"
  by (simp add: peer_ctx_def)

lemma read_peer_section:
  assumes "chain_ok (peers (device ctx), ctx_last_peer ctx)"
  shows "config_read_line L (''[Peer]'' @ [newline]) ctx =
    Done (peer_ctx (device ctx) (peers (device ctx)) (zero_peer\<lparr>p_flags := WGPEER_REPLACE_ALLOWEDIPS\<rparr>) None)"
proof -
  have "clean_line L (''[Peer]'' @ [newline]) = ''[Peer]''"
    by (subst clean_line_plain) (simp_all add: isspace_def)
  moreover have "\<not> strcasecmp_eq ''[Peer]'' ''[Interface]''" "strcasecmp_eq ''[Peer]'' ''[Peer]''"
    by (simp_all add: strcasecmp_eq_def)
  ultimately show ?thesis
    by (simp add: config_read_line_def process_line_def link_last_ok [OF assms] peer_ctx_def zero_peer_def)
qed

lemma read_interface_section:
  "config_read_line L (''[Interface]'' @ [newline]) ctx = Done (ctx\<lparr>is_peer_section := False, is_device_section := True\<rparr>)"
proof -
  have "clean_line L (''[Interface]'' @ [newline]) = ''[Interface]''"
    by (subst clean_line_plain) (simp_all add: isspace_def)
  then show ?thesis by (simp add: config_read_line_def process_line_def strcasecmp_eq_def)
qed

lemma read_empty_line: "config_read_line L [newline] ctx = Done ctx"
  using clean_line_plain [of "[]" L] by (simp add: config_read_line_def)

lemma read_public_key:
  assumes "length k = 32" "length (public_key p) = WG_KEY_LEN"
  shows "config_read_line L ((''PublicKey = '' @ key_to_base64 k) @ [newline]) (peer_ctx dev ps p lp) =
    Done (peer_ctx dev ps (p\<lparr>public_key := k, p_flags := p_flags p OR WGPEER_HAS_PUBLIC_KEY\<rparr>) lp)"
proof -
  let ?l = "''PublicKey='' @ key_to_base64 k"
  have "get_value ?l ''PublicKey='' = Some (key_to_base64 k)" by (rule get_value_hit) simp
  moreover have "get_value ?l ''Endpoint='' = None" by (rule get_value_miss [of 0]; simp add: tolower_def)
  moreover have "process_line L (peer_ctx dev ps p lp) ?l = process_peer_line L (peer_ctx dev ps p lp) ?l"
    by (rule process_line_peer) (simp_all add: letters)
  ultimately show ?thesis
    using parse_key_printed [OF assms, of L]
    by (subst config_read_line_plain) (simp_all add: isspace_def process_peer_line_def Let_def on_last_peer_ctx assms)
qed

lemma read_preshared_key:
  assumes "length k = 32" "length (preshared_key p) = WG_KEY_LEN"
  shows "config_read_line L ((''PresharedKey = '' @ key_to_base64 k) @ [newline]) (peer_ctx dev ps p lp) =
    Done (peer_ctx dev ps (p\<lparr>preshared_key := k, p_flags := p_flags p OR WGPEER_HAS_PRESHARED_KEY\<rparr>) lp)"
proof -
  let ?l = "''PresharedKey='' @ key_to_base64 k"
  have "get_value ?l ''PresharedKey='' = Some (key_to_base64 k)" by (rule get_value_hit) simp
  moreover have "get_value ?l ''Endpoint='' = None" "get_value ?l ''AllowedIPs='' = None"
    by (rule get_value_miss [of 0]; simp add: tolower_def)+
  moreover have "get_value ?l ''PublicKey='' = None" "get_value ?l ''PersistentKeepalive='' = None"
    by (rule get_value_miss [of 1] get_value_miss [of 2]; simp add: tolower_def)+
  moreover have "process_line L (peer_ctx dev ps p lp) ?l = process_peer_line L (peer_ctx dev ps p lp) ?l"
    by (rule process_line_peer) (simp_all add: letters)
  ultimately show ?thesis
    using parse_key_printed [OF assms, of L]
    by (subst config_read_line_plain) (simp_all add: isspace_def process_peer_line_def Let_def on_last_peer_ctx assms)
qed

lemma read_keepalive:
  assumes "32 \<le> ulong_bits L"
  shows "config_read_line L ((''PersistentKeepalive = '' @ dec_string (unat n)) @ [newline]) (peer_ctx dev ps p lp) =
    Done (peer_ctx dev ps (p\<lparr>persistent_keepalive_interval := n, p_flags := p_flags p OR WGPEER_HAS_PERSISTENT_KEEPALIVE_INTERVAL\<rparr>) lp)"
proof -
  let ?l = "''PersistentKeepalive='' @ dec_string (unat n)"
  have n: "unat n < 2 ^ 16" for n :: u16 using unsigned_less [of n, where 'a = nat] by simp
  have "\<not> strcasecmp_eq (dec_string (unat n)) ''off''"
  proof -
    obtain d where d: "d < 10" "hd (dec_string (unat n)) = digit_char d" using num_string_digit_chars [of 10 "unat n"] by auto
    have "tolower (digit_char d) \<noteq> CHR ''o''"
      using d(1) digit_value_digit_char [of d] tolower_digit [of d "digit_char d"]
      by (auto simp: digit_value_def)
    then show ?thesis using d(2) by (intro strcasecmp_hd) (auto simp: tolower_def)
  qed
  then have "parse_persistent_keepalive L fl (dec_string (unat n)) = Done (n, fl OR WGPEER_HAS_PERSISTENT_KEEPALIVE_INTERVAL)" for fl
    using n by (simp add: parse_persistent_keepalive_eq [OF assms] is_number_num_string digits_value_numeral)
  moreover have "get_value ?l ''PersistentKeepalive='' = Some (dec_string (unat n))" by (rule get_value_hit) simp
  moreover have "get_value ?l ''Endpoint='' = None" "get_value ?l ''AllowedIPs='' = None"
    by (rule get_value_miss [of 0]; simp add: tolower_def)+
  moreover have "get_value ?l ''PublicKey='' = None" by (rule get_value_miss [of 1]; simp add: tolower_def)
  moreover have "process_line L (peer_ctx dev ps p lp) ?l = process_peer_line L (peer_ctx dev ps p lp) ?l"
    by (rule process_line_peer) (simp_all add: letters)
  ultimately show ?thesis
    by (subst config_read_line_plain) (simp_all add: isspace_def process_peer_line_def Let_def on_last_peer_ctx)
qed

subsection \<open>Reading allowed IPs and endpoints\<close>

lemma strchr_iff: "strchr s c \<noteq> None \<longleftrightarrow> c \<in> set s"
  by (induction s) (auto simp: strchr_def)

text \<open>An allowed IP as it is after printing and reading: the flags and the unused address bytes are cleared.\<close>

definition reread_allowedip :: "wgallowedip \<Rightarrow> wgallowedip" where
  "reread_allowedip a =
     \<lparr>family = family a,
      ip = (if family a = of_nat AF_INET then take 4 (ip a) @ replicate 12 0 else ip a),
      cidr = cidr a, a_flags = 0\<rparr>"

definition entry_text :: "libc \<Rightarrow> wgallowedip \<Rightarrow> string" where
  "entry_text L a = the (allowedip_text L a) @ ''/'' @ dec_string (unat (cidr a))"

lemma allowedip_text_ok:
  assumes "libc_text L" "allowedip_ok a"
  obtains t where "allowedip_text L a = Some t" "set t \<subseteq> ip_chars" "t \<noteq> []"
    "CHR '':'' \<in> set t \<longleftrightarrow> family a = of_nat AF_INET6"
    "inet_pton L (if family a = of_nat AF_INET6 then AF_INET6 else AF_INET) t =
       Some (if family a = of_nat AF_INET6 then ip a else take 4 (ip a))"
proof (cases "family a = of_nat AF_INET6")
  case True
  then have "length (ip a) = 16" using assms(2) by (simp add: allowedip_ok_def)
  with assms(1) obtain t where t: "inet_ntop L AF_INET6 (ip a) = Some t" "inet_pton L AF_INET6 t = Some (ip a)"
    "set t \<subseteq> ip_chars" "CHR '':'' \<in> set t" unfolding libc_text_def by blast
  moreover from this have "t \<noteq> []" by auto
  ultimately show ?thesis using True that [of t] by (auto simp: allowedip_text_def af_defs)
next
  case False
  then have "family a = of_nat AF_INET" "length (take 4 (ip a)) = 4" using assms(2) by (auto simp: allowedip_ok_def)
  moreover from this(2) assms(1) obtain t where t: "inet_ntop L AF_INET (take 4 (ip a)) = Some t"
    "inet_pton L AF_INET t = Some (take 4 (ip a))" "set t \<subseteq> ip_chars - {CHR '':''}" "t \<noteq> []"
    unfolding libc_text_def by blast
  ultimately show ?thesis using False that [of t] by (auto simp: allowedip_text_def)
qed

lemma separators_not_ip: "CHR '','' \<notin> ip_chars" "CHR ''/'' \<notin> ip_chars" "CHR ''+'' \<notin> ip_chars" "CHR ''-'' \<notin> ip_chars"
  "CHR '']'' \<notin> ip_chars" "CHR ''['' \<notin> ip_chars"
proof -
  have "\<not> is_digit_in 16 CHR '',''" "\<not> is_digit_in 16 CHR ''/''" "\<not> is_digit_in 16 CHR ''+''" "\<not> is_digit_in 16 CHR ''-''"
    "\<not> is_digit_in 16 CHR '']''" "\<not> is_digit_in 16 CHR ''[''"
    by code_simp+
  then show "CHR '','' \<notin> ip_chars" "CHR ''/'' \<notin> ip_chars" "CHR ''+'' \<notin> ip_chars" "CHR ''-'' \<notin> ip_chars"
    "CHR '']'' \<notin> ip_chars" "CHR ''['' \<notin> ip_chars"
    by (simp_all add: ip_chars_def)
qed

lemma dec_string_ip_chars: "set (dec_string n) \<subseteq> ip_chars"
  using num_string_set(1) [of n] digit_10_in_16 by (auto simp: ip_chars_def)

lemma entry_text_chars:
  assumes "libc_text L" "allowedip_ok a"
  shows "set (entry_text L a) \<subseteq> ip_chars \<union> {CHR ''/''}" "entry_text L a \<noteq> []" "plain (entry_text L a)"
    "CHR '','' \<notin> set (entry_text L a)" "\<not> incremental (entry_text L a)"
proof -
  obtain t where t: "allowedip_text L a = Some t" "set t \<subseteq> ip_chars" "t \<noteq> []" by (rule allowedip_text_ok [OF assms])
  show "set (entry_text L a) \<subseteq> ip_chars \<union> {CHR ''/''}" "entry_text L a \<noteq> []"
    using t dec_string_ip_chars by (auto simp: entry_text_def)
  show "plain (entry_text L a)" using t plain_ip by (simp add: entry_text_def isspace_def)
  show "CHR '','' \<notin> set (entry_text L a)"
    using t dec_string_ip_chars separators_not_ip(1) by (auto simp: entry_text_def)
  show "\<not> incremental (entry_text L a)"
    using t separators_not_ip(3,4) by (cases t) (auto simp: entry_text_def incremental_def first_char_def)
qed

lemma parse_cidr_printed:
  assumes "libc_ok L" "allowedip_ok a" "family new = family a"
  shows "parse_cidr L new (Some (dec_string (unat (cidr a)))) = Some (unat (cidr a))"
proof -
  let ?s = "dec_string (unat (cidr a))"
  have c: "unat (cidr a) < 256" using unsigned_less [of "cidr a", where 'a = nat] by simp
  have "(2::nat) ^ 32 \<le> 2 ^ ulong_bits L" using assms(1) by (intro power_increasing) (auto simp: libc_ok_def)
  then have "strtoul (ulong_bits L) 10 ?s = (unat (cidr a), [])"
    using c by (simp add: strtoul_number [OF is_number_num_string(1)] digits_value_numeral)
  moreover have "is_digit_in 10 (first_char ?s)" by (rule first_char_number [OF is_number_num_string(1)])
  ultimately show ?thesis
    using assms(2,3) by (auto simp: parse_cidr_def wg_simps allowedip_ok_def word_le_nat_alt af_defs)
qed

lemma entry_value_printed:
  assumes "libc_ok L" "libc_text L" "allowedip_ok a"
  shows "entry_value L (entry_text L a) = Done (reread_allowedip a)"
proof -
  obtain t where t: "allowedip_text L a = Some t" "set t \<subseteq> ip_chars" "t \<noteq> []"
    "CHR '':'' \<in> set t \<longleftrightarrow> family a = of_nat AF_INET6"
    "inet_pton L (if family a = of_nat AF_INET6 then AF_INET6 else AF_INET) t =
       Some (if family a = of_nat AF_INET6 then ip a else take 4 (ip a))"
    by (rule allowedip_text_ok [OF assms(2,3)])
  let ?n = "zero_allowedip\<lparr>ip := ip (reread_allowedip a), family := family a\<rparr>"
  have pre: "parse_ip_prefix 0 0 (entry_text L a) = (0, 0, entry_text L a)"
    using entry_text_chars(5) [OF assms(2,3)] by (simp add: parse_ip_prefix_def incremental_def)
  have sep: "strsep (CHR ''/'') (entry_text L a) = (t, Some (dec_string (unat (cidr a))))"
    using t separators_not_ip(2) by (simp add: entry_text_def) (intro strsep_append, blast)
  have "strchr t CHR '':'' \<noteq> None \<longleftrightarrow> family a = of_nat AF_INET6"
    unfolding t(4) [symmetric] by (rule strchr_iff)
  moreover have "length (ip a) = 16" "family a = of_nat AF_INET \<or> family a = of_nat AF_INET6"
    using assms(3) by (auto simp: allowedip_ok_def)
  ultimately have "parse_ip L zero_allowedip t = Done ?n"
    using t(5) by (auto simp: parse_ip_def reread_allowedip_def zero_allowedip_def overwrite_def af_defs Let_def)
  moreover have "parse_cidr L ?n (Some (dec_string (unat (cidr a)))) = Some (unat (cidr a))"
    by (rule parse_cidr_printed [OF assms(1,3)]) simp
  ultimately show ?thesis
    by (simp add: entry_value_def parse_entry_eq pre sep reread_allowedip_def zero_allowedip_def)
qed

lemma plain_no_newline: "plain s \<Longrightarrow> newline \<notin> set s"
proof -
  have "isspace newline" by (simp add: isspace_def)
  then show "plain s \<Longrightarrow> newline \<notin> set s" unfolding plain_def by blast
qed

lemma showconf_allowedips_filter:
  assumes "libc_text L" "list_all allowedip_ok as"
  shows "filter (\<lambda>c. \<not> isspace c) (showconf_allowedips L as) = join '','' (map (entry_text L) as) \<and>
    CHR ''#'' \<notin> set (showconf_allowedips L as) \<and> newline \<notin> set (showconf_allowedips L as)"
  using assms(2)
proof (induction as)
  case (Cons a as)
  obtain t where t: "allowedip_text L a = Some t" using allowedip_text_ok [OF assms(1), of a] Cons.prems by auto
  have e: "plain (entry_text L a)" "entry_text L a = t @ ''/'' @ dec_string (unat (cidr a))"
    using entry_text_chars(3) [OF assms(1), of a] Cons.prems t by (auto simp: entry_text_def)
  have s: "showconf_allowedips L (a # as) = entry_text L a @ (if as \<noteq> [] then '', '' else []) @ showconf_allowedips L as"
    by (simp add: t e(2))
  have nl: "newline \<notin> set (entry_text L a)" using plain_no_newline [OF e(1)] .
  show ?case
    unfolding s using Cons.IH Cons.prems filter_plain [OF e(1)] plain_no_comment [OF e(1)] nl
    by (cases as) (simp_all add: isspace_def)
qed simp

lemma map_outcome_Done: "(\<And>x. x \<in> set xs \<Longrightarrow> f x = Done (g x)) \<Longrightarrow> map_outcome f xs = Done (map g xs)"
  by (induction xs) auto

lemma read_allowedips:
  assumes "libc_ok L" "libc_text L" "list_all allowedip_ok as" "as \<noteq> []" "allowedips p = []" "lp = None"
  shows "config_read_line L ((''AllowedIPs = '' @ showconf_allowedips L as) @ [newline]) (peer_ctx dev ps p lp) =
    Done (peer_ctx dev ps (p\<lparr>p_flags := p_flags p OR WGPEER_REPLACE_ALLOWEDIPS, allowedips := map reread_allowedip as\<rparr>)
      (Some (length as - 1)))"
proof -
  let ?v = "join '','' (map (entry_text L) as)"
  note ok = assms(3) [unfolded list_all_iff]
  have ne: "?v \<noteq> []" using assms(4) entry_text_chars(2) [OF assms(2)] ok by (cases as; cases "tl as") auto
  have sep: "strsep_all (CHR '','') ?v = map (entry_text L) as"
    using assms(4) entry_text_chars(4) [OF assms(2)] ok by (intro strsep_all_join) auto
  have vals: "map_outcome (entry_value L) (map (entry_text L) as) = Done (map reread_allowedip as)"
    using map_outcome_Done [of as "\<lambda>a. entry_value L (entry_text L a)" reread_allowedip] entry_value_printed [OF assms(1,2)] ok
    by (induction as) auto
  have "\<not> list_ex incremental (map (entry_text L) as)"
    using entry_text_chars(5) [OF assms(2)] ok by (auto simp: list_ex_iff)
  moreover have "chain_ok (allowedips p, lp)" using assms by (simp add: chain_ok_def)
  ultimately have "parse_allowedips L p lp ?v = Done (p\<lparr>p_flags := p_flags p OR WGPEER_REPLACE_ALLOWEDIPS,
      allowedips := map reread_allowedip as\<rparr>, Some (length as - 1))"
    using ne assms(5) by (simp add: parse_allowedips_eq sep vals)
  moreover have "get_value (''AllowedIPs='' @ ?v) ''AllowedIPs='' = Some ?v" by (rule get_value_hit [OF ne])
  moreover have "get_value (''AllowedIPs='' @ ?v) ''Endpoint='' = None" "get_value (''AllowedIPs='' @ ?v) ''PublicKey='' = None"
    by (rule get_value_miss [of 0]; simp add: tolower_def)+
  moreover have "process_line L (peer_ctx dev ps p lp) (''AllowedIPs='' @ ?v) =
      process_peer_line L (peer_ctx dev ps p lp) (''AllowedIPs='' @ ?v)"
    by (rule process_line_peer) (simp_all add: letters)
  moreover have "clean_line L ((''AllowedIPs = '' @ showconf_allowedips L as) @ [newline]) = ''AllowedIPs='' @ ?v"
    using showconf_allowedips_filter [OF assms(2,3)] by (subst clean_line_plain) (simp_all add: isspace_def)
  ultimately show ?thesis
    by (simp add: config_read_line_def process_peer_line_def Let_def on_last_peer_ctx)
qed

text \<open>
  An endpoint that survives printing: absent, or a canonical socket address followed by the zeroes of
  the union.
\<close>

definition sockaddr_len :: "bytes \<Rightarrow> nat" where
  "sockaddr_len ep = (if sa_family ep = AF_INET then 16 else if sa_family ep = AF_INET6 then 28 else 0)"

definition endpoint_printable :: "bytes \<Rightarrow> bool" where
  "endpoint_printable ep =
     (length ep = 28 \<and>
      (ep = replicate 28 0 \<or>
       canonical_sockaddr (take (sockaddr_len ep) ep) \<and> drop (sockaddr_len ep) ep = replicate (28 - sockaddr_len ep) 0))"

lemma sa_family_take: "2 \<le> n \<Longrightarrow> sa_family (take n ep) = sa_family ep"
  by (simp add: sa_family_def min_def)

lemma canonical_family:
  assumes "canonical_sockaddr (take (sockaddr_len ep) ep)"
  shows "(sa_family ep = AF_INET \<or> sa_family ep = AF_INET6) \<and> sa_family (take (sockaddr_len ep) ep) = sa_family ep"
proof -
  have "sockaddr_len ep \<noteq> 0"
    using assms by (auto simp: canonical_sockaddr_def split: if_splits)
  then have "sa_family ep = AF_INET \<or> sa_family ep = AF_INET6" "2 \<le> sockaddr_len ep"
    by (auto simp: sockaddr_len_def split: if_splits)
  then show ?thesis by (simp add: sa_family_take)
qed

lemma sa_family_zero: "sa_family (replicate 28 0) = 0"
  by (simp add: sa_family_def numeral_2_eq_2)

lemma endpoint_lines_none: "endpoint_lines L (replicate 28 0) = []"
  by (simp add: endpoint_lines_def showconf_endpoint_def sa_family_zero af_defs)

lemma showconf_endpoint_text:
  assumes "libc_text L" "canonical_sockaddr (take (sockaddr_len ep) ep)"
  obtains v h s where "endpoint_lines L ep = [''Endpoint = '' @ v]" "plain v" "v \<noteq> []" "split_endpoint v = Done (h, s)"
    "getaddrinfo L False (Some h) s 0 = (0, \<lparr>ai_family = sa_family ep, ai_addr = take (sockaddr_len ep) ep\<rparr>)"
    "set v \<subseteq> ip_chars \<union> {CHR ''['', CHR '']''}"
proof -
  let ?a = "take (sockaddr_len ep) ep"
  note fam = canonical_family [OF assms(2)]
  obtain h s where hs: "getnameinfo L ?a = Some (h, s)"
    "getaddrinfo L False (Some h) s 0 = (0, \<lparr>ai_family = sa_family ?a, ai_addr = ?a\<rparr>)"
    "set h \<subseteq> ip_chars" "h \<noteq> []" "CHR '':'' \<in> set h \<longleftrightarrow> sa_family ?a = AF_INET6"
    "set s \<subseteq> {c. is_digit_in 10 c}" "s \<noteq> []"
    using assms unfolding libc_text_def by blast
  have pl: "plain h" "plain s"
    using plain_ip [OF hs(3)] hs(6) digit_10_in_16 digit_plain by (auto simp: plain_def)
  have colon: "CHR '':'' \<notin> set s" using hs(6) not_digit(2) digit_10_in_16 by blast
  define v where "v = (if sa_family ep = AF_INET6 then ''['' @ h @ '']:'' @ s else h @ '':'' @ s)"
  have len: "(if sa_family ep = AF_INET then 16 else if sa_family ep = AF_INET6 then 28 else 0) = sockaddr_len ep"
    by (simp add: sockaddr_len_def)
  have "showconf_endpoint L ep = ''Endpoint = '' @ v @ [newline]"
    using fam hs(1,5) strchr_iff [of h "CHR '':''"] unfolding showconf_endpoint_def Let_def len v_def by auto
  then have "endpoint_lines L ep = [''Endpoint = '' @ v]"
    by (simp add: endpoint_lines_def butlast_append)
  moreover have "plain v" "v \<noteq> []" using pl by (auto simp: v_def isspace_def)
  moreover have "split_endpoint v = Done (h, s)"
  proof (cases "sa_family ep = AF_INET6")
    case True
    have "split_first CHR '']'' (h @ CHR '']'' # ('':'' @ s)) = Some (h, '':'' @ s)"
      using hs(3) separators_not_ip(5) by (intro split_first_append) blast
    then show ?thesis using True hs(7) by (simp add: v_def split_endpoint_def first_char_def)
  next
    case False
    have "first_char (h @ '':'' @ s) \<noteq> CHR ''[''"
      using hs(3,4) separators_not_ip(6) by (cases h) (auto simp: first_char_def)
    moreover have "split_last CHR '':'' (h @ CHR '':'' # s) = Some (h, s)" by (rule split_last_append [OF colon])
    ultimately show ?thesis using False hs(7) by (simp add: v_def split_endpoint_def)
  qed
  moreover have "set v \<subseteq> ip_chars \<union> {CHR ''['', CHR '']''}"
    using hs(3,6) digit_10_in_16 by (auto simp: v_def ip_chars_def)
  ultimately show ?thesis using that [of v h s] hs(2) fam by simp
qed

lemma read_endpoint:
  assumes "libc_text L" "parse_dns_retries L = Done r" "endpoint_printable ep" "endpoint p = replicate 28 0"
  shows "fold_outcome (config_read_line L) (map (\<lambda>l. l @ [newline]) (endpoint_lines L ep)) (peer_ctx dev ps p lp)
    = Done (peer_ctx dev ps (p\<lparr>endpoint := ep\<rparr>) lp)"
proof (cases "ep = replicate 28 0")
  case True
  then have "p\<lparr>endpoint := ep\<rparr> = p" using assms(4) by simp
  then show ?thesis using True endpoint_lines_none by simp
next
  case False
  with assms(3) have can: "canonical_sockaddr (take (sockaddr_len ep) ep)" "length ep = 28"
    "drop (sockaddr_len ep) ep = replicate (28 - sockaddr_len ep) 0"
    by (auto simp: endpoint_printable_def)
  obtain v h s where v: "endpoint_lines L ep = [''Endpoint = '' @ v]" "plain v" "v \<noteq> []" "split_endpoint v = Done (h, s)"
    "getaddrinfo L False (Some h) s 0 = (0, \<lparr>ai_family = sa_family ep, ai_addr = take (sockaddr_len ep) ep\<rparr>)"
    by (rule showconf_endpoint_text [OF assms(1) can(1)])
  have fam: "sa_family ep = AF_INET \<or> sa_family ep = AF_INET6" using canonical_family [OF can(1)] by simp
  then have len: "length (take (sockaddr_len ep) ep) = sockaddr_len ep" "sockaddr_len ep \<le> 28" using can(2) by (auto simp: sockaddr_len_def)
  have "resolve_loop L h s 0 1000000 r = Some ((0, \<lparr>ai_family = sa_family ep, ai_addr = take (sockaddr_len ep) ep\<rparr>), [])"
    by (subst resolve_loop.simps) (simp add: v(5))
  moreover have "overwrite (take (sockaddr_len ep) ep) (replicate 28 0) = ep"
    using can(3) len append_take_drop_id [of "sockaddr_len ep" ep] by (simp add: overwrite_def)
  moreover have "(sa_family ep = AF_INET \<and> sockaddr_len ep = 16) \<or> (sa_family ep = AF_INET6 \<and> sockaddr_len ep = 28)"
    using fam by (auto simp: sockaddr_len_def af_defs)
  ultimately have "parse_endpoint L (replicate 28 0) v = Done ep"
    using len by (simp add: parse_endpoint_def assms(2) v(4))
  moreover have "get_value (''Endpoint='' @ v) ''Endpoint='' = Some v" by (rule get_value_hit [OF v(3)])
  moreover have "process_line L (peer_ctx dev ps p lp) (''Endpoint='' @ v) = process_peer_line L (peer_ctx dev ps p lp) (''Endpoint='' @ v)"
    by (rule process_line_peer) (simp_all add: letters)
  ultimately have "config_read_line L ((''Endpoint = '' @ v) @ [newline]) (peer_ctx dev ps p lp)
      = Done (peer_ctx dev ps (p\<lparr>endpoint := ep\<rparr>) lp)"
    using v(2,3) assms(4)
    by (subst config_read_line_plain) (simp_all add: isspace_def process_peer_line_def Let_def on_last_peer_ctx)
  then show ?thesis by (simp add: v(1))
qed

subsection \<open>Reading a whole device\<close>

definition reread_peer :: "wgpeer \<Rightarrow> wgpeer" where
  "reread_peer p = zero_peer\<lparr>
     p_flags := ((WGPEER_REPLACE_ALLOWEDIPS OR WGPEER_HAS_PUBLIC_KEY)
       OR (if has_flag (p_flags p) WGPEER_HAS_PRESHARED_KEY then WGPEER_HAS_PRESHARED_KEY else 0))
       OR (if persistent_keepalive_interval p \<noteq> 0 then WGPEER_HAS_PERSISTENT_KEEPALIVE_INTERVAL else 0),
     public_key := public_key p,
     preshared_key := (if has_flag (p_flags p) WGPEER_HAS_PRESHARED_KEY then preshared_key p else zero_key),
     endpoint := endpoint p,
     persistent_keepalive_interval := persistent_keepalive_interval p,
     allowedips := map reread_allowedip (allowedips p)\<rparr>"

definition reread_device :: "wgdevice \<Rightarrow> wgdevice" where
  "reread_device dev = zero_device\<lparr>
     d_flags := ((WGDEVICE_REPLACE_PEERS OR WGDEVICE_HAS_PRIVATE_KEY) OR WGDEVICE_HAS_FWMARK) OR WGDEVICE_HAS_LISTEN_PORT,
     listen_port := listen_port dev, fwmark := fwmark dev,
     private_key := (if has_flag (d_flags dev) WGDEVICE_HAS_PRIVATE_KEY then private_key dev else zero_key),
     peers := map reread_peer (peers dev)\<rparr>"

lemma fold_outcome_step: "f x s = Done s' \<Longrightarrow> fold_outcome f (x # xs) s = fold_outcome f xs s'"
  by simp

lemma fold_outcome_if: "fold_outcome f (map g (if b then [x] else [])) s = (if b then f (g x) s else Done s)"
  by (cases b; cases "f (g x) s") auto

lemma read_peer:
  assumes L: "libc_ok L" "libc_text L" "parse_dns_retries L = Done r"
    and p: "peer_ok p" "endpoint_printable (endpoint p)"
    and ctx: "chain_ok (peers (device ctx), ctx_last_peer ctx)"
  shows "\<exists>lp. fold_outcome (config_read_line L) (map (\<lambda>l. l @ [newline]) (peer_lines L p)) ctx =
    Done (peer_ctx (device ctx) (peers (device ctx)) (reread_peer p) lp)"
proof -
  have len: "length (public_key p) = 32" "length (preshared_key p) = 32" "list_all allowedip_ok (allowedips p)"
    using p(1) by (auto simp: peer_ok_def WG_KEY_LEN_def)
  have w: "32 \<le> ulong_bits L" using L(1) by (simp add: libc_ok_def)
  have z: "length zero_key = WG_KEY_LEN" by simp
  let ?F = "fold_outcome (config_read_line L)"
  let ?dev = "device ctx" and ?ps = "peers (device ctx)"
  let ?p0 = "zero_peer\<lparr>p_flags := WGPEER_REPLACE_ALLOWEDIPS\<rparr>"
  let ?p1 = "?p0\<lparr>public_key := public_key p, p_flags := WGPEER_REPLACE_ALLOWEDIPS OR WGPEER_HAS_PUBLIC_KEY\<rparr>"
  have s1: "config_read_line L ((''PublicKey = '' @ key_to_base64 (public_key p)) @ [newline]) (peer_ctx ?dev ?ps ?p0 None)
      = Done (peer_ctx ?dev ?ps ?p1 None)"
    using read_public_key [OF len(1), of ?p0 L ?dev ?ps None] by (simp add: zero_peer_def)
  define p2 where "p2 = (if has_flag (p_flags p) WGPEER_HAS_PRESHARED_KEY
      then ?p1\<lparr>preshared_key := preshared_key p, p_flags := p_flags ?p1 OR WGPEER_HAS_PRESHARED_KEY\<rparr> else ?p1)"
  have s2: "?F (map (\<lambda>l. l @ [newline]) (if has_flag (p_flags p) WGPEER_HAS_PRESHARED_KEY
        then [''PresharedKey = '' @ key_to_base64 (preshared_key p)] else [])) (peer_ctx ?dev ?ps ?p1 None)
      = Done (peer_ctx ?dev ?ps p2 None)"
    unfolding fold_outcome_if using read_preshared_key [OF len(2), of ?p1 L ?dev ?ps None] by (simp add: zero_peer_def p2_def)
  have p2: "allowedips p2 = []" "endpoint p2 = replicate 28 0" "p_flags p2 OR WGPEER_REPLACE_ALLOWEDIPS = p_flags p2"
    by (auto simp: p2_def zero_peer_def flag_defs)
  have p2': "p2\<lparr>allowedips := []\<rparr> = p2" by (simp add: p2_def zero_peer_def)
  define p3 where "p3 = p2\<lparr>allowedips := map reread_allowedip (allowedips p)\<rparr>"
  define lp where "lp = (if allowedips p \<noteq> [] then Some (length (allowedips p) - 1) else None)"
  have s3: "?F (map (\<lambda>l. l @ [newline]) (if allowedips p \<noteq> [] then [''AllowedIPs = '' @ showconf_allowedips L (allowedips p)] else []))
      (peer_ctx ?dev ?ps p2 None) = Done (peer_ctx ?dev ?ps p3 lp)"
    unfolding fold_outcome_if using read_allowedips [OF L(1,2) len(3) _ p2(1) refl, of ?dev ?ps] p2
    by (simp add: p3_def lp_def p2')
  have s4: "?F (map (\<lambda>l. l @ [newline]) (endpoint_lines L (endpoint p))) (peer_ctx ?dev ?ps p3 lp)
      = Done (peer_ctx ?dev ?ps (p3\<lparr>endpoint := endpoint p\<rparr>) lp)"
    by (rule read_endpoint [OF L(2,3) p(2)]) (simp add: p3_def p2)
  have s5: "?F (map (\<lambda>l. l @ [newline]) (if persistent_keepalive_interval p \<noteq> 0
        then [''PersistentKeepalive = '' @ dec_string (unat (persistent_keepalive_interval p))] else []))
      (peer_ctx ?dev ?ps (p3\<lparr>endpoint := endpoint p\<rparr>) lp) = Done (peer_ctx ?dev ?ps (reread_peer p) lp)"
    unfolding fold_outcome_if using read_keepalive [OF w, of "persistent_keepalive_interval p" ?dev ?ps "p3\<lparr>endpoint := endpoint p\<rparr>" lp]
    by (simp add: p3_def p2_def reread_peer_def zero_peer_def)
  have "?F (map (\<lambda>l. l @ [newline]) (peer_lines L p)) ctx = Done (peer_ctx ?dev ?ps (reread_peer p) lp)"
    unfolding peer_lines_def map_append fold_outcome_append list.map
    using read_peer_section [OF ctx, of L] s1 s2 s3 s4 s5 by (simp only: fold_outcome.simps and_then.simps)
  then show ?thesis by blast
qed

lemma read_peers:
  assumes L: "libc_ok L" "libc_text L" "parse_dns_retries L = Done r"
  shows "list_all peer_ok ps \<Longrightarrow> list_all (\<lambda>p. endpoint_printable (endpoint p)) ps \<Longrightarrow>
    chain_ok (peers (device ctx), ctx_last_peer ctx) \<Longrightarrow>
    \<exists>ctx'. fold_outcome (config_read_line L) (map (\<lambda>l. l @ [newline]) (peers_lines L ps)) ctx = Done ctx' \<and>
      device ctx' = (device ctx)\<lparr>peers := peers (device ctx) @ map reread_peer ps\<rparr>"
proof (induction ps arbitrary: ctx)
  case (Cons p ps)
  obtain lp where 1: "fold_outcome (config_read_line L) (map (\<lambda>l. l @ [newline]) (peer_lines L p)) ctx =
    Done (peer_ctx (device ctx) (peers (device ctx)) (reread_peer p) lp)"
    using read_peer [OF L, of p ctx] Cons.prems by auto
  let ?c = "peer_ctx (device ctx) (peers (device ctx)) (reread_peer p) lp"
  have ok: "chain_ok (peers (device ?c), ctx_last_peer ?c)" by (simp add: peer_ctx_def chain_ok_def)
  obtain ctx' where 2: "fold_outcome (config_read_line L) (map (\<lambda>l. l @ [newline]) (peers_lines L ps)) ?c = Done ctx'"
    "device ctx' = (device ?c)\<lparr>peers := peers (device ?c) @ map reread_peer ps\<rparr>"
    using Cons.IH [OF _ _ ok] Cons.prems by auto
  have "device ctx' = (device ctx)\<lparr>peers := peers (device ctx) @ map reread_peer (p # ps)\<rparr>"
    by (simp add: 2(2)) (simp add: peer_ctx_def)
  moreover have "fold_outcome (config_read_line L) (map (\<lambda>l. l @ [newline]) (peers_lines L (p # ps))) ctx = Done ctx'"
    using 1 2(1) by (auto simp: fold_outcome_append read_empty_line)
  ultimately show ?case by blast
qed simp

lemma read_device_head:
  assumes L: "libc_text L" "32 < ulong_bits L" and dev: "device_ok dev"
  shows "fold_outcome (config_read_line L) (map (\<lambda>l. l @ [newline])
      ([''[Interface]'']
       @ (if listen_port dev \<noteq> 0 then [''ListenPort = '' @ dec_string (unat (listen_port dev))] else [])
       @ (if fwmark dev \<noteq> 0 then [''FwMark = 0x'' @ hex_string (unat (fwmark dev))] else [])
       @ (if has_flag (d_flags dev) WGDEVICE_HAS_PRIVATE_KEY then [''PrivateKey = '' @ key_to_base64 (private_key dev)] else [])
       @ [[]])) (config_read_init False) =
    Done \<lparr>device = (reread_device dev)\<lparr>peers := []\<rparr>, ctx_last_peer = None, ctx_last_allowedip = None,
          is_peer_section = False, is_device_section = True\<rparr>"
proof -
  have len: "length (private_key dev) = 32" using dev by (simp add: device_ok_def WG_KEY_LEN_def)
  have port: "unat (listen_port dev) < 65536" using unsigned_less [of "listen_port dev", where 'a = nat] by simp
  let ?F = "fold_outcome (config_read_line L)"
  let ?c0 = "(config_read_init False)\<lparr>is_peer_section := False, is_device_section := True\<rparr>"
  let ?c1 = "?c0\<lparr>device := (device ?c0)\<lparr>listen_port := listen_port dev\<rparr>\<rparr>"
  let ?c2 = "?c1\<lparr>device := (device ?c1)\<lparr>fwmark := fwmark dev\<rparr>\<rparr>"
  have fl: "d_flags (device ?c0) OR WGDEVICE_HAS_LISTEN_PORT = d_flags (device ?c0)"
    "d_flags (device ?c0) OR WGDEVICE_HAS_FWMARK = d_flags (device ?c0)"
    "d_flags (device ?c0) OR WGDEVICE_HAS_PRIVATE_KEY = d_flags (device ?c0)"
    by (simp_all add: config_read_init_def Let_def zero_device_def flag_defs)
  have s1: "?F (map (\<lambda>l. l @ [newline]) (if listen_port dev \<noteq> 0 then [''ListenPort = '' @ dec_string (unat (listen_port dev))] else [])) ?c0 = Done ?c1"
    unfolding fold_outcome_if using read_listen_port [OF L(1) _ port, of ?c0] fl(1)
    by (simp add: config_read_init_def Let_def zero_device_def)
  have s2: "?F (map (\<lambda>l. l @ [newline]) (if fwmark dev \<noteq> 0 then [''FwMark = 0x'' @ hex_string (unat (fwmark dev))] else [])) ?c1 = Done ?c2"
    unfolding fold_outcome_if using read_fwmark [OF L(2), of ?c1 "fwmark dev"] fl(2)
    by (simp add: config_read_init_def Let_def zero_device_def)
  have s3: "?F (map (\<lambda>l. l @ [newline]) (if has_flag (d_flags dev) WGDEVICE_HAS_PRIVATE_KEY then [''PrivateKey = '' @ key_to_base64 (private_key dev)] else [])) ?c2
      = Done \<lparr>device = (reread_device dev)\<lparr>peers := []\<rparr>, ctx_last_peer = None, ctx_last_allowedip = None,
          is_peer_section = False, is_device_section = True\<rparr>"
    unfolding fold_outcome_if using read_private_key [of ?c2 "private_key dev" L] len fl(3)
    by (simp add: config_read_init_def Let_def zero_device_def reread_device_def)
  show ?thesis
    unfolding map_append fold_outcome_append list.map
    using read_interface_section [of L] s1 s2 s3 read_empty_line by (simp only: fold_outcome.simps and_then.simps append_Nil)
qed

lemma plain_no_nl_key: "length k = 32 \<Longrightarrow> newline \<notin> set (key_to_base64 k)"
  by (intro plain_no_newline plain_key)

lemma peer_lines_no_newline:
  assumes "libc_text L" "peer_ok p" "endpoint_printable (endpoint p)" "l \<in> set (peer_lines L p)"
  shows "newline \<notin> set l"
proof -
  have len: "length (public_key p) = 32" "length (preshared_key p) = 32" "list_all allowedip_ok (allowedips p)"
    using assms(2) by (auto simp: peer_ok_def WG_KEY_LEN_def)
  have ep: "newline \<notin> set l" if l: "l \<in> set (endpoint_lines L (endpoint p))"
  proof (cases "endpoint p = replicate 28 0")
    case True
    then show ?thesis using l endpoint_lines_none by simp
  next
    case False
    with assms(3) have "canonical_sockaddr (take (sockaddr_len (endpoint p)) (endpoint p))" by (auto simp: endpoint_printable_def)
    then obtain v where "endpoint_lines L (endpoint p) = [''Endpoint = '' @ v]" "plain v"
      by (rule showconf_endpoint_text [OF assms(1)])
    then show ?thesis using l plain_no_newline by auto
  qed
  show ?thesis
    using assms(4) ep len plain_no_nl_key plain_no_newline [OF plain_numeral(1)] showconf_allowedips_filter [OF assms(1) len(3)]
    unfolding peer_lines_def by (auto split: if_split_asm)
qed

lemma device_lines_no_newline:
  assumes "libc_text L" "device_ok dev" "list_all (\<lambda>p. endpoint_printable (endpoint p)) (peers dev)" "l \<in> set (device_lines L dev)"
  shows "newline \<notin> set l"
proof -
  have ps: "newline \<notin> set l" if "list_all peer_ok ps" "list_all (\<lambda>p. endpoint_printable (endpoint p)) ps" "l \<in> set (peers_lines L ps)" for ps
    using that by (induction ps) (auto dest: peer_lines_no_newline [OF assms(1)] split: if_split_asm)
  have "length (private_key dev) = 32" "list_all peer_ok (peers dev)" using assms(2) by (auto simp: device_ok_def WG_KEY_LEN_def)
  then show ?thesis
    using assms(3,4) ps [of "peers dev"] plain_no_nl_key plain_no_newline [OF plain_numeral(1)] plain_no_newline [OF plain_numeral(2)]
    unfolding device_lines_def by (auto split: if_split_asm)
qed

lemma showconf_reads_back:
  assumes L: "libc_ok L" "libc_text L" "32 < ulong_bits L" "parse_dns_retries L = Done r"
    and dev: "device_ok dev" "list_all (\<lambda>p. endpoint_printable (endpoint p)) (peers dev)"
  shows "and_then (fold_outcome (config_read_line L) (getlines (showconf_device L dev)) (config_read_init False)) config_read_finish
    = Done (reread_device dev)"
proof -
  let ?c = "\<lparr>device = (reread_device dev)\<lparr>peers := []\<rparr>, ctx_last_peer = None, ctx_last_allowedip = None,
          is_peer_section = False, is_device_section = True\<rparr>"
  have lines: "getlines (showconf_device L dev) = map (\<lambda>l. l @ [newline]) (device_lines L dev)"
    unfolding showconf_device_lines by (rule getlines_lines) (rule device_lines_no_newline [OF L(2) dev])
  have "chain_ok (peers (device ?c), ctx_last_peer ?c)" by (simp add: chain_ok_def)
  then obtain ctx' where ctx': "fold_outcome (config_read_line L) (map (\<lambda>l. l @ [newline]) (peers_lines L (peers dev))) ?c = Done ctx'"
    "device ctx' = (device ?c)\<lparr>peers := peers (device ?c) @ map reread_peer (peers dev)\<rparr>"
    using read_peers [OF L(1,2,4), of "peers dev" ?c] dev by (auto simp: device_ok_def)
  have "fold_outcome (config_read_line L) (getlines (showconf_device L dev)) (config_read_init False) = Done ctx'"
    using read_device_head [OF L(2,3) dev(1)] ctx'(1)
    unfolding lines device_lines_def by (simp only: append_assoc [symmetric] map_append fold_outcome_append and_then.simps)
  moreover have "device ctx' = reread_device dev" by (simp add: ctx'(2) reread_device_def)
  moreover have "has_flag (p_flags (reread_peer p)) WGPEER_HAS_PUBLIC_KEY" for p
    by (simp add: reread_peer_def has_flag_def flag_defs)
  ultimately show ?thesis
    by (simp add: config_read_finish_def list_ex_iff reread_device_def)
qed

subsection \<open>Properties\<close>

text \<open>
  C5. What \<open>wg showconf\<close> prints, \<open>wg setconf\<close> reads back. For every well-formed device whose
  endpoints are canonical socket addresses, parsing the printed lines with \<open>config_read_line\<close> from
  \<open>config_read_init\<close> succeeds and yields the device's listen port, mark, private key and, in order, its
  peers with their keys, allowed IPs, endpoints and keepalive intervals, flagged as the parser flags
  what it was given.
\<close>

theorem showconf_roundtrip:
  assumes "libc_ok L" "libc_text L" "32 < ulong_bits L" "parse_dns_retries L = Done r"
    and "device_ok dev" "list_all (\<lambda>p. endpoint_printable (endpoint p)) (peers dev)"
  shows "and_then (fold_outcome (config_read_line L) (getlines (showconf_device L dev)) (config_read_init False)) config_read_finish
    = Done (reread_device dev)"
  by (rule showconf_reads_back [OF assms])

definition sample_device :: wgdevice where
  "sample_device = zero_device\<lparr>listen_port := 51820, fwmark := 0xca6c, peers :=
     [zero_peer\<lparr>public_key := replicate 32 7, endpoint := [2, 0, 202, 108, 10, 0, 0, 1] @ replicate 20 0,
        persistent_keepalive_interval := 25,
        allowedips := [\<lparr>family = 2, ip = [10, 0, 0, 0] @ replicate 12 0, cidr = 8, a_flags = 0\<rparr>,
                       \<lparr>family = 10, ip = replicate 16 1, cidr = 128, a_flags = 0\<rparr>]\<rparr>]\<rparr>"

lemma sample_device_ok:
  "device_ok sample_device" "list_all (\<lambda>p. endpoint_printable (endpoint p)) (peers sample_device)"
  by (simp_all add: sample_device_def device_ok_def peer_ok_def allowedip_ok_def zero_device_def zero_peer_def zero_key_def
      WG_KEY_LEN_def af_defs endpoint_printable_def canonical_sockaddr_def sockaddr_len_def sa_family_def)

theorem showconf_roundtrip_witness:
  "device_ok sample_device \<and> list_all (\<lambda>p. endpoint_printable (endpoint p)) (peers sample_device) \<and>
   and_then (fold_outcome (config_read_line numeric_libc) (getlines (showconf_device numeric_libc sample_device))
     (config_read_init False)) config_read_finish = Done (reread_device sample_device)"
  using showconf_roundtrip [OF numeric_libc_ok numeric_libc_text, of 15 sample_device] sample_device_ok
  by (simp add: numeric_libc_def parse_dns_retries_def)

end
