(* ===== verification/Wg_Setconf.thy ===== *)
theory Wg_Setconf
  imports Wg_Showconf "HOL-Library.List_Lexorder" "HOL-Library.Product_Lexorder" "HOL-Library.Multiset"
begin

text \<open>
  \<open>wg setconf\<close>, \<open>addconf\<close> and \<open>syncconf\<close> (\<open>wireguard-tools/src/setconf.c\<close>) and \<open>wg set\<close> (\<open>set.c\<close>).
  Getting and setting a device (\<open>ipc_get_device\<close>, \<open>ipc_set_device\<close>) are arguments of the programs: the
  former yields a device or an error number, the latter a return value. A program's result is its exit
  status and the devices it handed to \<open>ipc_set_device\<close>.
\<close>

subsection \<open>Synchronising with the running device\<close>

record pubkey_origin =
  pubkey :: bytes
  from_file :: bool

fun memcmp :: "bytes \<Rightarrow> bytes \<Rightarrow> int" where
  "memcmp (x # xs) (y # ys) = (if x = y then memcmp xs ys else uint x - uint y)"
| "memcmp _ _ = 0"

definition pubkey_cmp :: "pubkey_origin \<Rightarrow> pubkey_origin \<Rightarrow> int" where
  "pubkey_cmp a b =
     (let ret = memcmp (pubkey a) (pubkey b)
      in if ret \<noteq> 0 then ret else of_bool (from_file a) - of_bool (from_file b))"

text \<open>\<open>qsort\<close>: elements the comparison does not order are equal here, so the result is unique.\<close>

primrec insert_by :: "('a \<Rightarrow> 'a \<Rightarrow> int) \<Rightarrow> 'a \<Rightarrow> 'a list \<Rightarrow> 'a list" where
  "insert_by cmp x [] = [x]"
| "insert_by cmp x (y # ys) = (if cmp x y \<le> 0 then x # y # ys else y # insert_by cmp x ys)"

definition qsort :: "('a \<Rightarrow> 'a \<Rightarrow> int) \<Rightarrow> 'a list \<Rightarrow> 'a list" where
  "qsort cmp xs = foldr (insert_by cmp) xs []"

text \<open>A removal request put in front of the peers of the file; \<open>last_peer\<close> keeps pointing at its node.\<close>

definition push_removal :: "bytes \<Rightarrow> wgdevice \<Rightarrow> wgdevice" where
  "push_removal key file =
     file\<lparr>peers := zero_peer\<lparr>p_flags := WGPEER_REMOVE_ME, public_key := key\<rparr> # peers file,
          last_peer := (case last_peer file of None \<Rightarrow> Some 0 | Some i \<Rightarrow> Some (Suc i))\<rparr>"

fun sync_loop :: "pubkey_origin list \<Rightarrow> wgdevice \<Rightarrow> wgdevice" where
  "sync_loop [] file = file"
| "sync_loop (a # rest) file =
     sync_loop rest
       (if from_file a then file
        else if rest = [] \<or> \<not> from_file (hd rest) \<or> memcmp (pubkey a) (pubkey (hd rest)) \<noteq> 0
          then push_removal (pubkey a) file
        else file)"

definition sync_conf :: "(string \<Rightarrow> (int, wgdevice) outcome) \<Rightarrow> wgdevice \<Rightarrow> (int, wgdevice) outcome" where
  "sync_conf get_device file =
     (if peers file = [] then Done file
      else and_then (get_device (name file)) (\<lambda>runtime.
        if peers runtime = [] then Done file
        else
          let file = file\<lparr>d_flags := d_flags file AND NOT WGDEVICE_REPLACE_PEERS\<rparr>;
              pubkeys = map (\<lambda>peer. \<lparr>pubkey = public_key peer, from_file = True\<rparr>) (peers file)
                @ map (\<lambda>peer. \<lparr>pubkey = public_key peer, from_file = False\<rparr>) (peers runtime)
          in Done (sync_loop (qsort pubkey_cmp pubkeys) file)))"

subsection \<open>The programs\<close>

definition IFNAMSIZ :: nat where "IFNAMSIZ = 16"

definition config_read_file :: "libc \<Rightarrow> bool \<Rightarrow> string \<Rightarrow> (wg_error, wgdevice) outcome" where
  "config_read_file L app contents =
     and_then (fold_outcome (config_read_line L) (map (takeWhile (\<lambda>c. c \<noteq> NUL)) (getlines contents)) (config_read_init app))
       config_read_finish"

text \<open>
  An error of the parser, of \<open>sync_conf\<close> or of \<open>ipc_set_device\<close> gives the exit status 1; the process
  also ends, or hangs, where the parser does.
\<close>

definition setconf_main ::
  "libc \<Rightarrow> (string \<Rightarrow> (int, wgdevice) outcome) \<Rightarrow> (wgdevice \<Rightarrow> int) \<Rightarrow> string list
   \<Rightarrow> (wg_error, int \<times> wgdevice list) outcome" where
  "setconf_main L get_device set_device argv =
     (if length argv \<noteq> 3 then Done (1, [])
      else case fopen L (argv ! 2) of
        None \<Rightarrow> Done (1, [])
      | Some f \<Rightarrow>
          (case config_read_file L (argv ! 0 = ''addconf'') (f_contents f) of
             Error e \<Rightarrow> Done (1, [])
           | Exit e \<Rightarrow> Exit e
           | Diverge \<Rightarrow> Diverge
           | Crash \<Rightarrow> Crash
           | Done dev \<Rightarrow>
               let dev = dev\<lparr>name := strncpy_term IFNAMSIZ (argv ! 1)\<rparr>
               in case (if argv ! 0 = ''syncconf'' then sync_conf get_device dev else Done dev) of
                    Done dev \<Rightarrow> Done (if set_device dev \<noteq> 0 then 1 else 0, [dev])
                  | _ \<Rightarrow> Done (1, [])))"

definition set_main ::
  "libc \<Rightarrow> (wgdevice \<Rightarrow> int) \<Rightarrow> string list \<Rightarrow> (wg_error, int \<times> wgdevice list) outcome" where
  "set_main L set_device argv =
     (if length argv < 3 then Done (1, [])
      else case config_read_cmd L (drop 2 argv) of
             Error e \<Rightarrow> Done (1, [])
           | Exit e \<Rightarrow> Exit e
           | Diverge \<Rightarrow> Diverge
           | Crash \<Rightarrow> Crash
           | Done dev \<Rightarrow>
               let dev = dev\<lparr>name := strncpy_term IFNAMSIZ (argv ! 1)\<rparr>
               in Done (if set_device dev \<noteq> 0 then 1 else 0, [dev]))"

subsection \<open>The order of the keys\<close>

lemma memcmp_iff:
  "length a = length b \<Longrightarrow> (memcmp a b = 0 \<longleftrightarrow> a = b) \<and> (memcmp a b < 0 \<longleftrightarrow> map uint a < map uint b)"
  by (induction a b rule: memcmp.induct) (auto simp: word_uint_eq_iff)

definition origin_key :: "pubkey_origin \<Rightarrow> int list \<times> bool" where
  "origin_key a = (map uint (pubkey a), from_file a)"

lemma origin_key_inj: "origin_key a = origin_key b \<longleftrightarrow> a = b"
proof -
  have "map uint (pubkey a) = map uint (pubkey b) \<longleftrightarrow> pubkey a = pubkey b"
    by (rule inj_map_eq_map) (simp add: inj_def word_uint_eq_iff)
  then show ?thesis by (cases a; cases b) (simp add: origin_key_def)
qed

lemma pubkey_cmp_le:
  assumes "length (pubkey a) = length (pubkey b)"
  shows "pubkey_cmp a b \<le> 0 \<longleftrightarrow> origin_key a \<le> origin_key b"
proof -
  have "map uint (pubkey a) = map uint (pubkey b) \<longleftrightarrow> pubkey a = pubkey b"
    by (rule inj_map_eq_map) (simp add: inj_def word_uint_eq_iff)
  then show ?thesis
    using memcmp_iff [OF assms]
    by (auto simp: pubkey_cmp_def origin_key_def Let_def less_eq_prod_def le_less)
qed

lemma insert_by_set: "mset (insert_by cmp x ys) = add_mset x (mset ys)"
  by (induction ys) auto

lemma qsort_mset: "mset (qsort cmp xs) = mset xs"
  by (induction xs) (simp_all add: qsort_def insert_by_set)

lemma qsort_sorted:
  assumes "\<And>a b. a \<in> set xs \<Longrightarrow> b \<in> set xs \<Longrightarrow> cmp a b \<le> 0 \<longleftrightarrow> key a \<le> (key b :: 'k :: linorder)"
  shows "sorted (map key (qsort cmp xs))"
  using assms
proof (induction xs)
  case (Cons x xs)
  have s: "sorted (map key (qsort cmp xs))" using Cons by simp
  have set: "set (qsort cmp xs) = set xs" by (metis qsort_mset set_mset_mset)
  have "\<forall>y\<in>set ys. cmp x y \<le> 0 \<longleftrightarrow> key x \<le> key y \<Longrightarrow> sorted (map key ys) \<Longrightarrow> sorted (map key (insert_by cmp x ys))" for ys
  proof (induction ys)
    case (Cons y ys)
    have "set (insert_by cmp x ys) = insert x (set ys)" by (metis insert_by_set set_mset_add_mset_insert set_mset_mset)
    with Cons show ?case by auto
  qed simp
  from this [OF _ s] Cons.prems show ?case by (auto simp: qsort_def [of cmp "x # xs"] qsort_def [of cmp xs, symmetric] set)
qed (simp add: qsort_def)

subsection \<open>Which peers are removed\<close>

abbreviation removal :: "bytes \<Rightarrow> wgpeer" where
  "removal key \<equiv> zero_peer\<lparr>p_flags := WGPEER_REMOVE_ME, public_key := key\<rparr>"

fun doomed :: "pubkey_origin list \<Rightarrow> bytes list" where
  "doomed [] = []"
| "doomed (a # rest) =
     (if \<not> from_file a \<and> (rest = [] \<or> \<not> from_file (hd rest) \<or> memcmp (pubkey a) (pubkey (hd rest)) \<noteq> 0)
      then [pubkey a] else []) @ doomed rest"

lemma sync_loop_fold: "sync_loop zs conf = fold push_removal (doomed zs) conf"
  by (induction zs arbitrary: conf) auto

lemma fold_push_removal:
  "peers (fold push_removal ks conf) = map removal (rev ks) @ peers conf"
  "d_flags (fold push_removal ks conf) = d_flags conf" "name (fold push_removal ks conf) = name conf"
  "private_key (fold push_removal ks conf) = private_key conf" "fwmark (fold push_removal ks conf) = fwmark conf"
  "listen_port (fold push_removal ks conf) = listen_port conf"
  by (induction ks arbitrary: conf) (simp_all add: push_removal_def)

lemma doomed_eq:
  assumes "sorted (map origin_key zs)" "\<forall>a\<in>set zs. length (pubkey a) = n"
    "distinct (map pubkey (filter (\<lambda>a. \<not> from_file a) zs))"
  shows "doomed zs = map pubkey (filter (\<lambda>a. \<not> from_file a \<and> \<lparr>pubkey = pubkey a, from_file = True\<rparr> \<notin> set zs) zs)"
  using assms
proof (induction zs)
  case (Cons a rest)
  let ?t = "\<lambda>b. \<lparr>pubkey = pubkey b, from_file = True\<rparr>"
  have le: "origin_key a \<le> origin_key b" if "b \<in> set rest" for b using Cons.prems(1) that by simp
  have rest: "?t b \<in> set (a # rest) \<longleftrightarrow> ?t b \<in> set rest" if "b \<in> set rest" "\<not> from_file b" for b
    using le [OF that(1)] that(2) by (auto simp: origin_key_def less_eq_prod_def)
  have head: "(rest = [] \<or> \<not> from_file (hd rest) \<or> memcmp (pubkey a) (pubkey (hd rest)) \<noteq> 0) \<longleftrightarrow> ?t a \<notin> set (a # rest)"
    if nf: "\<not> from_file a"
  proof (cases rest)
    case Nil
    then show ?thesis using nf by (cases a) auto
  next
    case rest': (Cons b r)
    have mem: "memcmp (pubkey a) (pubkey b) = 0 \<longleftrightarrow> pubkey a = pubkey b"
      using Cons.prems(2) rest' memcmp_iff [of "pubkey a" "pubkey b"] by simp
    have "from_file b \<and> pubkey b = pubkey a" if t: "?t a \<in> set rest"
    proof -
      have "origin_key b \<le> origin_key (?t a)" using t rest' Cons.prems(1) by auto
      with le [of b] rest' have "map uint (pubkey b) = map uint (pubkey a)"
        using nf by (auto simp: origin_key_def less_eq_prod_def)
      then have "pubkey b = pubkey a" by (metis inj_map_eq_map inj_def word_uint_eq_iff)
      moreover have "from_file b"
        using rest' Cons.prems(3) nf calculation by (cases "from_file b") auto
      ultimately show ?thesis by simp
    qed
    moreover have "?t a = b" if "from_file b" "pubkey b = pubkey a" using that by (cases b) simp
    moreover have "?t a \<noteq> a" using nf by (cases a) auto
    ultimately show ?thesis using mem rest' by auto
  qed
  have "doomed rest = map pubkey (filter (\<lambda>b. \<not> from_file b \<and> ?t b \<notin> set rest) rest)"
    using Cons by (auto split: if_split_asm)
  also have "filter (\<lambda>b. \<not> from_file b \<and> ?t b \<notin> set rest) rest = filter (\<lambda>b. \<not> from_file b \<and> ?t b \<notin> set (a # rest)) rest"
    by (rule filter_cong [OF refl]) (use rest in auto)
  finally show ?case using head by auto
qed simp

lemma distinct_map_filter_conj:
  "distinct (map f (filter P xs)) \<Longrightarrow> distinct (map f (filter (\<lambda>x. P x \<and> Q x) xs))"
  by (induction xs) (auto split: if_split_asm)

lemma origin_image:
  "k \<in> pubkey ` {a \<in> S. \<not> from_file a \<and> \<lparr>pubkey = pubkey a, from_file = True\<rparr> \<notin> S} \<longleftrightarrow>
     \<lparr>pubkey = k, from_file = False\<rparr> \<in> S \<and> \<lparr>pubkey = k, from_file = True\<rparr> \<notin> S"
proof
  assume "k \<in> pubkey ` {a \<in> S. \<not> from_file a \<and> \<lparr>pubkey = pubkey a, from_file = True\<rparr> \<notin> S}"
  then obtain a where "a \<in> S" "\<not> from_file a" "\<lparr>pubkey = k, from_file = True\<rparr> \<notin> S" "k = pubkey a" by blast
  then show "\<lparr>pubkey = k, from_file = False\<rparr> \<in> S \<and> \<lparr>pubkey = k, from_file = True\<rparr> \<notin> S" by (cases a) simp
next
  assume "\<lparr>pubkey = k, from_file = False\<rparr> \<in> S \<and> \<lparr>pubkey = k, from_file = True\<rparr> \<notin> S"
  then show "k \<in> pubkey ` {a \<in> S. \<not> from_file a \<and> \<lparr>pubkey = pubkey a, from_file = True\<rparr> \<notin> S}"
    by (intro image_eqI [of _ _ "\<lparr>pubkey = k, from_file = False\<rparr>"]) simp_all
qed

lemma sync_conf_result:
  assumes get: "get_device (name conf) = Done runtime"
    and ne: "peers conf \<noteq> []" "peers runtime \<noteq> []"
    and len: "\<forall>p\<in>set (peers conf) \<union> set (peers runtime). length (public_key p) = n"
    and dist: "distinct (map public_key (peers runtime))"
  shows "\<exists>ks conf'. sync_conf get_device conf = Done conf' \<and> peers conf' = map removal ks @ peers conf \<and>
    distinct ks \<and> set ks = public_key ` set (peers runtime) - public_key ` set (peers conf) \<and>
    d_flags conf' = d_flags conf AND NOT WGDEVICE_REPLACE_PEERS \<and>
    private_key conf' = private_key conf \<and> fwmark conf' = fwmark conf \<and> listen_port conf' = listen_port conf \<and> name conf' = name conf"
proof -
  let ?P = "map (\<lambda>p. \<lparr>pubkey = public_key p, from_file = True\<rparr>) (peers conf)
    @ map (\<lambda>p. \<lparr>pubkey = public_key p, from_file = False\<rparr>) (peers runtime)"
  let ?Z = "qsort pubkey_cmp ?P"
  let ?f = "conf\<lparr>d_flags := d_flags conf AND NOT WGDEVICE_REPLACE_PEERS\<rparr>"
  have ms: "mset ?Z = mset ?P" by (rule qsort_mset)
  then have set: "set ?Z = set ?P" by (metis set_mset_mset)
  have lenP: "\<forall>a\<in>set ?P. length (pubkey a) = n" using len by auto
  have sorted: "sorted (map origin_key ?Z)"
    by (rule qsort_sorted) (use lenP pubkey_cmp_le in auto)
  have "mset (filter (\<lambda>a. \<not> from_file a) ?Z) = mset (filter (\<lambda>a. \<not> from_file a) ?P)" by (simp only: mset_filter ms)
  then have "mset (map pubkey (filter (\<lambda>a. \<not> from_file a) ?Z)) = mset (map pubkey (filter (\<lambda>a. \<not> from_file a) ?P))"
    by (simp only: mset_map)
  moreover have "map pubkey (filter (\<lambda>a. \<not> from_file a) ?P) = map public_key (peers runtime)"
    by (simp add: filter_map o_def)
  ultimately have distZ: "distinct (map pubkey (filter (\<lambda>a. \<not> from_file a) ?Z))"
    using dist by (metis mset_eq_imp_distinct_iff)
  have doomed: "doomed ?Z = map pubkey (filter (\<lambda>a. \<not> from_file a \<and> \<lparr>pubkey = pubkey a, from_file = True\<rparr> \<notin> set ?Z) ?Z)"
    by (rule doomed_eq [OF sorted _ distZ]) (use lenP set in auto)
  have "distinct (doomed ?Z)"
    unfolding doomed by (rule distinct_map_filter_conj [OF distZ])
  moreover have "set (doomed ?Z) = public_key ` set (peers runtime) - public_key ` set (peers conf)"
  proof (rule set_eqI)
    fix k
    have "k \<in> set (doomed ?Z) \<longleftrightarrow> \<lparr>pubkey = k, from_file = False\<rparr> \<in> set ?P \<and> \<lparr>pubkey = k, from_file = True\<rparr> \<notin> set ?P"
      unfolding doomed set_map set_filter set by (rule origin_image)
    then show "k \<in> set (doomed ?Z) \<longleftrightarrow> k \<in> public_key ` set (peers runtime) - public_key ` set (peers conf)" by auto
  qed
  moreover have "sync_conf get_device conf = Done (fold push_removal (doomed ?Z) ?f)"
    using ne by (simp add: sync_conf_def get sync_loop_fold Let_def)
  ultimately show ?thesis
    by (intro exI [of _ "rev (doomed ?Z)"] exI [of _ "fold push_removal (doomed ?Z) ?f"]) (simp add: fold_push_removal)
qed

subsection \<open>Properties\<close>

text \<open>
  C6. \<open>wg syncconf\<close> removes exactly the peers that should go. When the file and the running device both
  have peers and the running device names no peer twice, \<open>sync_conf\<close> puts in front of the file's peers
  one removal request for each public key that is running and not in the file, once each, and no
  other; it keeps the file's own peers and settings, and clears the flag that would replace all peers.
\<close>

theorem sync_conf_correct:
  assumes "get_device (name conf) = Done runtime" "peers conf \<noteq> []" "peers runtime \<noteq> []"
    and "\<forall>p\<in>set (peers conf) \<union> set (peers runtime). length (public_key p) = WG_KEY_LEN"
    and "distinct (map public_key (peers runtime))"
  shows "\<exists>ks conf'. sync_conf get_device conf = Done conf' \<and> peers conf' = map removal ks @ peers conf \<and>
    distinct ks \<and> set ks = public_key ` set (peers runtime) - public_key ` set (peers conf) \<and>
    d_flags conf' = d_flags conf AND NOT WGDEVICE_REPLACE_PEERS \<and>
    private_key conf' = private_key conf \<and> fwmark conf' = fwmark conf \<and> listen_port conf' = listen_port conf \<and> name conf' = name conf"
  using assms by (rule sync_conf_result)

definition sample_peer :: "u8 \<Rightarrow> wgpeer" where
  "sample_peer b = zero_peer\<lparr>public_key := replicate 32 b\<rparr>"

theorem sync_conf_correct_witness:
  "\<exists>ks conf'. sync_conf (\<lambda>_. Done (zero_device\<lparr>peers := [sample_peer 1, sample_peer 2]\<rparr>))
      (zero_device\<lparr>peers := [sample_peer 2, sample_peer 3]\<rparr>) = Done conf' \<and>
    peers conf' = map removal ks @ [sample_peer 2, sample_peer 3] \<and> distinct ks \<and> set ks = {replicate 32 1}"
proof -
  have "replicate 32 (a :: u8) = replicate 32 b \<longleftrightarrow> a = b" for a b by (simp add: replicate_eq_replicate)
  then show ?thesis
    using sync_conf_correct [of "\<lambda>_. Done (zero_device\<lparr>peers := [sample_peer 1, sample_peer 2]\<rparr>)"
        "zero_device\<lparr>peers := [sample_peer 2, sample_peer 3]\<rparr>" "zero_device\<lparr>peers := [sample_peer 1, sample_peer 2]\<rparr>"]
    by (simp add: sample_peer_def WG_KEY_LEN_def) fastforce
qed

end
