(* ===== verification/Wg_Curve.thy ===== *)
theory Wg_Curve
  imports Wg_Prelude
begin

text \<open>
  The X25519 function of \<open>wireguard-tools/src/curve25519.c\<close>, \<open>curve25519.h\<close> and, for machines with a
  128-bit integer, \<open>curve25519-hacl64.h\<close>, instruction by instruction on words of their width. An element of the
  field has five limbs of 51 bits in \<open>u64\<close>; a product has five limbs in \<open>u128\<close>. The arrays of the source
  are tuples: every function reads its arguments before it writes its result, so the calls whose result overwrites
  an argument compute the same. Buffers that only hold intermediate values are \<open>let\<close> bindings.
\<close>

type_synonym felem = "u64 \<times> u64 \<times> u64 \<times> u64 \<times> u64"
type_synonym wide = "u128 \<times> u128 \<times> u128 \<times> u128 \<times> u128"
type_synonym point = "felem \<times> felem"

definition mask51 :: u64 where
  "mask51 = 0x7ffffffffffff"

subsection \<open>Bytes and words\<close>

definition get_unaligned_le64 :: "bytes \<Rightarrow> u64" where
  "get_unaligned_le64 a = foldr (\<lambda>b w. push_bit 8 w OR ucast b) (take 8 a) 0"

definition put_unaligned_le64 :: "u64 \<Rightarrow> bytes" where
  "put_unaligned_le64 s = map (\<lambda>i. ucast (drop_bit (8 * i) s)) [0, 1, 2, 3, 4, 5, 6, 7]"

subsection \<open>Masks\<close>

definition u64_eq_mask :: "u64 \<Rightarrow> u64 \<Rightarrow> u64" where
  "u64_eq_mask a b =
     (let x = a XOR b;
          minus_x = NOT x + 1;
          x_or_minus_x = x OR minus_x;
          xnx = drop_bit 63 x_or_minus_x
      in xnx - 1)"

definition u64_gte_mask :: "u64 \<Rightarrow> u64 \<Rightarrow> u64" where
  "u64_gte_mask a b =
     (let x_xor_y = a XOR b;
          x_sub_y = a - b;
          x_sub_y_xor_y = x_sub_y XOR b;
          q = x_xor_y OR x_sub_y_xor_y;
          x_xor_q = a XOR q;
          x_xor_q' = drop_bit 63 x_xor_q
      in x_xor_q' - 1)"

subsection \<open>Field arithmetic\<close>

fun modulo_carry_top :: "felem \<Rightarrow> felem" where
  "modulo_carry_top (b0, b1, b2, b3, b4) = (b0 + 19 * drop_bit 51 b4, b1, b2, b3, b4 AND mask51)"

fun fproduct_copy_from_wide :: "wide \<Rightarrow> felem" where
  "fproduct_copy_from_wide (t0, t1, t2, t3, t4) = (ucast t0, ucast t1, ucast t2, ucast t3, ucast t4)"

fun fproduct_sum_scalar_multiplication :: "wide \<Rightarrow> felem \<Rightarrow> u64 \<Rightarrow> wide" where
  "fproduct_sum_scalar_multiplication (t0, t1, t2, t3, t4) (i0, i1, i2, i3, i4) s =
     (t0 + ucast i0 * ucast s, t1 + ucast i1 * ucast s, t2 + ucast i2 * ucast s, t3 + ucast i3 * ucast s, t4 + ucast i4 * ucast s)"

text \<open>One of the four blocks of \<open>fproduct_carry_wide\<close>: a limb and the next one.\<close>

definition carry_wide_step :: "u128 \<Rightarrow> u128 \<Rightarrow> u128 \<times> u128" where
  "carry_wide_step tctr tctrp1 =
     (let r0 = (ucast tctr :: u64) AND mask51; c = drop_bit 51 tctr in (ucast r0, tctrp1 + c))"

fun fproduct_carry_wide :: "wide \<Rightarrow> wide" where
  "fproduct_carry_wide (t0, t1, t2, t3, t4) =
     (let (t0, t1) = carry_wide_step t0 t1;
          (t1, t2) = carry_wide_step t1 t2;
          (t2, t3) = carry_wide_step t2 t3;
          (t3, t4) = carry_wide_step t3 t4
      in (t0, t1, t2, t3, t4))"

fun fmul_shift_reduce :: "felem \<Rightarrow> felem" where
  "fmul_shift_reduce (o0, o1, o2, o3, o4) = (19 * o4, o0, o1, o2, o3)"

fun fmul_mul_shift_reduce :: "wide \<Rightarrow> felem \<Rightarrow> felem \<Rightarrow> wide" where
  "fmul_mul_shift_reduce out0 in0 (b0, b1, b2, b3, b4) =
     (let out1 = fproduct_sum_scalar_multiplication out0 in0 b0; in1 = fmul_shift_reduce in0;
          out2 = fproduct_sum_scalar_multiplication out1 in1 b1; in2 = fmul_shift_reduce in1;
          out3 = fproduct_sum_scalar_multiplication out2 in2 b2; in3 = fmul_shift_reduce in2;
          out4 = fproduct_sum_scalar_multiplication out3 in3 b3; in4 = fmul_shift_reduce in3
      in fproduct_sum_scalar_multiplication out4 in4 b4)"

text \<open>The end of \<open>fmul_fmul\<close>, \<open>fsquare_fsquare\<close> and \<open>fscalar\<close>: the carry of the top limb.\<close>

fun wide_carry_top :: "wide \<Rightarrow> wide" where
  "wide_carry_top (t0, t1, t2, t3, t4) =
     (t0 + 19 * ucast (ucast (drop_bit 51 t4) :: u64), t1, t2, t3, t4 AND 0x7ffffffffffff)"

fun carry_first :: "felem \<Rightarrow> felem" where
  "carry_first (i0, i1, i2, i3, i4) = (i0 AND mask51, i1 + drop_bit 51 i0, i2, i3, i4)"

definition fmul_fmul :: "felem \<Rightarrow> felem \<Rightarrow> felem" where
  "fmul_fmul input input21 =
     (let t = fmul_mul_shift_reduce (0, 0, 0, 0, 0) input input21;
          t = fproduct_carry_wide t;
          t = wide_carry_top t
      in carry_first (fproduct_copy_from_wide t))"

fun fsquare_fsquare_wide :: "felem \<Rightarrow> wide" where
  "fsquare_fsquare_wide (r0, r1, r2, r3, r4) =
     (let d0 = r0 * 2; d1 = r1 * 2; d2 = r2 * 2 * 19; d419 = r4 * 19; d4 = d419 * 2
      in (ucast r0 * ucast r0 + ucast d4 * ucast r1 + ucast d2 * ucast r3,
          ucast d0 * ucast r1 + ucast d4 * ucast r2 + ucast (r3 * 19) * ucast r3,
          ucast d0 * ucast r2 + ucast r1 * ucast r1 + ucast d4 * ucast r3,
          ucast d0 * ucast r3 + ucast d1 * ucast r2 + ucast r4 * ucast d419,
          ucast d0 * ucast r4 + ucast d1 * ucast r3 + ucast r2 * ucast r2))"

definition fsquare_fsquare :: "felem \<Rightarrow> felem" where
  "fsquare_fsquare output =
     (let t = fsquare_fsquare_wide output;
          t = fproduct_carry_wide t;
          t = wide_carry_top t
      in carry_first (fproduct_copy_from_wide t))"

text \<open>The first squaring is done before the loop tests its counter, so a count of zero squares once too.\<close>

definition fsquare_fsquare_times :: "felem \<Rightarrow> nat \<Rightarrow> felem" where
  "fsquare_fsquare_times input count1 = (fsquare_fsquare ^^ (count1 - 1)) (fsquare_fsquare input)"

definition crecip_crecip :: "felem \<Rightarrow> felem" where
  "crecip_crecip z =
     (let a0 = fsquare_fsquare_times z 1;
          t00 = fsquare_fsquare_times a0 2;
          b0 = fmul_fmul t00 z;
          a0 = fmul_fmul b0 a0;
          t00 = fsquare_fsquare_times a0 1;
          b0 = fmul_fmul t00 b0;
          t00 = fsquare_fsquare_times b0 5;
          b1 = fmul_fmul t00 b0;
          t01 = fsquare_fsquare_times b1 10;
          c0 = fmul_fmul t01 b1;
          t01 = fsquare_fsquare_times c0 20;
          t01 = fmul_fmul t01 c0;
          t01 = fsquare_fsquare_times t01 10;
          b1 = fmul_fmul t01 b1;
          t01 = fsquare_fsquare_times b1 50;
          c = fmul_fmul t01 b1;
          t0 = fsquare_fsquare_times c 100;
          t0 = fmul_fmul t0 c;
          t0 = fsquare_fsquare_times t0 50;
          t0 = fmul_fmul t0 b1;
          t0 = fsquare_fsquare_times t0 5
      in fmul_fmul t0 a0)"

fun fsum :: "felem \<Rightarrow> felem \<Rightarrow> felem" where
  "fsum (a0, a1, a2, a3, a4) (b0, b1, b2, b3, b4) = (a0 + b0, a1 + b1, a2 + b2, a3 + b3, a4 + b4)"

text \<open>\<open>fdifference (a, b)\<close> leaves \<open>b - a\<close> in \<open>a\<close>, with a multiple of the prime added to each limb.\<close>

fun fdifference :: "felem \<Rightarrow> felem \<Rightarrow> felem" where
  "fdifference (a0, a1, a2, a3, a4) (b0, b1, b2, b3, b4) =
     (b0 + 0x3fffffffffff68 - a0, b1 + 0x3ffffffffffff8 - a1, b2 + 0x3ffffffffffff8 - a2,
      b3 + 0x3ffffffffffff8 - a3, b4 + 0x3ffffffffffff8 - a4)"

fun fscalar :: "felem \<Rightarrow> u64 \<Rightarrow> felem" where
  "fscalar (b0, b1, b2, b3, b4) s =
     (let t = (ucast b0 * ucast s, ucast b1 * ucast s, ucast b2 * ucast s, ucast b3 * ucast s, ucast b4 * ucast s);
          t = fproduct_carry_wide t;
          t = wide_carry_top t
      in fproduct_copy_from_wide t)"

definition fmul :: "felem \<Rightarrow> felem \<Rightarrow> felem" where
  "fmul a b = fmul_fmul a b"

definition crecip :: "felem \<Rightarrow> felem" where
  "crecip input = crecip_crecip input"

subsection \<open>The ladder\<close>

definition point_swap_conditional_step :: "u64 \<Rightarrow> u64 \<Rightarrow> u64 \<Rightarrow> u64 \<times> u64" where
  "point_swap_conditional_step ai bi swap1 = (let x = swap1 AND (ai XOR bi) in (ai XOR x, bi XOR x))"

fun point_swap_conditional5 :: "felem \<Rightarrow> felem \<Rightarrow> u64 \<Rightarrow> felem \<times> felem" where
  "point_swap_conditional5 (a0, a1, a2, a3, a4) (b0, b1, b2, b3, b4) swap1 =
     (let (a4, b4) = point_swap_conditional_step a4 b4 swap1;
          (a3, b3) = point_swap_conditional_step a3 b3 swap1;
          (a2, b2) = point_swap_conditional_step a2 b2 swap1;
          (a1, b1) = point_swap_conditional_step a1 b1 swap1;
          (a0, b0) = point_swap_conditional_step a0 b0 swap1
      in ((a0, a1, a2, a3, a4), (b0, b1, b2, b3, b4)))"

fun point_swap_conditional :: "point \<Rightarrow> point \<Rightarrow> u64 \<Rightarrow> point \<times> point" where
  "point_swap_conditional (ax, az) (bx, bz) iswap =
     (let swap1 = 0 - iswap;
          (ax, bx) = point_swap_conditional5 ax bx swap1;
          (az, bz) = point_swap_conditional5 az bz swap1
      in ((ax, az), (bx, bz)))"

fun addanddouble_fmonty :: "point \<Rightarrow> point \<Rightarrow> felem \<Rightarrow> point \<times> point" where
  "addanddouble_fmonty (x, z) (xprime, zprime) qx =
     (let origx = x;
          x = fsum x z;
          z = fdifference z origx;
          origxprime = xprime;
          xprime = fsum xprime zprime;
          zprime = fdifference zprime origxprime;
          xxprime = fmul xprime z;
          zzprime = fmul x zprime;
          origxprime = xxprime;
          xxprime = fsum xxprime zzprime;
          zzprime = fdifference zzprime origxprime;
          x3 = fsquare_fsquare_times xxprime 1;
          zzzprime = fsquare_fsquare_times zzprime 1;
          z3 = fmul zzzprime qx;
          xx = fsquare_fsquare_times x 1;
          zz = fsquare_fsquare_times z 1;
          x2 = fmul xx zz;
          zz = fdifference zz xx;
          zzz = fscalar zz 121665;
          zzz = fsum zzz xx;
          z2 = fmul zzz zz
      in ((x2, z2), (x3, z3)))"

text \<open>
  The step reads \<open>nq\<close> and \<open>nqpq\<close> and writes \<open>nq2\<close> and \<open>nqpq2\<close>; the next one has them the other
  way round. The pair is the one written last.
\<close>

definition ladder_smallloop_cmult_small_loop_step :: "point \<Rightarrow> point \<Rightarrow> felem \<Rightarrow> u8 \<Rightarrow> point \<times> point" where
  "ladder_smallloop_cmult_small_loop_step nq nqpq q byt =
     (let bit0 = ucast (drop_bit 7 byt);
          (nq, nqpq) = point_swap_conditional nq nqpq bit0;
          (nq2, nqpq2) = addanddouble_fmonty nq nqpq q;
          bt = ucast (drop_bit 7 byt)
      in point_swap_conditional nq2 nqpq2 bt)"

definition ladder_smallloop_cmult_small_loop_double_step :: "point \<Rightarrow> point \<Rightarrow> felem \<Rightarrow> u8 \<Rightarrow> point \<times> point" where
  "ladder_smallloop_cmult_small_loop_double_step nq nqpq q byt =
     (let (nq2, nqpq2) = ladder_smallloop_cmult_small_loop_step nq nqpq q byt;
          byt1 = push_bit 1 byt
      in ladder_smallloop_cmult_small_loop_step nq2 nqpq2 q byt1)"

fun ladder_smallloop_cmult_small_loop :: "point \<Rightarrow> point \<Rightarrow> felem \<Rightarrow> u8 \<Rightarrow> nat \<Rightarrow> point \<times> point" where
  "ladder_smallloop_cmult_small_loop nq nqpq q byt 0 = (nq, nqpq)"
| "ladder_smallloop_cmult_small_loop nq nqpq q byt (Suc i) =
     (let (nq, nqpq) = ladder_smallloop_cmult_small_loop_double_step nq nqpq q byt
      in ladder_smallloop_cmult_small_loop nq nqpq q (push_bit 2 byt) i)"

fun ladder_bigloop_cmult_big_loop :: "bytes \<Rightarrow> point \<Rightarrow> point \<Rightarrow> felem \<Rightarrow> nat \<Rightarrow> point \<times> point" where
  "ladder_bigloop_cmult_big_loop n1 nq nqpq q 0 = (nq, nqpq)"
| "ladder_bigloop_cmult_big_loop n1 nq nqpq q (Suc i) =
     (let (nq, nqpq) = ladder_smallloop_cmult_small_loop nq nqpq q (n1 ! i) 4
      in ladder_bigloop_cmult_big_loop n1 nq nqpq q i)"

definition ladder_cmult :: "bytes \<Rightarrow> point \<Rightarrow> point" where
  "ladder_cmult n1 q =
     (let nq = ((1, 0, 0, 0, 0), (0, 0, 0, 0, 0)); nqpq = q
      in fst (ladder_bigloop_cmult_big_loop n1 nq nqpq (fst q) 32))"

subsection \<open>Formats\<close>

definition format_fexpand :: "bytes \<Rightarrow> felem" where
  "format_fexpand input =
     (let i0 = get_unaligned_le64 input;
          i1 = get_unaligned_le64 (drop 6 input);
          i2 = get_unaligned_le64 (drop 12 input);
          i3 = get_unaligned_le64 (drop 19 input);
          i4 = get_unaligned_le64 (drop 24 input)
      in (i0 AND mask51, drop_bit 3 i1 AND mask51, drop_bit 6 i2 AND mask51, drop_bit 1 i3 AND mask51, drop_bit 12 i4 AND mask51))"

text \<open>\<open>format_fcontract_first_carry_pass\<close> and \<open>format_fcontract_second_carry_pass\<close> are the same code.\<close>

fun format_fcontract_first_carry_pass :: "felem \<Rightarrow> felem" where
  "format_fcontract_first_carry_pass (t0, t1, t2, t3, t4) =
     (let t1' = t1 + drop_bit 51 t0;
          t0' = t0 AND mask51;
          t2' = t2 + drop_bit 51 t1';
          t1'' = t1' AND mask51;
          t3' = t3 + drop_bit 51 t2';
          t2'' = t2' AND mask51;
          t4' = t4 + drop_bit 51 t3';
          t3'' = t3' AND mask51
      in (t0', t1'', t2'', t3'', t4'))"

definition format_fcontract_first_carry_full :: "felem \<Rightarrow> felem" where
  "format_fcontract_first_carry_full input = modulo_carry_top (format_fcontract_first_carry_pass input)"

definition format_fcontract_second_carry_pass :: "felem \<Rightarrow> felem" where
  "format_fcontract_second_carry_pass input = format_fcontract_first_carry_pass input"

definition format_fcontract_second_carry_full :: "felem \<Rightarrow> felem" where
  "format_fcontract_second_carry_full input =
     carry_first (modulo_carry_top (format_fcontract_second_carry_pass input))"

fun format_fcontract_trim :: "felem \<Rightarrow> felem" where
  "format_fcontract_trim (a0, a1, a2, a3, a4) =
     (let mask0 = u64_gte_mask a0 0x7ffffffffffed;
          mask1 = u64_eq_mask a1 0x7ffffffffffff;
          mask2 = u64_eq_mask a2 0x7ffffffffffff;
          mask3 = u64_eq_mask a3 0x7ffffffffffff;
          mask4 = u64_eq_mask a4 0x7ffffffffffff;
          m = (((mask0 AND mask1) AND mask2) AND mask3) AND mask4
      in (a0 - (0x7ffffffffffed AND m), a1 - (0x7ffffffffffff AND m), a2 - (0x7ffffffffffff AND m),
          a3 - (0x7ffffffffffff AND m), a4 - (0x7ffffffffffff AND m)))"

fun format_fcontract_store :: "felem \<Rightarrow> bytes" where
  "format_fcontract_store (t0, t1, t2, t3, t4) =
     (let o0 = push_bit 51 t1 OR t0;
          o1 = push_bit 38 t2 OR drop_bit 13 t1;
          o2 = push_bit 25 t3 OR drop_bit 26 t2;
          o3 = push_bit 12 t4 OR drop_bit 39 t3
      in put_unaligned_le64 o0 @ put_unaligned_le64 o1 @ put_unaligned_le64 o2 @ put_unaligned_le64 o3)"

definition format_fcontract :: "felem \<Rightarrow> bytes" where
  "format_fcontract input =
     format_fcontract_store (format_fcontract_trim
       (format_fcontract_second_carry_full (format_fcontract_first_carry_full input)))"

definition format_scalar_of_point :: "point \<Rightarrow> bytes" where
  "format_scalar_of_point point =
     (let (x, z) = point; zmone = crecip z; sc = fmul x zmone in format_fcontract sc)"

subsection \<open>X25519\<close>

definition curve25519_clamp_secret :: "bytes \<Rightarrow> bytes" where
  "curve25519_clamp_secret secret = secret[0 := secret ! 0 AND 248, 31 := (secret ! 31 AND 127) OR 64]"

definition curve25519_generic :: "bytes \<Rightarrow> bytes \<Rightarrow> bytes" where
  "curve25519_generic secret basepoint =
     (let x0 = format_fexpand basepoint;
          q = (x0, (1, 0, 0, 0, 0));
          e = curve25519_clamp_secret secret;
          nq = ladder_cmult e q
      in format_scalar_of_point nq)"

end
