(* ===== verification/Wg_Fiat.thy ===== *)
theory Wg_Fiat
  imports Wg_Curve
begin

text \<open>
  The X25519 function of \<open>wireguard-tools/src/curve25519-fiat32.h\<close>, which \<open>curve25519.c\<close> takes where the
  compiler has no 128-bit integer, as on the 32-bit ABIs of Android. An element has ten limbs of 26 and 25 bits in
  \<open>u32\<close>, and products are in \<open>u64\<close>. \<open>fe\<close> and \<open>fe_loose\<close> have the same representation; the lemmas tell their bounds
  apart. The casts to \<open>u64\<close> of the source are \<open>ucast\<close>, also where C promotes the other factor.
\<close>

type_synonym fe = "u32 \<times> u32 \<times> u32 \<times> u32 \<times> u32 \<times> u32 \<times> u32 \<times> u32 \<times> u32 \<times> u32"
type_synonym fe_wide = "u64 \<times> u64 \<times> u64 \<times> u64 \<times> u64 \<times> u64 \<times> u64 \<times> u64 \<times> u64 \<times> u64"

subsection \<open>Formats\<close>

definition get_unaligned_le32 :: "bytes \<Rightarrow> u32" where
  "get_unaligned_le32 a = foldr (\<lambda>b w. push_bit 8 w OR ucast b) (take 4 a) 0"

definition fe_frombytes :: "bytes \<Rightarrow> fe" where
  "fe_frombytes s =
     (let a0 = get_unaligned_le32 s;
          a1 = get_unaligned_le32 (drop 4 s);
          a2 = get_unaligned_le32 (drop 8 s);
          a3 = get_unaligned_le32 (drop 12 s);
          a4 = get_unaligned_le32 (drop 16 s);
          a5 = get_unaligned_le32 (drop 20 s);
          a6 = get_unaligned_le32 (drop 24 s);
          a7 = get_unaligned_le32 (drop 28 s)
      in (a0 AND mask 26,
          drop_bit 26 a0 OR push_bit 6 (a1 AND mask 19),
          drop_bit 19 a1 OR push_bit 13 (a2 AND mask 13),
          drop_bit 13 a2 OR push_bit 19 (a3 AND mask 6),
          drop_bit 6 a3,
          a4 AND mask 25,
          drop_bit 25 a4 OR push_bit 7 (a5 AND mask 19),
          drop_bit 19 a5 OR push_bit 13 (a6 AND mask 12),
          drop_bit 12 a6 OR push_bit 20 (a7 AND mask 6),
          drop_bit 6 a7 AND mask 25))"

definition addcarryx_u25 :: "u8 \<Rightarrow> u32 \<Rightarrow> u32 \<Rightarrow> u32 \<times> u8" where
  "addcarryx_u25 c a b = (let x = a + b + ucast c in (x AND mask 25, ucast (drop_bit 25 x AND 1)))"

definition addcarryx_u26 :: "u8 \<Rightarrow> u32 \<Rightarrow> u32 \<Rightarrow> u32 \<times> u8" where
  "addcarryx_u26 c a b = (let x = a + b + ucast c in (x AND mask 26, ucast (drop_bit 26 x AND 1)))"

definition subborrow_u25 :: "u8 \<Rightarrow> u32 \<Rightarrow> u32 \<Rightarrow> u32 \<times> u8" where
  "subborrow_u25 c a b = (let x = a - b - ucast c in (x AND mask 25, ucast (drop_bit 31 x)))"

definition subborrow_u26 :: "u8 \<Rightarrow> u32 \<Rightarrow> u32 \<Rightarrow> u32 \<times> u8" where
  "subborrow_u26 c a b = (let x = a - b - ucast c in (x AND mask 26, ucast (drop_bit 31 x)))"

definition cmovznz32 :: "u32 \<Rightarrow> u32 \<Rightarrow> u32 \<Rightarrow> u32" where
  "cmovznz32 t z nz = (let t = - of_bool (t \<noteq> 0) in (t AND nz) OR (NOT t AND z))"

definition fe_freeze :: "fe \<Rightarrow> fe" where
  "fe_freeze = (\<lambda>(h0, h1, h2, h3, h4, h5, h6, h7, h8, h9).
     (let (l0, b0) = subborrow_u26 0 h0 0x3ffffed;
          (l1, b1) = subborrow_u25 b0 h1 0x1ffffff;
          (l2, b2) = subborrow_u26 b1 h2 0x3ffffff;
          (l3, b3) = subborrow_u25 b2 h3 0x1ffffff;
          (l4, b4) = subborrow_u26 b3 h4 0x3ffffff;
          (l5, b5) = subborrow_u25 b4 h5 0x1ffffff;
          (l6, b6) = subborrow_u26 b5 h6 0x3ffffff;
          (l7, b7) = subborrow_u25 b6 h7 0x1ffffff;
          (l8, b8) = subborrow_u26 b7 h8 0x3ffffff;
          (l9, b9) = subborrow_u25 b8 h9 0x1ffffff;
          m = cmovznz32 (ucast b9) 0 0xffffffff;
          (o0, c0) = addcarryx_u26 0 l0 (m AND 0x3ffffed);
          (o1, c1) = addcarryx_u25 c0 l1 (m AND 0x1ffffff);
          (o2, c2) = addcarryx_u26 c1 l2 (m AND 0x3ffffff);
          (o3, c3) = addcarryx_u25 c2 l3 (m AND 0x1ffffff);
          (o4, c4) = addcarryx_u26 c3 l4 (m AND 0x3ffffff);
          (o5, c5) = addcarryx_u25 c4 l5 (m AND 0x1ffffff);
          (o6, c6) = addcarryx_u26 c5 l6 (m AND 0x3ffffff);
          (o7, c7) = addcarryx_u25 c6 l7 (m AND 0x1ffffff);
          (o8, c8) = addcarryx_u26 c7 l8 (m AND 0x3ffffff);
          (o9, c9) = addcarryx_u25 c8 l9 (m AND 0x1ffffff)
      in (o0, o1, o2, o3, o4, o5, o6, o7, o8, o9)))"

definition fe_tobytes :: "fe \<Rightarrow> bytes" where
  "fe_tobytes f =
     (let (h0, h1, h2, h3, h4, h5, h6, h7, h8, h9) = fe_freeze f
      in map ucast
         [h0, drop_bit 8 h0, drop_bit 16 h0, drop_bit 24 h0 OR push_bit 2 h1,
          drop_bit 6 h1, drop_bit 14 h1, drop_bit 22 h1 OR push_bit 3 h2,
          drop_bit 5 h2, drop_bit 13 h2, drop_bit 21 h2 OR push_bit 5 h3,
          drop_bit 3 h3, drop_bit 11 h3, drop_bit 19 h3 OR push_bit 6 h4,
          drop_bit 2 h4, drop_bit 10 h4, drop_bit 18 h4,
          h5, drop_bit 8 h5, drop_bit 16 h5, drop_bit 24 h5 OR push_bit 1 h6,
          drop_bit 7 h6, drop_bit 15 h6, drop_bit 23 h6 OR push_bit 3 h7,
          drop_bit 5 h7, drop_bit 13 h7, drop_bit 21 h7 OR push_bit 4 h8,
          drop_bit 4 h8, drop_bit 12 h8, drop_bit 20 h8 OR push_bit 6 h9,
          drop_bit 2 h9, drop_bit 10 h9, drop_bit 18 h9])"

subsection \<open>Field arithmetic\<close>

definition fe_0 :: fe where
  "fe_0 = (0, 0, 0, 0, 0, 0, 0, 0, 0, 0)"

definition fe_1 :: fe where
  "fe_1 = (1, 0, 0, 0, 0, 0, 0, 0, 0, 0)"

definition fe_add :: "fe \<Rightarrow> fe \<Rightarrow> fe" where
  "fe_add = (\<lambda>(x5, x7, x9, x11, x13, x15, x17, x19, x21, x20) (x23, x25, x27, x29, x31, x33, x35, x37, x39, x38).
     (x5 + x23, x7 + x25, x9 + x27, x11 + x29, x13 + x31, x15 + x33, x17 + x35, x19 + x37, x21 + x39, x20 + x38))"

definition fe_sub :: "fe \<Rightarrow> fe \<Rightarrow> fe" where
  "fe_sub = (\<lambda>(x5, x7, x9, x11, x13, x15, x17, x19, x21, x20) (x23, x25, x27, x29, x31, x33, x35, x37, x39, x38).
     ((0x7ffffda + x5) - x23, (0x3fffffe + x7) - x25, (0x7fffffe + x9) - x27, (0x3fffffe + x11) - x29,
      (0x7fffffe + x13) - x31, (0x3fffffe + x15) - x33, (0x7fffffe + x17) - x35, (0x3fffffe + x19) - x37,
      (0x7fffffe + x21) - x39, (0x3fffffe + x20) - x38))"

text \<open>
  A multiplication and a squaring make the nineteen sums of products, fold the upper nine into the lower ones with a
  factor of 19 made of shifts, and end with the same carries.
\<close>

definition fold19 :: "u64 \<Rightarrow> u64 \<Rightarrow> u64" where
  "fold19 lo hi = (let a = lo + push_bit 4 hi; b = a + push_bit 1 hi in b + hi)"

definition fe_carry :: "fe_wide \<Rightarrow> fe" where
  "fe_carry = (\<lambda>(c0, c1, c2, c3, c4, c5, c6, c7, c8, c9).
     (let r0 = (ucast c0 :: u32) AND 0x3ffffff;
          s1 = drop_bit 26 c0 + c1;
          r1 = (ucast s1 :: u32) AND 0x1ffffff;
          s2 = drop_bit 25 s1 + c2;
          r2 = (ucast s2 :: u32) AND 0x3ffffff;
          s3 = drop_bit 26 s2 + c3;
          r3 = (ucast s3 :: u32) AND 0x1ffffff;
          s4 = drop_bit 25 s3 + c4;
          r4 = (ucast s4 :: u32) AND 0x3ffffff;
          s5 = drop_bit 26 s4 + c5;
          r5 = (ucast s5 :: u32) AND 0x1ffffff;
          s6 = drop_bit 25 s5 + c6;
          r6 = (ucast s6 :: u32) AND 0x3ffffff;
          s7 = drop_bit 26 s6 + c7;
          r7 = (ucast s7 :: u32) AND 0x1ffffff;
          s8 = drop_bit 25 s7 + c8;
          r8 = (ucast s8 :: u32) AND 0x3ffffff;
          s9 = drop_bit 26 s8 + c9;
          r9 = (ucast s9 :: u32) AND 0x1ffffff;
          t0 = ucast r0 + 0x13 * drop_bit 25 s9;
          u0 = (ucast (drop_bit 26 t0) :: u32);
          v0 = (ucast t0 :: u32) AND 0x3ffffff;
          t1 = u0 + r1;
          u1 = drop_bit 25 t1;
          v1 = t1 AND 0x1ffffff
      in (v0, v1, u1 + r2, r3, r4, r5, r6, r7, r8, r9)))"

definition fe_mul_products :: "fe \<Rightarrow> fe \<Rightarrow> fe_wide" where
  "fe_mul_products = (\<lambda>(x5, x7, x9, x11, x13, x15, x17, x19, x21, x20) (x23, x25, x27, x29, x31, x33, x35, x37, x39, x38).
     (let x40 = ucast x23 * ucast x5;
          x41 = (ucast x23 * ucast x7) + (ucast x25 * ucast x5);
          x42 = ((ucast (2 * x25) * ucast x7) + (ucast x23 * ucast x9)) + (ucast x27 * ucast x5);
          x43 = (((ucast x25 * ucast x9) + (ucast x27 * ucast x7)) + (ucast x23 * ucast x11)) + (ucast x29 * ucast x5);
          x44 = (((ucast x27 * ucast x9) + (2 * ((ucast x25 * ucast x11) + (ucast x29 * ucast x7)))) + (ucast x23 * ucast x13)) + (ucast x31 * ucast x5);
          x45 = (((((ucast x27 * ucast x11) + (ucast x29 * ucast x9)) + (ucast x25 * ucast x13)) + (ucast x31 * ucast x7)) + (ucast x23 * ucast x15)) + (ucast x33 * ucast x5);
          x46 = ((((2 * (((ucast x29 * ucast x11) + (ucast x25 * ucast x15)) + (ucast x33 * ucast x7))) + (ucast x27 * ucast x13)) + (ucast x31 * ucast x9)) + (ucast x23 * ucast x17)) + (ucast x35 * ucast x5);
          x47 = (((((((ucast x29 * ucast x13) + (ucast x31 * ucast x11)) + (ucast x27 * ucast x15)) + (ucast x33 * ucast x9)) + (ucast x25 * ucast x17)) + (ucast x35 * ucast x7)) + (ucast x23 * ucast x19)) + (ucast x37 * ucast x5);
          x48 = (((((ucast x31 * ucast x13) + (2 * ((((ucast x29 * ucast x15) + (ucast x33 * ucast x11)) + (ucast x25 * ucast x19)) + (ucast x37 * ucast x7)))) + (ucast x27 * ucast x17)) + (ucast x35 * ucast x9)) + (ucast x23 * ucast x21)) + (ucast x39 * ucast x5);
          x49 = (((((((((ucast x31 * ucast x15) + (ucast x33 * ucast x13)) + (ucast x29 * ucast x17)) + (ucast x35 * ucast x11)) + (ucast x27 * ucast x19)) + (ucast x37 * ucast x9)) + (ucast x25 * ucast x21)) + (ucast x39 * ucast x7)) + (ucast x23 * ucast x20)) + (ucast x38 * ucast x5);
          x50 = ((((2 * (((((ucast x33 * ucast x15) + (ucast x29 * ucast x19)) + (ucast x37 * ucast x11)) + (ucast x25 * ucast x20)) + (ucast x38 * ucast x7))) + (ucast x31 * ucast x17)) + (ucast x35 * ucast x13)) + (ucast x27 * ucast x21)) + (ucast x39 * ucast x9);
          x51 = (((((((ucast x33 * ucast x17) + (ucast x35 * ucast x15)) + (ucast x31 * ucast x19)) + (ucast x37 * ucast x13)) + (ucast x29 * ucast x21)) + (ucast x39 * ucast x11)) + (ucast x27 * ucast x20)) + (ucast x38 * ucast x9);
          x52 = (((ucast x35 * ucast x17) + (2 * ((((ucast x33 * ucast x19) + (ucast x37 * ucast x15)) + (ucast x29 * ucast x20)) + (ucast x38 * ucast x11)))) + (ucast x31 * ucast x21)) + (ucast x39 * ucast x13);
          x53 = (((((ucast x35 * ucast x19) + (ucast x37 * ucast x17)) + (ucast x33 * ucast x21)) + (ucast x39 * ucast x15)) + (ucast x31 * ucast x20)) + (ucast x38 * ucast x13);
          x54 = ((2 * (((ucast x37 * ucast x19) + (ucast x33 * ucast x20)) + (ucast x38 * ucast x15))) + (ucast x35 * ucast x21)) + (ucast x39 * ucast x17);
          x55 = (((ucast x37 * ucast x21) + (ucast x39 * ucast x19)) + (ucast x35 * ucast x20)) + (ucast x38 * ucast x17);
          x56 = (ucast x39 * ucast x21) + (2 * ((ucast x37 * ucast x20) + (ucast x38 * ucast x19)));
          x57 = (ucast x39 * ucast x20) + (ucast x38 * ucast x21);
          x58 = ucast (2 * x38) * ucast x20
      in (fold19 x40 x50, fold19 x41 x51, fold19 x42 x52, fold19 x43 x53, fold19 x44 x54,
          fold19 x45 x55, fold19 x46 x56, fold19 x47 x57, fold19 x48 x58, x49)))"

definition fe_mul :: "fe \<Rightarrow> fe \<Rightarrow> fe" where
  "fe_mul f g = fe_carry (fe_mul_products f g)"

definition fe_sqr_products :: "fe \<Rightarrow> fe_wide" where
  "fe_sqr_products = (\<lambda>(x2, x4, x6, x8, x10, x12, x14, x16, x18, x17).
     (let x19 = ucast x2 * ucast x2;
          x20 = ucast (2 * x2) * ucast x4;
          x21 = 2 * ((ucast x4 * ucast x4) + (ucast x2 * ucast x6));
          x22 = 2 * ((ucast x4 * ucast x6) + (ucast x2 * ucast x8));
          x23 = ((ucast x6 * ucast x6) + (ucast (4 * x4) * ucast x8)) + (ucast (2 * x2) * ucast x10);
          x24 = 2 * (((ucast x6 * ucast x8) + (ucast x4 * ucast x10)) + (ucast x2 * ucast x12));
          x25 = 2 * ((((ucast x8 * ucast x8) + (ucast x6 * ucast x10)) + (ucast x2 * ucast x14)) + (ucast (2 * x4) * ucast x12));
          x26 = 2 * ((((ucast x8 * ucast x10) + (ucast x6 * ucast x12)) + (ucast x4 * ucast x14)) + (ucast x2 * ucast x16));
          x27 = (ucast x10 * ucast x10) + (2 * (((ucast x6 * ucast x14) + (ucast x2 * ucast x18)) + (2 * ((ucast x4 * ucast x16) + (ucast x8 * ucast x12)))));
          x28 = 2 * (((((ucast x10 * ucast x12) + (ucast x8 * ucast x14)) + (ucast x6 * ucast x16)) + (ucast x4 * ucast x18)) + (ucast x2 * ucast x17));
          x29 = 2 * ((((ucast x12 * ucast x12) + (ucast x10 * ucast x14)) + (ucast x6 * ucast x18)) + (2 * ((ucast x8 * ucast x16) + (ucast x4 * ucast x17))));
          x30 = 2 * ((((ucast x12 * ucast x14) + (ucast x10 * ucast x16)) + (ucast x8 * ucast x18)) + (ucast x6 * ucast x17));
          x31 = (ucast x14 * ucast x14) + (2 * ((ucast x10 * ucast x18) + (2 * ((ucast x12 * ucast x16) + (ucast x8 * ucast x17)))));
          x32 = 2 * (((ucast x14 * ucast x16) + (ucast x12 * ucast x18)) + (ucast x10 * ucast x17));
          x33 = 2 * (((ucast x16 * ucast x16) + (ucast x14 * ucast x18)) + (ucast (2 * x12) * ucast x17));
          x34 = 2 * ((ucast x16 * ucast x18) + (ucast x14 * ucast x17));
          x35 = (ucast x18 * ucast x18) + (ucast (4 * x16) * ucast x17);
          x36 = ucast (2 * x18) * ucast x17;
          x37 = ucast (2 * x17) * ucast x17
      in (fold19 x19 x29, fold19 x20 x30, fold19 x21 x31, fold19 x22 x32, fold19 x23 x33,
          fold19 x24 x34, fold19 x25 x35, fold19 x26 x36, fold19 x27 x37, x28)))"

definition fe_sq :: "fe \<Rightarrow> fe" where
  "fe_sq f = fe_carry (fe_sqr_products f)"

text \<open>The code of \<open>fe_mul_121666_impl\<close> is that of \<open>fe_mul_impl\<close> with the limbs of the second factor constant.\<close>

definition fe_mul121666 :: "fe \<Rightarrow> fe" where
  "fe_mul121666 f = fe_carry (fe_mul_products f (121666, 0, 0, 0, 0, 0, 0, 0, 0, 0))"

definition fe_loose_invert :: "fe \<Rightarrow> fe" where
  "fe_loose_invert z =
     (let t0 = fe_sq z;
          t1 = fe_sq t0;
          t1 = (fe_sq ^^ (2 - 1)) t1;
          t1 = fe_mul z t1;
          t0 = fe_mul t0 t1;
          t2 = fe_sq t0;
          t1 = fe_mul t1 t2;
          t2 = fe_sq t1;
          t2 = (fe_sq ^^ (5 - 1)) t2;
          t1 = fe_mul t2 t1;
          t2 = fe_sq t1;
          t2 = (fe_sq ^^ (10 - 1)) t2;
          t2 = fe_mul t2 t1;
          t3 = fe_sq t2;
          t3 = (fe_sq ^^ (20 - 1)) t3;
          t2 = fe_mul t3 t2;
          t2 = fe_sq t2;
          t2 = (fe_sq ^^ (10 - 1)) t2;
          t1 = fe_mul t2 t1;
          t2 = fe_sq t1;
          t2 = (fe_sq ^^ (50 - 1)) t2;
          t2 = fe_mul t2 t1;
          t3 = fe_sq t2;
          t3 = (fe_sq ^^ (100 - 1)) t3;
          t2 = fe_mul t3 t2;
          t2 = fe_sq t2;
          t2 = (fe_sq ^^ (50 - 1)) t2;
          t1 = fe_mul t2 t1;
          t1 = fe_sq t1;
          t1 = (fe_sq ^^ (5 - 1)) t1
      in fe_mul t1 t0)"

definition fe_invert :: "fe \<Rightarrow> fe" where
  "fe_invert z = fe_loose_invert z"

subsection \<open>The ladder\<close>

definition fe_cswap_limb :: "u32 \<Rightarrow> u32 \<Rightarrow> u32 \<Rightarrow> u32 \<times> u32" where
  "fe_cswap_limb b f g = (let x = f XOR g; x = x AND b in (f XOR x, g XOR x))"

definition fe_cswap :: "fe \<Rightarrow> fe \<Rightarrow> u32 \<Rightarrow> fe \<times> fe" where
  "fe_cswap = (\<lambda>(f0, f1, f2, f3, f4, f5, f6, f7, f8, f9) (g0, g1, g2, g3, g4, g5, g6, g7, g8, g9) b.
     (let b = 0 - b;
          (f0, g0) = fe_cswap_limb b f0 g0;
          (f1, g1) = fe_cswap_limb b f1 g1;
          (f2, g2) = fe_cswap_limb b f2 g2;
          (f3, g3) = fe_cswap_limb b f3 g3;
          (f4, g4) = fe_cswap_limb b f4 g4;
          (f5, g5) = fe_cswap_limb b f5 g5;
          (f6, g6) = fe_cswap_limb b f6 g6;
          (f7, g7) = fe_cswap_limb b f7 g7;
          (f8, g8) = fe_cswap_limb b f8 g8;
          (f9, g9) = fe_cswap_limb b f9 g9
      in ((f0, f1, f2, f3, f4, f5, f6, f7, f8, f9), (g0, g1, g2, g3, g4, g5, g6, g7, g8, g9))))"

text \<open>The state of the loop of \<open>curve25519_generic\<close>: \<open>x2\<close>, \<open>z2\<close>, \<open>x3\<close> and \<open>z3\<close>.\<close>

type_synonym fe_points = "(fe \<times> fe) \<times> (fe \<times> fe)"

definition fe_ladder_step :: "fe \<Rightarrow> fe_points \<Rightarrow> fe_points" where
  "fe_ladder_step x1 = (\<lambda>((x2, z2), (x3, z3)).
     (let tmp0l = fe_sub x3 z3;
          tmp1l = fe_sub x2 z2;
          x2l = fe_add x2 z2;
          z2l = fe_add x3 z3;
          z3 = fe_mul tmp0l x2l;
          z2 = fe_mul z2l tmp1l;
          tmp0 = fe_sq tmp1l;
          tmp1 = fe_sq x2l;
          x3l = fe_add z3 z2;
          z2l = fe_sub z3 z2;
          x2 = fe_mul tmp1 tmp0;
          tmp1l = fe_sub tmp1 tmp0;
          z2 = fe_sq z2l;
          z3 = fe_mul121666 tmp1l;
          x3 = fe_sq x3l;
          tmp0l = fe_add tmp0 z3;
          z3 = fe_mul x1 z2;
          z2 = fe_mul tmp1l tmp0l
      in ((x2, z2), (x3, z3))))"

fun fe_points_cswap :: "fe_points \<Rightarrow> u32 \<Rightarrow> fe_points" where
  "fe_points_cswap ((x2, z2), (x3, z3)) swp =
     (let (x2, x3) = fe_cswap x2 x3 swp; (z2, z3) = fe_cswap z2 z3 swp in ((x2, z2), (x3, z3)))"

text \<open>The argument is \<open>pos + 1\<close>; the loop has the bit of the last step in \<open>swp\<close>.\<close>

primrec fe_ladder :: "bytes \<Rightarrow> fe \<Rightarrow> nat \<Rightarrow> fe_points \<Rightarrow> u32 \<Rightarrow> fe_points \<times> u32" where
  "fe_ladder e x1 0 s swp = (s, swp)"
| "fe_ladder e x1 (Suc pos) s swp =
     (let b = 1 AND ucast (drop_bit (pos mod 8) (e ! (pos div 8)));
          s = fe_points_cswap s (swp XOR b)
      in fe_ladder e x1 pos (fe_ladder_step x1 s) b)"

definition curve25519_generic_fiat :: "bytes \<Rightarrow> bytes \<Rightarrow> bytes" where
  "curve25519_generic_fiat scalar point =
     (let e = curve25519_clamp_secret scalar;
          x1 = fe_frombytes point;
          (s, swp) = fe_ladder e x1 255 ((fe_1, fe_0), (x1, fe_1)) 0;
          ((x2, z2), (x3, z3)) = fe_points_cswap s swp;
          z2 = fe_invert z2;
          x2 = fe_mul x2 z2
      in fe_tobytes x2)"

subsection \<open>The function the tools call\<close>

text \<open>
  \<open>curve25519.c\<close> includes one of the two implementations; \<open>int128\<close> says whether the compiler has integers of 128 bits
  (\<open>__SIZEOF_INT128__\<close>), as it has for the 64-bit ABIs.
\<close>

definition curve25519 :: "bool \<Rightarrow> bytes \<Rightarrow> bytes \<Rightarrow> bytes" where
  "curve25519 int128 secret basepoint =
     (if int128 then curve25519_generic secret basepoint else curve25519_generic_fiat secret basepoint)"

definition curve25519_generate_public :: "bool \<Rightarrow> bytes \<Rightarrow> bytes" where
  "curve25519_generate_public int128 secret = curve25519 int128 secret (9 # replicate 31 0)"

lemma length_put_unaligned_le64: "length (put_unaligned_le64 x) = 8"
  by (simp add: put_unaligned_le64_def)

lemma length_curve25519_generate_public: "length (curve25519_generate_public int128 secret) = 32"
proof -
  have "length (format_fcontract_store t) = 32" for t
    by (cases t rule: prod_cases5) (simp add: length_put_unaligned_le64 Let_def)
  then have "length (format_fcontract t) = 32" for t by (simp add: format_fcontract_def)
  moreover have "length (fe_tobytes h) = 32" for h
    by (simp add: fe_tobytes_def Let_def split: prod.split)
  ultimately show ?thesis
    by (simp add: curve25519_generate_public_def curve25519_def curve25519_generic_def format_scalar_of_point_def
        curve25519_generic_fiat_def Let_def split: prod.split)
qed

end
