(* ===== verification/Wg_Uapi.thy ===== *)
theory Wg_Uapi
  imports Wg_Setconf Wg_Fiat
begin

text \<open>
  The text protocol of the userspace implementations, \<open>wireguard-tools/src/ipc-uapi.h\<close>: what
  \<open>userspace_set_device\<close> writes and how it reads the answer, and how \<open>userspace_get_device\<close> reads a
  device. The socket is an argument: for an interface name it is an error number or the function from
  what is written to what is read back. A negative return value is \<^term>\<open>Error\<close> with that value.
\<close>

definition EPROTO :: int where "EPROTO = 71"

definition ENETUNREACH :: int where "ENETUNREACH = 101"

type_synonym uapi_socket = "string \<Rightarrow> int + (string \<Rightarrow> string)"

subsection \<open>Setting a device\<close>

definition uapi_allowedip :: "libc \<Rightarrow> wgallowedip \<Rightarrow> string" where
  "uapi_allowedip L a =
     (case (if family a = of_nat AF_INET then inet_ntop L AF_INET (take 4 (ip a))
            else if family a = of_nat AF_INET6 then inet_ntop L AF_INET6 (ip a)
            else None) of
        None \<Rightarrow> []
      | Some t \<Rightarrow> ''allowed_ip='' @ (if has_flag (a_flags a) WGALLOWEDIP_REMOVE_ME then ''-'' else []) @ t
                   @ ''/'' @ dec_string (unat (cidr a)) @ [newline])"

definition uapi_endpoint :: "libc \<Rightarrow> bytes \<Rightarrow> string" where
  "uapi_endpoint L ep =
     (if sa_family ep = AF_INET \<or> sa_family ep = AF_INET6 then
        let addr_len = (if sa_family ep = AF_INET then 16 else if sa_family ep = AF_INET6 then 28 else 0)
        in case getnameinfo L (take addr_len ep) of
             Some (host, service) \<Rightarrow>
               if sa_family ep = AF_INET6 \<and> strchr host (CHR '':'') \<noteq> None
               then ''endpoint=['' @ host @ '']:'' @ service @ [newline]
               else ''endpoint='' @ host @ '':'' @ service @ [newline]
           | None \<Rightarrow> []
      else [])"

definition uapi_peer :: "libc \<Rightarrow> wgpeer \<Rightarrow> string" where
  "uapi_peer L peer =
     ''public_key='' @ key_to_hex (public_key peer) @ [newline]
     @ (if has_flag (p_flags peer) WGPEER_REMOVE_ME then ''remove=true'' @ [newline]
        else
          (if has_flag (p_flags peer) WGPEER_HAS_PRESHARED_KEY
           then ''preshared_key='' @ key_to_hex (preshared_key peer) @ [newline] else [])
          @ uapi_endpoint L (endpoint peer)
          @ (if has_flag (p_flags peer) WGPEER_HAS_PERSISTENT_KEEPALIVE_INTERVAL
             then ''persistent_keepalive_interval='' @ dec_string (unat (persistent_keepalive_interval peer)) @ [newline] else [])
          @ (if has_flag (p_flags peer) WGPEER_REPLACE_ALLOWEDIPS then ''replace_allowed_ips=true'' @ [newline] else [])
          @ concat (map (uapi_allowedip L) (allowedips peer)))"

definition uapi_set_body :: "libc \<Rightarrow> wgdevice \<Rightarrow> string" where
  "uapi_set_body L dev =
     ''set=1'' @ [newline]
     @ (if has_flag (d_flags dev) WGDEVICE_HAS_PRIVATE_KEY then ''private_key='' @ key_to_hex (private_key dev) @ [newline] else [])
     @ (if has_flag (d_flags dev) WGDEVICE_HAS_LISTEN_PORT then ''listen_port='' @ dec_string (unat (listen_port dev)) @ [newline] else [])
     @ (if has_flag (d_flags dev) WGDEVICE_HAS_FWMARK then ''fwmark='' @ dec_string (unat (fwmark dev)) @ [newline] else [])
     @ (if has_flag (d_flags dev) WGDEVICE_REPLACE_PEERS then ''replace_peers=true'' @ [newline] else [])
     @ concat (map (uapi_peer L) (peers dev))"

text \<open>\<open>strtoll (s, &end, 10)\<close> for 64 bits, saturating at both ends.\<close>

definition strtoll :: "string \<Rightarrow> int \<times> string" where
  "strtoll s =
     (let (neg, s2) = strip_sign (dropWhile isspace s);
          ds = takeWhile (is_digit_in 10) s2;
          n = int (digits_value 10 ds)
      in if ds = [] then (0, s)
         else (if neg then max (- (2 ^ 63)) (- n) else min (2 ^ 63 - 1) n, dropWhile (is_digit_in 10) s2))"

text \<open>
  A line as the two loops take it apart: \<open>None\<close> is a malformed line, \<open>Some None\<close> the empty line that
  ends the answer, otherwise the key and the value.
\<close>

definition uapi_line :: "string \<Rightarrow> (string \<times> string) option option" where
  "uapi_line line =
     (let key = takeWhile (\<lambda>c. c \<noteq> NUL) line in
      if key = [newline] then Some None
      else case split_first (CHR ''='') key of
             None \<Rightarrow> None
           | Some (key', value) \<Rightarrow> if last key \<noteq> newline then None else Some (Some (key', butlast value)))"

text \<open>The answer to a request; \<open>err\<close> is the value of \<open>errno\<close> when the answer ends too early.\<close>

fun uapi_set_answer :: "libc \<Rightarrow> int \<Rightarrow> int \<Rightarrow> string list \<Rightarrow> int" where
  "uapi_set_answer L err set_errno [] = (if err \<noteq> 0 then - err else - EPROTO)"
| "uapi_set_answer L err set_errno (line # lines) =
     (case uapi_line line of
        None \<Rightarrow> (if err \<noteq> 0 then - err else - EPROTO)
      | Some None \<Rightarrow> set_errno
      | Some (Some (key, value)) \<Rightarrow>
          if key = ''errno'' then
            if first_char value \<noteq> CHR ''-'' \<and> \<not> char_is_digit (plain_char (char_signed L) (first_char value))
            then (if err \<noteq> 0 then - err else - EPROTO)
            else
              let (num, end) = strtoll value
              in if end \<noteq> [] \<or> num > 2 ^ 31 - 1 \<or> num < - (2 ^ 31)
                 then (if err \<noteq> 0 then - err else - EPROTO)
                 else uapi_set_answer L err num lines
          else uapi_set_answer L err set_errno lines)"

definition userspace_set_device :: "libc \<Rightarrow> uapi_socket \<Rightarrow> int \<Rightarrow> wgdevice \<Rightarrow> int" where
  "userspace_set_device L sock err dev =
     (case sock (name dev) of
        Inl e \<Rightarrow> - e
      | Inr reply \<Rightarrow> uapi_set_answer L err (- EPROTO) (getlines (reply (uapi_set_body L dev @ [newline]))))"

subsection \<open>Getting a device\<close>

record get_state =
  g_dev :: wgdevice
  g_peer :: "nat option"
  g_allowedip :: "nat option"
  g_ret :: int

text \<open>\<open>NUM (max)\<close>; without a number the statement expression breaks out of the loop.\<close>

definition uapi_num :: "libc \<Rightarrow> nat \<Rightarrow> string \<Rightarrow> (int, nat) outcome" where
  "uapi_num L bound value =
     (if \<not> char_is_digit (plain_char (char_signed L) (first_char value)) then Error (- EPROTO)
      else
        let (num, end) = strtoul 64 10 value
        in if end \<noteq> [] \<or> num > bound then Error (- EPROTO) else Done num)"

definition on_peer :: "get_state \<Rightarrow> (wgpeer \<Rightarrow> (int, wgpeer \<times> nat option) outcome) \<Rightarrow> (int, get_state) outcome" where
  "on_peer st f =
     (case g_peer st of
        None \<Rightarrow> Crash
      | Some i \<Rightarrow>
          if i < length (peers (g_dev st)) then
            and_then (f (peers (g_dev st) ! i)) (\<lambda>(peer, lp).
              Done (st\<lparr>g_dev := (g_dev st)\<lparr>peers := (peers (g_dev st))[i := peer]\<rparr>, g_allowedip := lp\<rparr>))
          else Crash)"

definition hex_key :: "bytes \<Rightarrow> string \<Rightarrow> (int, bytes) outcome" where
  "hex_key key value = (case key_from_hex key value of (True, k) \<Rightarrow> Done k | (False, _) \<Rightarrow> Error (- EPROTO))"

definition uapi_get_endpoint :: "libc \<Rightarrow> bytes \<Rightarrow> string \<Rightarrow> (int, bytes) outcome" where
  "uapi_get_endpoint L ep value =
     (case split_endpoint value of
        Done (begin, end) \<Rightarrow>
          (case getaddrinfo L False (Some begin) end 0 of (ret, resolved) \<Rightarrow>
             if ret \<noteq> 0 then Error ENETUNREACH
             else if (ai_family resolved = AF_INET \<and> length (ai_addr resolved) = 16) \<or>
                     (ai_family resolved = AF_INET6 \<and> length (ai_addr resolved) = 28)
               then Done (overwrite (ai_addr resolved) ep)
             else Error (- EPROTO))
      | _ \<Rightarrow> Error (- EPROTO))"

text \<open>The prefix length is stored in its eight bits before it is checked.\<close>

definition uapi_get_allowedip :: "libc \<Rightarrow> string \<Rightarrow> (int, wgallowedip) outcome" where
  "uapi_get_allowedip L value =
     (case strsep (CHR ''/'') value of
        (addr, None) \<Rightarrow> Error (- EPROTO)
      | (addr, Some rest) \<Rightarrow>
          if \<not> char_is_digit (plain_char (char_signed L) (first_char rest)) then Error (- EPROTO)
          else
            let new = (if strchr addr (CHR '':'') \<noteq> None then
                         (case inet_pton L AF_INET6 addr of
                            Some b \<Rightarrow> zero_allowedip\<lparr>ip := overwrite b (ip zero_allowedip), family := of_nat AF_INET6\<rparr>
                          | None \<Rightarrow> zero_allowedip)
                       else
                         (case inet_pton L AF_INET addr of
                            Some b \<Rightarrow> zero_allowedip\<lparr>ip := overwrite b (ip zero_allowedip), family := of_nat AF_INET\<rparr>
                          | None \<Rightarrow> zero_allowedip));
                (n, end) = strtoul (ulong_bits L) 10 rest;
                new = new\<lparr>cidr := of_nat n\<rparr>
            in if end \<noteq> [] \<or> family new = of_nat AF_UNSPEC \<or> (family new = of_nat AF_INET6 \<and> cidr new > 128) \<or>
                  (family new = of_nat AF_INET \<and> cidr new > 32)
               then Error (- EPROTO) else Done new)"

text \<open>One line of the answer; \<open>int128\<close> is the choice that \<open>curve25519.c\<close> makes.\<close>

definition uapi_get_device_key :: "libc \<Rightarrow> bool \<Rightarrow> string \<Rightarrow> string \<Rightarrow> wgdevice \<Rightarrow> (int, wgdevice) outcome" where
  "uapi_get_device_key L int128 key value dev =
     (if key = ''private_key'' then
        and_then (hex_key (private_key dev) value) (\<lambda>k.
          Done (dev\<lparr>private_key := k, d_public_key := curve25519_generate_public int128 k,
                    d_flags := d_flags dev OR (WGDEVICE_HAS_PRIVATE_KEY OR WGDEVICE_HAS_PUBLIC_KEY)\<rparr>))
      else if key = ''listen_port'' then
        and_then (uapi_num L 0xffff value) (\<lambda>n.
          Done (dev\<lparr>listen_port := of_nat n, d_flags := d_flags dev OR WGDEVICE_HAS_LISTEN_PORT\<rparr>))
      else
        and_then (uapi_num L 0xffffffff value) (\<lambda>n.
          Done (dev\<lparr>fwmark := of_nat n, d_flags := d_flags dev OR WGDEVICE_HAS_FWMARK\<rparr>)))"

definition uapi_get_peer_key :: "libc \<Rightarrow> string \<Rightarrow> string \<Rightarrow> nat option \<Rightarrow> wgpeer \<Rightarrow> (int, wgpeer \<times> nat option) outcome" where
  "uapi_get_peer_key L key value lp peer =
     (if key = ''preshared_key'' then
        and_then (hex_key (preshared_key peer) value) (\<lambda>k.
          Done (peer\<lparr>preshared_key := k,
                     p_flags := (if key_is_zero k then p_flags peer else p_flags peer OR WGPEER_HAS_PRESHARED_KEY)\<rparr>, lp))
      else if key = ''endpoint'' then
        and_then (uapi_get_endpoint L (endpoint peer) value) (\<lambda>ep. Done (peer\<lparr>endpoint := ep\<rparr>, lp))
      else if key = ''persistent_keepalive_interval'' then
        and_then (uapi_num L 0xffff value) (\<lambda>n.
          Done (peer\<lparr>persistent_keepalive_interval := of_nat n,
                     p_flags := p_flags peer OR WGPEER_HAS_PERSISTENT_KEEPALIVE_INTERVAL\<rparr>, lp))
      else if key = ''allowed_ip'' then
        and_then (uapi_get_allowedip L value) (\<lambda>new.
          let (chain, lp) = link_last new (allowedips peer, lp) in Done (peer\<lparr>allowedips := chain\<rparr>, lp))
      else if key = ''last_handshake_time_sec'' then
        and_then (uapi_num L 0x7fffffffffffffff value) (\<lambda>n.
          Done (peer\<lparr>last_handshake_time := (last_handshake_time peer)\<lparr>tv_sec := of_nat n\<rparr>\<rparr>, lp))
      else if key = ''last_handshake_time_nsec'' then
        and_then (uapi_num L 0x7fffffffffffffff value) (\<lambda>n.
          Done (peer\<lparr>last_handshake_time := (last_handshake_time peer)\<lparr>tv_nsec := of_nat n\<rparr>\<rparr>, lp))
      else if key = ''rx_bytes'' then
        and_then (uapi_num L 0xffffffffffffffff value) (\<lambda>n. Done (peer\<lparr>rx_bytes := of_nat n\<rparr>, lp))
      else
        and_then (uapi_num L 0xffffffffffffffff value) (\<lambda>n. Done (peer\<lparr>tx_bytes := of_nat n\<rparr>, lp)))"

definition uapi_get_step :: "libc \<Rightarrow> bool \<Rightarrow> string \<Rightarrow> string \<Rightarrow> get_state \<Rightarrow> (int, get_state) outcome" where
  "uapi_get_step L int128 key value st =
     (if g_peer st = None \<and> key \<in> {''private_key'', ''listen_port'', ''fwmark''} then
        and_then (uapi_get_device_key L int128 key value (g_dev st)) (\<lambda>dev. Done (st\<lparr>g_dev := dev\<rparr>))
      else if key = ''public_key'' then
        (let (chain, lp) = link_last zero_peer (peers (g_dev st), g_peer st)
         in on_peer (st\<lparr>g_dev := (g_dev st)\<lparr>peers := chain\<rparr>, g_peer := lp, g_allowedip := None\<rparr>) (\<lambda>peer.
              and_then (hex_key (public_key peer) value) (\<lambda>k.
                Done (peer\<lparr>public_key := k, p_flags := p_flags peer OR WGPEER_HAS_PUBLIC_KEY\<rparr>, None))))
      else if g_peer st \<noteq> None \<and> key \<in> {''preshared_key'', ''endpoint'', ''persistent_keepalive_interval'', ''allowed_ip'',
          ''last_handshake_time_sec'', ''last_handshake_time_nsec'', ''rx_bytes'', ''tx_bytes''} then
        on_peer st (uapi_get_peer_key L key value (g_allowedip st))
      else if key = ''errno'' then
        and_then (uapi_num L 0x7fffffff value) (\<lambda>n. Done (st\<lparr>g_ret := - int n\<rparr>))
      else Done st)"

fun uapi_get_lines :: "libc \<Rightarrow> bool \<Rightarrow> string list \<Rightarrow> get_state \<Rightarrow> (int, wgdevice) outcome" where
  "uapi_get_lines L int128 [] st = Error (- EPROTO)"
| "uapi_get_lines L int128 (line # lines) st =
     (case uapi_line line of
        None \<Rightarrow> Error (- EPROTO)
      | Some None \<Rightarrow> if g_ret st \<noteq> 0 then Error (g_ret st) else Done (g_dev st)
      | Some (Some (key, value)) \<Rightarrow> and_then (uapi_get_step L int128 key value st) (uapi_get_lines L int128 lines))"

definition userspace_get_device :: "libc \<Rightarrow> bool \<Rightarrow> uapi_socket \<Rightarrow> string \<Rightarrow> (int, wgdevice) outcome" where
  "userspace_get_device L int128 sock iface =
     (case sock iface of
        Inl e \<Rightarrow> Error (- e)
      | Inr reply \<Rightarrow>
          uapi_get_lines L int128 (getlines (reply (''get=1'' @ [newline, newline])))
            \<lparr>g_dev = zero_device\<lparr>name := strncpy_term IFNAMSIZ iface\<rparr>, g_peer = None, g_allowedip = None, g_ret = - EPROTO\<rparr>)"

subsection \<open>Every answer is read safely\<close>

definition get_ok :: "get_state \<Rightarrow> bool" where
  "get_ok st = (device_ok (g_dev st) \<and> chain_ok (peers (g_dev st), g_peer st) \<and>
     (peers (g_dev st) \<noteq> [] \<longrightarrow> chain_ok (allowedips (last (peers (g_dev st))), g_allowedip st)) \<and>
     list_all (\<lambda>p. has_flag (p_flags p) WGPEER_HAS_PUBLIC_KEY) (peers (g_dev st)))"

lemma hex_key_safe: "length key = WG_KEY_LEN \<Longrightarrow> safe (\<lambda>k. length k = WG_KEY_LEN) (hex_key key v)"
  by (auto simp: hex_key_def key_from_hex_iff WG_KEY_LEN_def split: prod.split bool.split)

lemma uapi_num_safe [simp]: "safe (\<lambda>n. n \<le> bound) (uapi_num L bound v)"
  by (auto simp: uapi_num_def Let_def split: prod.split)

lemma uapi_get_endpoint_safe:
  "length ep = 28 \<Longrightarrow> safe (\<lambda>ep. length ep = 28) (uapi_get_endpoint L ep v)"
  by (auto simp: uapi_get_endpoint_def overwrite_def split: outcome.split prod.split)

lemma uapi_get_allowedip_safe:
  assumes "libc_ok L"
  shows "safe allowedip_ok (uapi_get_allowedip L v)"
  using assms
  by (auto simp: uapi_get_allowedip_def Let_def libc_ok_def overwrite_def allowedip_ok_def zero_allowedip_def af_defs not_less
      split: prod.split option.split)

lemma on_peer_eq:
  assumes "chain_ok (peers (g_dev st), g_peer st)" "peers (g_dev st) \<noteq> []"
  shows "on_peer st f = and_then (f (last (peers (g_dev st)))) (\<lambda>(peer, lp).
      Done (st\<lparr>g_dev := (g_dev st)\<lparr>peers := butlast (peers (g_dev st)) @ [peer]\<rparr>, g_allowedip := lp\<rparr>))"
proof -
  obtain i where "g_peer st = Some i" "i < length (peers (g_dev st))" "peers (g_dev st) ! i = last (peers (g_dev st))"
    "\<And>x. (peers (g_dev st))[i := x] = butlast (peers (g_dev st)) @ [x]"
    by (rule last_pointer [OF assms]) blast
  then show ?thesis by (simp add: on_peer_def)
qed

lemma on_peer_safe:
  assumes st: "device_ok (g_dev st)" "chain_ok (peers (g_dev st), g_peer st)" "peers (g_dev st) \<noteq> []"
      "list_all (\<lambda>p. has_flag (p_flags p) WGPEER_HAS_PUBLIC_KEY) (butlast (peers (g_dev st)))"
    and f: "safe (peer_inv (\<lambda>fl. has_flag fl WGPEER_HAS_PUBLIC_KEY)) (f (last (peers (g_dev st))))"
  shows "safe get_ok (on_peer st f)"
proof -
  have "list_all peer_ok (butlast (peers (g_dev st)))"
    using st peers_split [of peer_ok] by (simp add: device_ok_def)
  then show ?thesis
    unfolding on_peer_eq [OF st(2,3)] safe_and_then
    by (intro safe_mono [OF f]) (use st in \<open>auto simp: get_ok_def device_ok_def chain_ok_def peer_inv_def\<close>)
qed

lemma uapi_get_peer_key_safe:
  assumes L: "libc_ok L" and K: "flags_closed K" and p: "peer_inv K (p, lp)"
  shows "safe (peer_inv K) (uapi_get_peer_key L key v lp p)"
proof -
  have len: "length (endpoint p) = 28" "length (preshared_key p) = WG_KEY_LEN" "K (p_flags p)"
    using p by (simp_all add: peer_inv_def peer_ok_def)
  note inv = peer_inv_def peer_ok_def flags_closed_def
  have al: "safe (\<lambda>x. safe (peer_inv K) (let (chain, lp) = link_last x (allowedips p, lp) in Done (p\<lparr>allowedips := chain\<rparr>, lp)))
      (uapi_get_allowedip L v)"
    by (rule safe_mono [OF uapi_get_allowedip_safe [OF L]])
      (use p in \<open>auto simp: inv link_last_ok chain_ok_def\<close>)
  have ks: "safe (\<lambda>k. peer_inv K (p\<lparr>preshared_key := k,
      p_flags := (if key_is_zero k then p_flags p else p_flags p OR WGPEER_HAS_PRESHARED_KEY)\<rparr>, lp)) (hex_key (preshared_key p) v)"
    by (rule safe_mono [OF hex_key_safe [OF len(2)]]) (use p K in \<open>auto simp: inv\<close>)
  have ep: "safe (\<lambda>ep. peer_inv K (p\<lparr>endpoint := ep\<rparr>, lp)) (uapi_get_endpoint L (endpoint p) v)"
    by (rule safe_mono [OF uapi_get_endpoint_safe [OF len(1)]]) (use p in \<open>auto simp: inv\<close>)
  have num: "safe (\<lambda>n. peer_inv K (f n, lp)) (uapi_num L b v)" if "\<And>n. peer_inv K (f n, lp)" for b f
    by (rule safe_mono [OF uapi_num_safe]) (rule that)
  show ?thesis
    unfolding uapi_get_peer_key_def
    by (intro safe_if) (use al ks ep in \<open>auto intro!: num simp: Let_def\<close>, (use p K in \<open>auto simp: inv\<close>)+)
qed

lemma uapi_get_device_key_safe:
  assumes "device_ok dev"
  shows "safe (\<lambda>d. device_ok d \<and> peers d = peers dev) (uapi_get_device_key L int128 key v dev)"
proof -
  have len: "length (private_key dev) = WG_KEY_LEN" using assms(1) by (simp add: device_ok_def)
  have num: "safe (\<lambda>n. device_ok (f n) \<and> peers (f n) = peers dev) (uapi_num L b v)"
    if "\<And>n. device_ok (f n) \<and> peers (f n) = peers dev" for b f
    by (rule safe_mono [OF uapi_num_safe]) (rule that)
  show ?thesis
    unfolding uapi_get_device_key_def
    by (intro safe_if; simp only: safe_and_then safe.simps; (rule num | rule safe_mono [OF hex_key_safe [OF len]]))
      (use assms in \<open>auto simp: device_ok_def length_curve25519_generate_public WG_KEY_LEN_def\<close>)
qed

lemma uapi_get_step_safe:
  assumes L: "libc_ok L" and st: "get_ok st"
  shows "safe get_ok (uapi_get_step L int128 key v st)"
proof -
  let ?K = "\<lambda>fl. has_flag fl WGPEER_HAS_PUBLIC_KEY" and ?ps = "peers (g_dev st)"
  have dev: "safe get_ok (and_then (uapi_get_device_key L int128 key v (g_dev st)) (\<lambda>dev. Done (st\<lparr>g_dev := dev\<rparr>)))"
    unfolding safe_and_then
    by (rule safe_mono [OF uapi_get_device_key_safe]) (use st in \<open>auto simp: get_ok_def\<close>)
  have peer: "safe get_ok (on_peer st (uapi_get_peer_key L key v (g_allowedip st)))" if "g_peer st \<noteq> None"
  proof -
    have ne: "?ps \<noteq> []" using st that by (auto simp: get_ok_def chain_ok_def)
    have all: "list_all peer_ok ?ps" "list_all (\<lambda>p. ?K (p_flags p)) ?ps" using st by (simp_all add: get_ok_def device_ok_def)
    have "peer_inv ?K (last ?ps, g_allowedip st)"
      using st ne peers_split(1) [OF all(1) ne] peers_split(1) [OF all(2) ne] by (auto simp: peer_inv_def get_ok_def)
    then show ?thesis
      using st ne peers_split(2) [OF all(2) ne] uapi_get_peer_key_safe [OF L has_public_key_closed]
      by (intro on_peer_safe) (simp_all add: get_ok_def)
  qed
  have new: "safe get_ok (on_peer (st\<lparr>g_dev := (g_dev st)\<lparr>peers := chain\<rparr>, g_peer := lp, g_allowedip := None\<rparr>) (\<lambda>peer.
              and_then (hex_key (public_key peer) v) (\<lambda>k.
                Done (peer\<lparr>public_key := k, p_flags := p_flags peer OR WGPEER_HAS_PUBLIC_KEY\<rparr>, None))))"
    if "link_last zero_peer (?ps, g_peer st) = (chain, lp)" for chain lp
  proof (rule on_peer_safe)
    have c: "chain = ?ps @ [zero_peer]" "lp = Some (length ?ps)"
      using that link_last_ok [of ?ps "g_peer st" zero_peer] st by (auto simp: get_ok_def)
    let ?st = "st\<lparr>g_dev := (g_dev st)\<lparr>peers := chain\<rparr>, g_peer := lp, g_allowedip := None\<rparr>"
    show "device_ok (g_dev ?st)" "chain_ok (peers (g_dev ?st), g_peer ?st)" "peers (g_dev ?st) \<noteq> []"
      "list_all (\<lambda>p. has_flag (p_flags p) WGPEER_HAS_PUBLIC_KEY) (butlast (peers (g_dev ?st)))"
      using st c by (auto simp: get_ok_def device_ok_def chain_ok_def)
    have "safe (\<lambda>k. peer_inv ?K (zero_peer\<lparr>public_key := k, p_flags := p_flags zero_peer OR WGPEER_HAS_PUBLIC_KEY\<rparr>, None))
        (hex_key (public_key zero_peer) v)"
      by (rule safe_mono [OF hex_key_safe]) (auto simp: peer_inv_def peer_ok_def zero_peer_def chain_ok_def has_flag_def flag_defs)
    then show "safe (peer_inv ?K) (and_then (hex_key (public_key (last (peers (g_dev ?st)))) v) (\<lambda>k.
        Done ((last (peers (g_dev ?st)))\<lparr>public_key := k, p_flags := p_flags (last (peers (g_dev ?st))) OR WGPEER_HAS_PUBLIC_KEY\<rparr>, None)))"
      by (simp add: c)
  qed
  have err: "safe get_ok (and_then (uapi_num L 0x7fffffff v) (\<lambda>n. Done (st\<lparr>g_ret := - int n\<rparr>)))"
    unfolding safe_and_then by (rule safe_mono [OF uapi_num_safe]) (use st in \<open>simp add: get_ok_def\<close>)
  show ?thesis
    unfolding uapi_get_step_def
    by (intro safe_if) (use dev peer new err st in \<open>auto simp del: safe_and_then split: prod.split\<close>)
qed

lemma uapi_get_lines_safe:
  assumes L: "libc_ok L"
  shows "get_ok st \<Longrightarrow> safe (\<lambda>d. device_ok d \<and> list_all (\<lambda>p. has_flag (p_flags p) WGPEER_HAS_PUBLIC_KEY) (peers d))
    (uapi_get_lines L int128 ls st)"
proof (induction ls arbitrary: st)
  case (Cons l ls)
  have "safe get_ok (uapi_get_step L int128 k v st)" for k v by (rule uapi_get_step_safe [OF L Cons.prems])
  then have "safe (\<lambda>x. safe (\<lambda>d. device_ok d \<and> list_all (\<lambda>p. has_flag (p_flags p) WGPEER_HAS_PUBLIC_KEY) (peers d))
      (uapi_get_lines L int128 ls x)) (uapi_get_step L int128 k v st)" for k v
    by (rule safe_mono) (rule Cons.IH)
  with Cons.prems show ?case by (auto simp: get_ok_def split: option.split)
qed simp

text \<open>Reading an answer comes to an end: there is neither an endless loop nor an exit on the way.\<close>

definition returns :: "('e, 'a) outcome \<Rightarrow> bool" where
  "returns r \<longleftrightarrow> r \<noteq> Diverge \<and> (\<forall>e. r \<noteq> Exit e)"

lemma returns_simps [simp]:
  "returns (Done x)" "returns (Error e)" "returns Crash"
  "returns (and_then r f) \<longleftrightarrow> returns r \<and> (\<forall>x. r = Done x \<longrightarrow> returns (f x))"
  by (auto simp: returns_def) (cases r; auto)+

lemma returns_parts [simp]:
  "returns (hex_key k v)" "returns (uapi_num L b v)" "returns (uapi_get_endpoint L ep v)" "returns (uapi_get_allowedip L v)"
  by (auto simp: hex_key_def uapi_num_def uapi_get_endpoint_def uapi_get_allowedip_def Let_def
      split: prod.split bool.split option.split outcome.split)

lemma returns_step: "returns (uapi_get_step L int128 key v st)"
proof -
  have "returns (uapi_get_device_key L int128 key v dev)" for dev by (simp add: uapi_get_device_key_def)
  moreover have "returns (uapi_get_peer_key L key v lp p)" for lp p
    by (simp add: uapi_get_peer_key_def Let_def split: prod.split)
  moreover have "returns (on_peer s f)" if "\<And>p. returns (f p)" for s f
    using that by (auto simp: on_peer_def split: option.split prod.split)
  ultimately show ?thesis by (auto simp: uapi_get_step_def split: prod.split)
qed

lemma returns_lines: "returns (uapi_get_lines L int128 ls st)"
  by (induction ls arbitrary: st) (auto simp: returns_step split: option.split)

subsection \<open>The request read as an answer\<close>

text \<open>A device's request as keys and values.\<close>

abbreviation kv_text :: "string \<times> string \<Rightarrow> string" where
  "kv_text kv \<equiv> fst kv @ ''='' @ snd kv @ [newline]"

definition kv_ok :: "string \<times> string \<Rightarrow> bool" where
  "kv_ok kv = (CHR ''='' \<notin> set (fst kv) \<and> newline \<notin> set (fst kv) \<union> set (snd kv) \<and> NUL \<notin> set (fst kv) \<union> set (snd kv))"

definition allowedip_kv :: "libc \<Rightarrow> wgallowedip \<Rightarrow> (string \<times> string)" where
  "allowedip_kv L a = (''allowed_ip'', entry_text L a)"

definition endpoint_value :: "libc \<Rightarrow> bytes \<Rightarrow> string" where
  "endpoint_value L ep =
     (case getnameinfo L (take (sockaddr_len ep) ep) of
        Some (h, s) \<Rightarrow> if sa_family ep = AF_INET6 \<and> strchr h (CHR '':'') \<noteq> None then ''['' @ h @ '']:'' @ s else h @ '':'' @ s
      | None \<Rightarrow> [])"

definition endpoint_kvs :: "libc \<Rightarrow> bytes \<Rightarrow> (string \<times> string) list" where
  "endpoint_kvs L ep =
     (if (sa_family ep = AF_INET \<or> sa_family ep = AF_INET6) \<and> getnameinfo L (take (sockaddr_len ep) ep) \<noteq> None
      then [(''endpoint'', endpoint_value L ep)] else [])"

definition peer_kvs :: "libc \<Rightarrow> wgpeer \<Rightarrow> (string \<times> string) list" where
  "peer_kvs L p =
     [(''public_key'', key_to_hex (public_key p))]
     @ (if has_flag (p_flags p) WGPEER_HAS_PRESHARED_KEY then [(''preshared_key'', key_to_hex (preshared_key p))] else [])
     @ endpoint_kvs L (endpoint p)
     @ (if has_flag (p_flags p) WGPEER_HAS_PERSISTENT_KEEPALIVE_INTERVAL
        then [(''persistent_keepalive_interval'', dec_string (unat (persistent_keepalive_interval p)))] else [])
     @ (if has_flag (p_flags p) WGPEER_REPLACE_ALLOWEDIPS then [(''replace_allowed_ips'', ''true'')] else [])
     @ map (allowedip_kv L) (allowedips p)"

definition device_kvs :: "libc \<Rightarrow> wgdevice \<Rightarrow> (string \<times> string) list" where
  "device_kvs L d =
     [(''set'', ''1'')]
     @ (if has_flag (d_flags d) WGDEVICE_HAS_PRIVATE_KEY then [(''private_key'', key_to_hex (private_key d))] else [])
     @ (if has_flag (d_flags d) WGDEVICE_HAS_LISTEN_PORT then [(''listen_port'', dec_string (unat (listen_port d)))] else [])
     @ (if has_flag (d_flags d) WGDEVICE_HAS_FWMARK then [(''fwmark'', dec_string (unat (fwmark d)))] else [])
     @ (if has_flag (d_flags d) WGDEVICE_REPLACE_PEERS then [(''replace_peers'', ''true'')] else [])
     @ concat (map (peer_kvs L) (peers d))"

text \<open>Nothing in the request asks to remove something.\<close>

definition no_removal :: "wgdevice \<Rightarrow> bool" where
  "no_removal d = (list_all (\<lambda>p. \<not> has_flag (p_flags p) WGPEER_REMOVE_ME \<and>
     list_all (\<lambda>a. \<not> has_flag (a_flags a) WGALLOWEDIP_REMOVE_ME) (allowedips p)) (peers d))"

lemma uapi_allowedip_kv:
  assumes "libc_text L" "allowedip_ok a" "\<not> has_flag (a_flags a) WGALLOWEDIP_REMOVE_ME"
  shows "uapi_allowedip L a = kv_text (allowedip_kv L a)"
proof -
  obtain t where "allowedip_text L a = Some t" by (rule allowedip_text_ok [OF assms(1,2)])
  then show ?thesis
    using assms(3) by (simp add: uapi_allowedip_def allowedip_kv_def entry_text_def allowedip_text_def)
qed

lemma uapi_endpoint_kvs: "uapi_endpoint L ep = concat (map kv_text (endpoint_kvs L ep))"
  by (auto simp: uapi_endpoint_def endpoint_kvs_def endpoint_value_def sockaddr_len_def Let_def split: option.split)

lemma uapi_peer_kvs:
  assumes "libc_text L" "peer_ok p" "\<not> has_flag (p_flags p) WGPEER_REMOVE_ME"
    "list_all (\<lambda>a. \<not> has_flag (a_flags a) WGALLOWEDIP_REMOVE_ME) (allowedips p)"
  shows "uapi_peer L p = concat (map kv_text (peer_kvs L p))"
proof -
  have "concat (map (uapi_allowedip L) (allowedips p)) = concat (map kv_text (map (allowedip_kv L) (allowedips p)))"
    using assms(2,4) uapi_allowedip_kv [OF assms(1)]
    by (intro arg_cong [where f = concat]) (auto simp: peer_ok_def list_all_iff)
  then show ?thesis using assms(3) by (simp add: uapi_peer_def peer_kvs_def uapi_endpoint_kvs)
qed

lemma uapi_set_body_kvs:
  assumes "libc_text L" "device_ok d" "no_removal d"
  shows "uapi_set_body L d = concat (map kv_text (device_kvs L d))"
proof -
  have "concat (map (uapi_peer L) ps) = concat (map kv_text (concat (map (peer_kvs L) ps)))"
    if "list_all peer_ok ps" "list_all (\<lambda>p. \<not> has_flag (p_flags p) WGPEER_REMOVE_ME \<and>
     list_all (\<lambda>a. \<not> has_flag (a_flags a) WGALLOWEDIP_REMOVE_ME) (allowedips p)) ps" for ps
    using that by (induction ps) (auto simp: uapi_peer_kvs [OF assms(1)])
  then show ?thesis
    using assms(2,3) by (simp add: uapi_set_body_def device_kvs_def device_ok_def no_removal_def)
qed

text \<open>Characters of the values.\<close>

lemma NUL_eq: "NUL = CHR 0x00"
  by code_simp

lemma ip_chars_text: "newline \<notin> ip_chars" "NUL \<notin> ip_chars"
proof -
  have "\<not> is_digit_in 16 newline" "\<not> is_digit_in 16 NUL" "NUL \<noteq> CHR ''.''" "NUL \<noteq> CHR '':''" by code_simp+
  then show "newline \<notin> ip_chars" "NUL \<notin> ip_chars" by (simp_all add: ip_chars_def)
qed

lemma key_to_hex_chars: "set (key_to_hex k) \<subseteq> ip_chars"
proof
  fix c assume "c \<in> set (key_to_hex k)"
  then obtain i where i: "i < 64" "c = key_to_hex k ! i" by (auto simp: in_set_conv_nth)
  let ?b = "k ! (i div 2)"
  have j: "i div 2 < 32" using i by simp
  have "i = 2 * (i div 2) \<or> i = 2 * (i div 2) + 1" by auto
  then have "c = digit_char (unat ?b div 16) \<or> c = digit_char (unat ?b mod 16)"
    using i(2) key_to_hex_nth [OF j, of k] by metis
  moreover have "unat ?b div 16 < 16" "unat ?b mod 16 < 16" using unsigned_less [of ?b, where 'a = nat] by auto
  ultimately have "is_digit_in 16 c" using is_digit_in_digit_char [of _ 16] by auto
  then show "c \<in> ip_chars" by (simp add: ip_chars_def)
qed

lemma kv_ok_ip: "CHR ''='' \<notin> set k \<Longrightarrow> newline \<notin> set k \<Longrightarrow> NUL \<notin> set k \<Longrightarrow> set v \<subseteq> ip_chars \<union> {CHR ''/'', CHR ''['', CHR '']''} \<Longrightarrow> kv_ok (k, v)"
  using ip_chars_text by (auto simp: kv_ok_def NUL_eq)

lemma uapi_line_kv:
  assumes "kv_ok (k, v)"
  shows "uapi_line (kv_text (k, v)) = Some (Some (k, v))"
proof -
  have tw: "takeWhile (\<lambda>c. c \<noteq> NUL) (kv_text (k, v)) = kv_text (k, v)"
    using assms by (auto simp: kv_ok_def takeWhile_eq_all_conv NUL_eq)
  have "split_first (CHR ''='') (k @ CHR ''='' # (v @ [newline])) = Some (k, v @ [newline])"
    using assms by (intro split_first_append) (simp add: kv_ok_def)
  moreover have "k @ CHR ''='' # v @ [newline] \<noteq> [newline]" using assms by (cases k) (auto simp: kv_ok_def)
  ultimately show ?thesis unfolding uapi_line_def tw Let_def by (simp add: butlast_append)
qed

lemma uapi_get_lines_kvs:
  assumes "list_all kv_ok kvs"
  shows "uapi_get_lines L int128 (map kv_text kvs @ rest) st =
    and_then (fold_outcome (\<lambda>(k, v). uapi_get_step L int128 k v) kvs st) (uapi_get_lines L int128 rest)"
  using assms
proof (induction kvs arbitrary: st)
  case (Cons kv kvs)
  obtain k v where kv: "kv = (k, v)" by (cases kv)
  have "uapi_line (kv_text (k, v)) = Some (Some (k, v))" using Cons.prems by (intro uapi_line_kv) (simp add: kv)
  with Cons show ?case by (cases "uapi_get_step L int128 k v st") (simp_all add: kv)
qed simp

lemma getlines_kvs:
  assumes "list_all kv_ok kvs"
  shows "getlines (concat (map kv_text kvs) @ rest) = map kv_text kvs @ getlines rest"
  using assms
proof (induction kvs)
  case (Cons kv kvs)
  obtain k v where kv: "kv = (k, v)" by (cases kv)
  have "newline \<notin> set (k @ ''='' @ v)" using Cons.prems by (auto simp: kv kv_ok_def)
  from getlines_line [OF this] Cons show ?case by (simp add: kv)
qed simp

lemma tolower_key_to_hex: "map tolower (key_to_hex k) = key_to_hex k"
proof (rule nth_equalityI)
  fix i assume "i < length (map tolower (key_to_hex k))"
  then have i: "i < 64" by simp
  let ?b = "k ! (i div 2)"
  have j: "i div 2 < 32" using i by simp
  have "i = 2 * (i div 2) \<or> i = 2 * (i div 2) + 1" by auto
  moreover have "unat ?b div 16 < 16" "unat ?b mod 16 < 16" using unsigned_less [of ?b, where 'a = nat] by auto
  ultimately obtain d where d: "d < 16" "key_to_hex k ! i = digit_char d" using key_to_hex_nth [OF j, of k] by metis
  then have "tolower (digit_char d) = digit_char d" using tolower_digit digit_value_digit_char by simp
  then show "map tolower (key_to_hex k) ! i = key_to_hex k ! i" using i d(2) by simp
qed simp

lemma hex_key_printed: "length k = 32 \<Longrightarrow> length old = WG_KEY_LEN \<Longrightarrow> hex_key old (key_to_hex k) = Done k"
  using key_from_hex_iff [of old "key_to_hex k" k] by (simp add: hex_key_def WG_KEY_LEN_def tolower_key_to_hex)

lemma uapi_num_printed: "n \<le> bound \<Longrightarrow> n < 2 ^ 64 \<Longrightarrow> uapi_num L bound (dec_string n) = Done n"
  using first_char_number [OF is_number_num_string(1), of n]
  by (simp add: uapi_num_def wg_simps strtoul_number [OF is_number_num_string(1)] digits_value_numeral)

lemma uapi_get_allowedip_printed:
  assumes "libc_ok L" "libc_text L" "allowedip_ok a"
  shows "uapi_get_allowedip L (entry_text L a) = Done (reread_allowedip a)"
proof -
  obtain t where t: "allowedip_text L a = Some t" "set t \<subseteq> ip_chars" "t \<noteq> []"
    "CHR '':'' \<in> set t \<longleftrightarrow> family a = of_nat AF_INET6"
    "inet_pton L (if family a = of_nat AF_INET6 then AF_INET6 else AF_INET) t =
       Some (if family a = of_nat AF_INET6 then ip a else take 4 (ip a))"
    by (rule allowedip_text_ok [OF assms(2,3)])
  let ?s = "dec_string (unat (cidr a))"
  have sep: "strsep (CHR ''/'') (entry_text L a) = (t, Some ?s)"
    using t separators_not_ip(2) by (simp add: entry_text_def) (intro strsep_append, blast)
  have col: "strchr t CHR '':'' \<noteq> None \<longleftrightarrow> family a = of_nat AF_INET6" unfolding t(4) [symmetric] by (rule strchr_iff)
  have c: "unat (cidr a) < 256" using unsigned_less [of "cidr a", where 'a = nat] by simp
  have "(2::nat) ^ 32 \<le> 2 ^ ulong_bits L" using assms(1) by (intro power_increasing) (auto simp: libc_ok_def)
  then have num: "strtoul (ulong_bits L) 10 ?s = (unat (cidr a), [])"
    using c by (simp add: strtoul_number [OF is_number_num_string(1)] digits_value_numeral)
  have ok: "length (ip a) = 16" "family a = of_nat AF_INET \<and> cidr a \<le> 32 \<or> family a = of_nat AF_INET6 \<and> cidr a \<le> 128"
    using assms(3) by (auto simp: allowedip_ok_def)
  show ?thesis
    using t(5) ok col first_char_number [OF is_number_num_string(1), of "unat (cidr a)"]
    by (auto simp: uapi_get_allowedip_def sep num wg_simps Let_def reread_allowedip_def zero_allowedip_def overwrite_def af_defs)
qed

lemma endpoint_kvs_lines: "endpoint_kvs L ep = map (\<lambda>l. (''endpoint'', drop 11 l)) (endpoint_lines L ep)"
  by (auto simp: endpoint_kvs_def endpoint_lines_def showconf_endpoint_def endpoint_value_def sockaddr_len_def Let_def butlast_append
      split: option.split)

definition get_ctx :: "wgdevice \<Rightarrow> int \<Rightarrow> wgpeer list \<Rightarrow> wgpeer \<Rightarrow> nat option \<Rightarrow> get_state" where
  "get_ctx dev r ps p lp = \<lparr>g_dev = dev\<lparr>peers := ps @ [p]\<rparr>, g_peer = Some (length ps), g_allowedip = lp, g_ret = r\<rparr>"

lemma on_peer_ctx: "on_peer (get_ctx dev r ps p lp) f = and_then (f p) (\<lambda>(p', lp'). Done (get_ctx dev r ps p' lp'))"
  by (simp add: on_peer_def get_ctx_def)

lemma get_ctx_sel [simp]: "g_peer (get_ctx dev r ps p lp) = Some (length ps)" "g_allowedip (get_ctx dev r ps p lp) = lp"
  by (simp_all add: get_ctx_def)

lemma get_step_ignored:
  "uapi_get_step L int128 ''set'' v st = Done st" "uapi_get_step L int128 ''replace_peers'' v st = Done st"
  "uapi_get_step L int128 ''replace_allowed_ips'' v st = Done st"
  by (simp_all add: uapi_get_step_def)

lemma get_step_public_key:
  assumes "chain_ok (peers (g_dev st), g_peer st)" "length k = 32"
  shows "uapi_get_step L int128 ''public_key'' (key_to_hex k) st =
    Done (get_ctx (g_dev st) (g_ret st) (peers (g_dev st)) (zero_peer\<lparr>public_key := k, p_flags := WGPEER_HAS_PUBLIC_KEY\<rparr>) None)"
  using hex_key_printed [OF assms(2), of zero_key]
  by (simp add: uapi_get_step_def link_last_ok [OF assms(1)] on_peer_def) (simp add: get_ctx_def zero_peer_def)

lemma get_step_peer:
  assumes "key \<in> {''preshared_key'', ''endpoint'', ''persistent_keepalive_interval'', ''allowed_ip''}"
    "uapi_get_peer_key L key v lp p = Done (p', lp')"
  shows "uapi_get_step L int128 key v (get_ctx dev r ps p lp) = Done (get_ctx dev r ps p' lp')"
  using assms by (auto simp: uapi_get_step_def on_peer_ctx)

lemma fold_allowedip_kvs:
  assumes "libc_ok L" "libc_text L" "list_all allowedip_ok as" "chain_ok (allowedips p, lp)"
  shows "\<exists>lp'. fold_outcome (\<lambda>(k, v). uapi_get_step L int128 k v) (map (allowedip_kv L) as) (get_ctx dev r ps p lp) =
    Done (get_ctx dev r ps (p\<lparr>allowedips := allowedips p @ map reread_allowedip as\<rparr>) lp')"
  using assms(3,4)
proof (induction as arbitrary: p lp)
  case (Cons a as)
  let ?p = "p\<lparr>allowedips := allowedips p @ [reread_allowedip a]\<rparr>"
  have "uapi_get_peer_key L ''allowed_ip'' (entry_text L a) lp p = Done (?p, Some (length (allowedips p)))"
    using uapi_get_allowedip_printed [OF assms(1,2), of a] Cons.prems by (simp add: uapi_get_peer_key_def link_last_ok)
  from get_step_peer [OF _ this] have
    "uapi_get_step L int128 ''allowed_ip'' (entry_text L a) (get_ctx dev r ps p lp) = Done (get_ctx dev r ps ?p (Some (length (allowedips p))))"
    by simp
  moreover have "chain_ok (allowedips ?p, Some (length (allowedips p)))" by (simp add: chain_ok_def)
  ultimately show ?case using Cons.IH [of ?p] Cons.prems by (simp add: allowedip_kv_def)
qed auto

definition uapi_reread_peer :: "wgpeer \<Rightarrow> wgpeer" where
  "uapi_reread_peer p =
     (let psk = has_flag (p_flags p) WGPEER_HAS_PRESHARED_KEY;
          ka = has_flag (p_flags p) WGPEER_HAS_PERSISTENT_KEEPALIVE_INTERVAL
      in zero_peer\<lparr>
        p_flags := (WGPEER_HAS_PUBLIC_KEY OR (if psk \<and> \<not> key_is_zero (preshared_key p) then WGPEER_HAS_PRESHARED_KEY else 0))
          OR (if ka then WGPEER_HAS_PERSISTENT_KEEPALIVE_INTERVAL else 0),
        public_key := public_key p,
        preshared_key := (if psk then preshared_key p else zero_key),
        endpoint := endpoint p,
        persistent_keepalive_interval := (if ka then persistent_keepalive_interval p else 0),
        allowedips := map reread_allowedip (allowedips p)\<rparr>)"

lemma fold_kv_if:
  "fold_outcome f (if b then [x] else []) s = (if b then f x s else Done s)"
  by (cases b; cases "f x s") auto

lemma get_endpoint_kvs:
  assumes "libc_text L" "endpoint_printable ep" "endpoint p = replicate 28 0"
  shows "fold_outcome (\<lambda>(k, v). uapi_get_step L int128 k v) (endpoint_kvs L ep) (get_ctx dev r ps p lp) =
    Done (get_ctx dev r ps (p\<lparr>endpoint := ep\<rparr>) lp)"
proof (cases "ep = replicate 28 0")
  case True
  then have "p\<lparr>endpoint := ep\<rparr> = p" using assms(3) by simp
  then show ?thesis using True by (simp add: endpoint_kvs_lines endpoint_lines_none)
next
  case False
  with assms(2) have can: "canonical_sockaddr (take (sockaddr_len ep) ep)" "length ep = 28"
    "drop (sockaddr_len ep) ep = replicate (28 - sockaddr_len ep) 0"
    by (auto simp: endpoint_printable_def)
  obtain v h s where v: "endpoint_lines L ep = [''Endpoint = '' @ v]" "split_endpoint v = Done (h, s)"
    "getaddrinfo L False (Some h) s 0 = (0, \<lparr>ai_family = sa_family ep, ai_addr = take (sockaddr_len ep) ep\<rparr>)"
    by (rule showconf_endpoint_text [OF assms(1) can(1)])
  have fam: "(sa_family ep = AF_INET \<and> sockaddr_len ep = 16) \<or> (sa_family ep = AF_INET6 \<and> sockaddr_len ep = 28)"
    using canonical_family [OF can(1)] by (auto simp: sockaddr_len_def af_defs)
  then have len: "length (take (sockaddr_len ep) ep) = sockaddr_len ep" "sockaddr_len ep \<le> 28" using can(2) by auto
  have "overwrite (take (sockaddr_len ep) ep) (replicate 28 0) = ep"
    using can(3) len append_take_drop_id [of "sockaddr_len ep" ep] by (simp add: overwrite_def)
  then have "uapi_get_endpoint L (replicate 28 0) v = Done ep"
    using fam len by (simp add: uapi_get_endpoint_def v(2,3))
  then have "uapi_get_peer_key L ''endpoint'' v lp p = Done (p\<lparr>endpoint := ep\<rparr>, lp)"
    using assms(3) by (simp add: uapi_get_peer_key_def)
  from get_step_peer [OF _ this] show ?thesis by (simp add: endpoint_kvs_lines v(1))
qed

lemma get_peer_kvs:
  assumes L: "libc_ok L" "libc_text L" and p: "peer_ok p" "endpoint_printable (endpoint p)"
    and st: "chain_ok (peers (g_dev st), g_peer st)"
  shows "\<exists>lp. fold_outcome (\<lambda>(k, v). uapi_get_step L int128 k v) (peer_kvs L p) st =
    Done (get_ctx (g_dev st) (g_ret st) (peers (g_dev st)) (uapi_reread_peer p) lp)"
proof -
  have len: "length (public_key p) = 32" "length (preshared_key p) = 32" "list_all allowedip_ok (allowedips p)"
    using p(1) by (auto simp: peer_ok_def WG_KEY_LEN_def)
  let ?F = "fold_outcome (\<lambda>(k, v). uapi_get_step L int128 k v)"
  let ?C = "get_ctx (g_dev st) (g_ret st) (peers (g_dev st))"
  let ?p0 = "zero_peer\<lparr>public_key := public_key p, p_flags := WGPEER_HAS_PUBLIC_KEY\<rparr>"
  define p1 where "p1 = (if has_flag (p_flags p) WGPEER_HAS_PRESHARED_KEY
    then ?p0\<lparr>preshared_key := preshared_key p, p_flags := (if key_is_zero (preshared_key p) then p_flags ?p0
      else p_flags ?p0 OR WGPEER_HAS_PRESHARED_KEY)\<rparr> else ?p0)"
  have "uapi_get_peer_key L ''preshared_key'' (key_to_hex (preshared_key p)) None ?p0 =
      Done (?p0\<lparr>preshared_key := preshared_key p, p_flags := (if key_is_zero (preshared_key p) then p_flags ?p0
      else p_flags ?p0 OR WGPEER_HAS_PRESHARED_KEY)\<rparr>, None)"
    using hex_key_printed [OF len(2), of "preshared_key ?p0"] by (simp add: uapi_get_peer_key_def zero_peer_def)
  from get_step_peer [OF _ this] have s1:
    "?F (if has_flag (p_flags p) WGPEER_HAS_PRESHARED_KEY then [(''preshared_key'', key_to_hex (preshared_key p))] else []) (?C ?p0 None)
      = Done (?C p1 None)"
    unfolding fold_kv_if by (simp add: p1_def)
  have s2: "?F (endpoint_kvs L (endpoint p)) (?C p1 None) = Done (?C (p1\<lparr>endpoint := endpoint p\<rparr>) None)"
    by (rule get_endpoint_kvs [OF L(2) p(2)]) (simp add: p1_def zero_peer_def)
  let ?p2 = "p1\<lparr>endpoint := endpoint p\<rparr>"
  define p3 where "p3 = (if has_flag (p_flags p) WGPEER_HAS_PERSISTENT_KEEPALIVE_INTERVAL
    then ?p2\<lparr>persistent_keepalive_interval := persistent_keepalive_interval p,
      p_flags := p_flags p1 OR WGPEER_HAS_PERSISTENT_KEEPALIVE_INTERVAL\<rparr> else ?p2)"
  have "unat (persistent_keepalive_interval p) < 65536" using unsigned_less [of "persistent_keepalive_interval p", where 'a = nat] by simp
  then have "uapi_get_peer_key L ''persistent_keepalive_interval'' (dec_string (unat (persistent_keepalive_interval p))) None ?p2 =
      Done (?p2\<lparr>persistent_keepalive_interval := persistent_keepalive_interval p,
        p_flags := p_flags p1 OR WGPEER_HAS_PERSISTENT_KEEPALIVE_INTERVAL\<rparr>, None)"
    by (simp add: uapi_get_peer_key_def uapi_num_printed)
  from get_step_peer [OF _ this] have s3:
    "?F (if has_flag (p_flags p) WGPEER_HAS_PERSISTENT_KEEPALIVE_INTERVAL
        then [(''persistent_keepalive_interval'', dec_string (unat (persistent_keepalive_interval p)))] else []) (?C ?p2 None) = Done (?C p3 None)"
    unfolding fold_kv_if by (simp add: p3_def)
  have s4: "?F (if has_flag (p_flags p) WGPEER_REPLACE_ALLOWEDIPS then [(''replace_allowed_ips'', ''true'')] else []) (?C p3 None) = Done (?C p3 None)"
    unfolding fold_kv_if by (simp add: get_step_ignored)
  have "chain_ok (allowedips p3, None)" by (simp add: p3_def p1_def zero_peer_def chain_ok_def)
  from fold_allowedip_kvs [OF L len(3) this] obtain lp where s5:
    "?F (map (allowedip_kv L) (allowedips p)) (?C p3 None) = Done (?C (p3\<lparr>allowedips := allowedips p3 @ map reread_allowedip (allowedips p)\<rparr>) lp)"
    by blast
  have "p3\<lparr>allowedips := allowedips p3 @ map reread_allowedip (allowedips p)\<rparr> = uapi_reread_peer p"
    by (simp add: p3_def p1_def zero_peer_def uapi_reread_peer_def Let_def)
  with s5 have "?F (peer_kvs L p) st = Done (?C (uapi_reread_peer p) lp)"
    unfolding peer_kvs_def fold_outcome_append using get_step_public_key [OF st len(1), of L int128] s1 s2 s3 s4
    by (simp only: fold_outcome.simps and_then.simps prod.case)
  then show ?thesis by blast
qed

definition uapi_reread :: "bool \<Rightarrow> wgdevice \<Rightarrow> wgdevice \<Rightarrow> wgdevice" where
  "uapi_reread int128 d0 d =
     (let pk = has_flag (d_flags d) WGDEVICE_HAS_PRIVATE_KEY; lp = has_flag (d_flags d) WGDEVICE_HAS_LISTEN_PORT;
          fw = has_flag (d_flags d) WGDEVICE_HAS_FWMARK
      in d0\<lparr>
        d_flags := ((d_flags d0 OR (if pk then WGDEVICE_HAS_PRIVATE_KEY OR WGDEVICE_HAS_PUBLIC_KEY else 0))
          OR (if lp then WGDEVICE_HAS_LISTEN_PORT else 0)) OR (if fw then WGDEVICE_HAS_FWMARK else 0),
        private_key := (if pk then private_key d else private_key d0),
        d_public_key := (if pk then curve25519_generate_public int128 (private_key d) else d_public_key d0),
        listen_port := (if lp then listen_port d else listen_port d0),
        fwmark := (if fw then fwmark d else fwmark d0),
        peers := map uapi_reread_peer (peers d)\<rparr>)"

lemma get_peers_kvs:
  assumes "libc_ok L" "libc_text L" "list_all peer_ok ps" "list_all (\<lambda>p. endpoint_printable (endpoint p)) ps"
    "chain_ok (peers (g_dev st), g_peer st)"
  shows "\<exists>st'. fold_outcome (\<lambda>(k, v). uapi_get_step L int128 k v) (concat (map (peer_kvs L) ps)) st = Done st' \<and>
    g_dev st' = (g_dev st)\<lparr>peers := peers (g_dev st) @ map uapi_reread_peer ps\<rparr> \<and> g_ret st' = g_ret st"
  using assms(3-5)
proof (induction ps arbitrary: st)
  case (Cons p ps)
  from Cons.prems have "peer_ok p" "endpoint_printable (endpoint p)" by auto
  from get_peer_kvs [OF assms(1,2) this Cons.prems(3)] obtain lp where
    1: "fold_outcome (\<lambda>(k, v). uapi_get_step L int128 k v) (peer_kvs L p) st =
      Done (get_ctx (g_dev st) (g_ret st) (peers (g_dev st)) (uapi_reread_peer p) lp)" (is "_ = Done ?st") by blast
  have "chain_ok (peers (g_dev ?st), g_peer ?st)" by (simp add: get_ctx_def chain_ok_def)
  from Cons.IH [OF _ _ this] Cons.prems show ?case
    by (simp add: fold_outcome_append 1) (auto simp: get_ctx_def)
qed auto

lemma get_device_kvs:
  assumes L: "libc_ok L" "libc_text L" and d: "device_ok d" "list_all (\<lambda>p. endpoint_printable (endpoint p)) (peers d)"
    and d0: "device_ok d0" "peers d0 = []"
  shows "\<exists>st. fold_outcome (\<lambda>(k, v). uapi_get_step L int128 k v) (device_kvs L d) \<lparr>g_dev = d0, g_peer = None, g_allowedip = la, g_ret = r\<rparr>
    = Done st \<and> g_dev st = uapi_reread int128 d0 d \<and> g_ret st = r"
proof -
  let ?F = "fold_outcome (\<lambda>(k, v). uapi_get_step L int128 k v)"
  let ?S = "\<lambda>dev. \<lparr>g_dev = dev, g_peer = None, g_allowedip = la, g_ret = r\<rparr>"
  have len: "length (private_key d) = 32" "length (private_key d0) = WG_KEY_LEN" "list_all peer_ok (peers d)"
    using d(1) d0(1) by (auto simp: device_ok_def WG_KEY_LEN_def)
  define d1 where "d1 = (if has_flag (d_flags d) WGDEVICE_HAS_PRIVATE_KEY then d0\<lparr>private_key := private_key d, d_public_key := curve25519_generate_public int128 (private_key d),
    d_flags := d_flags d0 OR (WGDEVICE_HAS_PRIVATE_KEY OR WGDEVICE_HAS_PUBLIC_KEY)\<rparr> else d0)"
  define d2 where "d2 = (if has_flag (d_flags d) WGDEVICE_HAS_LISTEN_PORT
    then d1\<lparr>listen_port := listen_port d, d_flags := d_flags d1 OR WGDEVICE_HAS_LISTEN_PORT\<rparr> else d1)"
  define d3 where "d3 = (if has_flag (d_flags d) WGDEVICE_HAS_FWMARK
    then d2\<lparr>fwmark := fwmark d, d_flags := d_flags d2 OR WGDEVICE_HAS_FWMARK\<rparr> else d2)"
  have s1: "?F (if has_flag (d_flags d) WGDEVICE_HAS_PRIVATE_KEY then [(''private_key'', key_to_hex (private_key d))] else []) (?S d0) = Done (?S d1)"
    unfolding fold_kv_if by (simp add: d1_def uapi_get_step_def uapi_get_device_key_def hex_key_printed len)
  have "unat (listen_port d) < 65536" "unat (fwmark d) < 4294967296"
    using unsigned_less [of "listen_port d", where 'a = nat] unsigned_less [of "fwmark d", where 'a = nat] by simp_all
  then have s2: "?F (if has_flag (d_flags d) WGDEVICE_HAS_LISTEN_PORT then [(''listen_port'', dec_string (unat (listen_port d)))] else []) (?S d1) = Done (?S d2)"
    and s3: "?F (if has_flag (d_flags d) WGDEVICE_HAS_FWMARK then [(''fwmark'', dec_string (unat (fwmark d)))] else []) (?S d2) = Done (?S d3)"
    unfolding fold_kv_if by (simp_all add: d2_def d3_def uapi_get_step_def uapi_get_device_key_def uapi_num_printed)
  have s4: "?F (if has_flag (d_flags d) WGDEVICE_REPLACE_PEERS then [(''replace_peers'', ''true'')] else []) (?S d3) = Done (?S d3)"
    unfolding fold_kv_if by (simp add: get_step_ignored)
  have p3: "peers d3 = []" using d0(2) by (simp add: d3_def d2_def d1_def)
  then have "chain_ok (peers (g_dev (?S d3)), g_peer (?S d3))" by (simp add: chain_ok_def)
  from get_peers_kvs [OF L len(3) d(2) this] obtain st where
    s5: "?F (concat (map (peer_kvs L) (peers d))) (?S d3) = Done st" "g_dev st = d3\<lparr>peers := map uapi_reread_peer (peers d)\<rparr>" "g_ret st = r"
    using p3 by auto
  have "?F (device_kvs L d) (?S d0) = Done st"
    unfolding device_kvs_def fold_outcome_append using s1 s2 s3 s4 s5(1)
    by (simp only: fold_outcome.simps and_then.simps prod.case get_step_ignored)
  moreover have "d3\<lparr>peers := map uapi_reread_peer (peers d)\<rparr> = uapi_reread int128 d0 d"
    by (simp add: d3_def d2_def d1_def uapi_reread_def Let_def)
  ultimately show ?thesis using s5 by auto
qed

lemma endpoint_kvs_ok:
  assumes "libc_text L" "endpoint_printable ep"
  shows "list_all kv_ok (endpoint_kvs L ep)"
proof (cases "ep = replicate 28 0")
  case False
  with assms(2) have can: "canonical_sockaddr (take (sockaddr_len ep) ep)" by (auto simp: endpoint_printable_def)
  obtain v where v: "endpoint_lines L ep = [''Endpoint = '' @ v]" "set v \<subseteq> ip_chars \<union> {CHR ''['', CHR '']''}"
    by (rule showconf_endpoint_text [OF assms(1) can])
  have "kv_ok (''endpoint'', v)" by (rule kv_ok_ip) (use v(2) in \<open>auto simp: NUL_eq\<close>)
  then show ?thesis by (simp add: endpoint_kvs_lines v(1))
qed (simp add: endpoint_kvs_lines endpoint_lines_none)

lemma kv_ok_hex: "CHR ''='' \<notin> set k \<Longrightarrow> newline \<notin> set k \<Longrightarrow> NUL \<notin> set k \<Longrightarrow> kv_ok (k, key_to_hex x)"
  using key_to_hex_chars by (intro kv_ok_ip) auto

lemma kv_ok_dec: "CHR ''='' \<notin> set k \<Longrightarrow> newline \<notin> set k \<Longrightarrow> NUL \<notin> set k \<Longrightarrow> kv_ok (k, dec_string n)"
  using num_string_set(1) [of n] by (intro kv_ok_ip) (auto simp: ip_chars_def intro: digit_10_in_16)

lemma list_all_if: "list_all P (if b then [x] else []) \<longleftrightarrow> (b \<longrightarrow> P x)"
  by simp

lemma device_kvs_ok:
  assumes "libc_text L" "device_ok d" "list_all (\<lambda>p. endpoint_printable (endpoint p)) (peers d)"
  shows "list_all kv_ok (device_kvs L d)"
proof -
  have true: "kv_ok (''replace_peers'', ''true'')" "kv_ok (''replace_allowed_ips'', ''true'')" "kv_ok (''set'', ''1'')"
    by (simp_all add: kv_ok_def NUL_eq)
  have a: "kv_ok (allowedip_kv L a)" if "allowedip_ok a" for a
    unfolding allowedip_kv_def by (rule kv_ok_ip) (use entry_text_chars(1) [OF assms(1) that] in \<open>auto simp: NUL_eq\<close>)
  have "list_all kv_ok (peer_kvs L p)" if "p \<in> set (peers d)" for p
  proof -
    from that assms(2,3) have "list_all allowedip_ok (allowedips p)" "endpoint_printable (endpoint p)"
      by (auto simp: device_ok_def peer_ok_def list_all_iff)
    then show ?thesis
      using a endpoint_kvs_ok [OF assms(1)] unfolding peer_kvs_def list_all_append list_all_if
      by (auto simp: true kv_ok_hex kv_ok_dec NUL_eq list_all_iff)
  qed
  then have "list_all kv_ok (concat (map (peer_kvs L) (peers d)))" by (auto simp: list_all_iff)
  then show ?thesis
    unfolding device_kvs_def list_all_append list_all_if by (simp add: true kv_ok_hex kv_ok_dec NUL_eq)
qed

lemma get_errno_line: "uapi_get_lines L int128 [''errno=0'' @ [newline], [newline]] st = Done (g_dev st)"
proof -
  have "kv_ok (''errno'', ''0'')" by (simp add: kv_ok_def NUL_eq)
  from uapi_line_kv [OF this] have 1: "uapi_line (''errno=0'' @ [newline]) = Some (Some (''errno'', ''0''))" by simp
  have 2: "uapi_line [newline] = Some None" by (simp add: uapi_line_def NUL_eq)
  have "dec_string 0 = ''0''" by code_simp
  then have "uapi_num L 0x7fffffff ''0'' = Done 0" using uapi_num_printed [of 0 "0x7fffffff" L] by simp
  then show ?thesis by (simp only: uapi_get_lines.simps 1 option.case prod.case) (simp add: uapi_get_step_def 2)
qed

subsection \<open>Success of a request\<close>

text \<open>Lines of an answer: an accepted \<open>errno\<close>, and a line that is neither one nor the empty line.\<close>

definition errno_line :: "libc \<Rightarrow> int \<Rightarrow> string \<Rightarrow> bool" where
  "errno_line L n line =
     (\<exists>value. uapi_line line = Some (Some (''errno'', value)) \<and>
        (first_char value = CHR ''-'' \<or> char_is_digit (plain_char (char_signed L) (first_char value))) \<and>
        strtoll value = (n, []) \<and> - (2 ^ 31) \<le> n \<and> n < 2 ^ 31)"

definition other_line :: "string \<Rightarrow> bool" where
  "other_line line = (\<exists>key value. uapi_line line = Some (Some (key, value)) \<and> key \<noteq> ''errno'')"

lemma uapi_set_answer_blank: "uapi_line l = Some None \<Longrightarrow> uapi_set_answer L err e (l # ls) = e"
  by simp

lemma uapi_set_answer_other: "other_line l \<Longrightarrow> uapi_set_answer L err e (l # ls) = uapi_set_answer L err e ls"
  by (auto simp: other_line_def)

lemma uapi_set_answer_errno: "errno_line L n l \<Longrightarrow> uapi_set_answer L err e (l # ls) = uapi_set_answer L err n ls"
  by (auto simp: errno_line_def)

lemma uapi_set_answer_bad:
  assumes "uapi_line l \<noteq> Some None" "\<not> other_line l" "\<And>n. \<not> errno_line L n l"
  shows "uapi_set_answer L err e (l # ls) = (if err \<noteq> 0 then - err else - EPROTO)"
proof (cases "uapi_line l")
  case (Some kv)
  with assms(1,2) obtain v where v: "uapi_line l = Some (Some (''errno'', v))" by (auto simp: other_line_def)
  then show ?thesis
    using assms(3) [of "fst (strtoll v)"] by (auto simp: errno_line_def Let_def split: prod.split)
qed simp

lemma uapi_set_answer_others: "list_all other_line ls \<Longrightarrow> uapi_set_answer L err e (ls @ rest) = uapi_set_answer L err e rest"
  by (induction ls) (simp_all add: uapi_set_answer_other del: uapi_set_answer.simps)

lemma uapi_set_answer_readable:
  "list_all (\<lambda>l. other_line l \<or> (\<exists>n. errno_line L n l)) ls \<Longrightarrow>
    \<exists>e'. uapi_set_answer L err e (ls @ rest) = uapi_set_answer L err e' rest"
proof (induction ls arbitrary: e)
  case (Cons l ls)
  then show ?case
    using uapi_set_answer_other uapi_set_answer_errno by (cases "other_line l") (fastforce simp del: uapi_set_answer.simps)+
qed auto

definition answers :: "libc \<Rightarrow> int \<Rightarrow> string list \<Rightarrow> bool" where
  "answers L n lines =
     (\<exists>pre l mid b post. lines = pre @ l # mid @ b # post \<and> list_all (\<lambda>l. other_line l \<or> (\<exists>n. errno_line L n l)) pre \<and>
        errno_line L n l \<and> list_all other_line mid \<and> uapi_line b = Some None)"

lemma answers_result:
  assumes "answers L n lines"
  shows "uapi_set_answer L err e lines = n"
proof -
  from assms obtain pre l mid b post where 1: "lines = pre @ l # mid @ b # post"
    "list_all (\<lambda>l. other_line l \<or> (\<exists>n. errno_line L n l)) pre" "errno_line L n l" "list_all other_line mid" "uapi_line b = Some None"
    unfolding answers_def by blast
  from uapi_set_answer_readable [OF 1(2), of err e "l # mid @ b # post"] obtain e' where
    "uapi_set_answer L err e lines = uapi_set_answer L err e' (l # mid @ b # post)" using 1(1) by blast
  also have "\<dots> = uapi_set_answer L err n (b # post)"
    by (simp only: uapi_set_answer_errno [OF 1(3)] uapi_set_answer_others [OF 1(4)])
  also have "\<dots> = n" by (rule uapi_set_answer_blank [OF 1(5)])
  finally show ?thesis .
qed

lemma answers_Cons:
  assumes "answers L n ls" "other_line l \<or> (\<exists>n. errno_line L n l)"
  shows "answers L n (l # ls)"
proof -
  from assms(1) obtain pre m mid b post where "ls = pre @ m # mid @ b # post"
    "list_all (\<lambda>l. other_line l \<or> (\<exists>n. errno_line L n l)) pre" "errno_line L n m" "list_all other_line mid" "uapi_line b = Some None"
    unfolding answers_def by blast
  then show ?thesis
    using assms(2) unfolding answers_def
    by (intro exI [of _ "l # pre"] exI [of _ m] exI [of _ mid] exI [of _ b] exI [of _ post]) simp
qed

lemma result_answers:
  assumes "err \<noteq> 0 \<longrightarrow> n \<noteq> - err" "n \<noteq> - EPROTO" "uapi_set_answer L err e lines = n"
  shows "answers L n lines \<or> (n = e \<and> (\<exists>mid b post. lines = mid @ b # post \<and> list_all other_line mid \<and> uapi_line b = Some None))"
  using assms(3)
proof (induction lines arbitrary: e)
  case Nil
  then show ?case using assms by (auto split: if_splits)
next
  case (Cons l ls)
  consider "uapi_line l = Some None" | "other_line l" | m where "errno_line L m l"
    | "uapi_line l \<noteq> Some None" "\<not> other_line l" "\<And>n. \<not> errno_line L n l"
    by blast
  then show ?case
  proof cases
    case 1
    then have "l # ls = [] @ l # ls \<and> list_all other_line [] \<and> uapi_line l = Some None" by simp
    moreover have "n = e" using Cons.prems 1 by simp
    ultimately show ?thesis by blast
  next
    case 2
    then have "uapi_set_answer L err e ls = n" using Cons.prems uapi_set_answer_other by metis
    from Cons.IH [OF this] 2 show ?thesis by (auto intro: answers_Cons) (metis append_Cons list.pred_inject(2))
  next
    case (3 m)
    then have "uapi_set_answer L err m ls = n" using Cons.prems uapi_set_answer_errno by metis
    from Cons.IH [OF this] consider "answers L n ls"
      | mid b post where "n = m" "ls = mid @ b # post" "list_all other_line mid" "uapi_line b = Some None" by blast
    then show ?thesis
    proof cases
      case 1
      then show ?thesis using 3 by (blast intro: answers_Cons)
    next
      case 2
      then have "l # ls = [] @ l # mid @ b # post" "list_all (\<lambda>l. other_line l \<or> (\<exists>n. errno_line L n l)) []" "errno_line L n l"
        using 3 by simp_all
      with 2(3,4) show ?thesis unfolding answers_def by blast
    qed
  next
    case 4
    from uapi_set_answer_bad [OF this] Cons.prems assms(1,2) show ?thesis by (auto simp del: uapi_set_answer.simps split: if_splits)
  qed
qed

subsection \<open>Properties\<close>

text \<open>
  C7. What \<open>userspace_set_device\<close> sends, \<open>userspace_get_device\<close> reads back: if an implementation
  answers a \<open>get\<close> with the keys and values of a request that removes nothing, followed by \<open>errno=0\<close>,
  the device obtained has the keys, port, mark and, in order, the peers of the request, each with its keys,
  endpoint, keepalive interval and allowed IPs; the public key is computed from the private one.
\<close>

theorem uapi_roundtrip:
  assumes "libc_ok L" "libc_text L"
    and "device_ok d" "list_all (\<lambda>p. endpoint_printable (endpoint p)) (peers d)" "no_removal d"
    and "sock iface = Inr reply" "reply (''get=1'' @ [newline, newline]) = uapi_set_body L d @ ''errno=0'' @ [newline, newline]"
  shows "userspace_get_device L int128 sock iface =
    Done (uapi_reread int128 (zero_device\<lparr>name := strncpy_term IFNAMSIZ iface\<rparr>) d)"
proof -
  let ?d0 = "zero_device\<lparr>name := strncpy_term IFNAMSIZ iface\<rparr>"
  have "getlines (''errno=0'' @ [newline, newline]) = [''errno=0'' @ [newline], [newline]]" by (simp add: getlines.simps)
  with device_kvs_ok [OF assms(2-4)] have
    "getlines (reply (''get=1'' @ [newline, newline])) = map kv_text (device_kvs L d) @ [''errno=0'' @ [newline], [newline]]"
    unfolding assms(7) uapi_set_body_kvs [OF assms(2,3,5)] by (simp only: getlines_kvs)
  moreover have "device_ok ?d0" "peers ?d0 = []" by (simp_all add: zero_device_def device_ok_def zero_key_def WG_KEY_LEN_def)
  from get_device_kvs [OF assms(1-4) this, of int128 None "- EPROTO"] obtain st where
    "fold_outcome (\<lambda>(k, v). uapi_get_step L int128 k v) (device_kvs L d)
       \<lparr>g_dev = ?d0, g_peer = None, g_allowedip = None, g_ret = - EPROTO\<rparr> = Done st" "g_dev st = uapi_reread int128 ?d0 d" by blast
  ultimately show ?thesis
    unfolding userspace_get_device_def assms(6) sum.case
    by (simp only: uapi_get_lines_kvs [OF device_kvs_ok [OF assms(2-4)]] and_then.simps get_errno_line)
qed

text \<open>
  C8. \<open>userspace_get_device\<close> is memory safe on every answer of the other side: whatever lines arrive, it
  returns, with an error or with a device that is well formed and has a public key for every peer. It neither follows a
  null pointer nor reads on without end.
\<close>

theorem userspace_get_device_safe:
  assumes "libc_ok L"
  shows "(\<exists>d. userspace_get_device L int128 sock iface = Done d \<and> device_ok d \<and>
      list_all (\<lambda>p. has_flag (p_flags p) WGPEER_HAS_PUBLIC_KEY) (peers d)) \<or>
    (\<exists>e. userspace_get_device L int128 sock iface = Error e)"
proof -
  have "get_ok \<lparr>g_dev = zero_device\<lparr>name := strncpy_term IFNAMSIZ iface\<rparr>, g_peer = None, g_allowedip = None, g_ret = - EPROTO\<rparr>"
    by (simp add: get_ok_def zero_device_def device_ok_def zero_key_def WG_KEY_LEN_def chain_ok_def)
  from uapi_get_lines_safe [OF assms this]
  have "safe (\<lambda>d. device_ok d \<and> list_all (\<lambda>p. has_flag (p_flags p) WGPEER_HAS_PUBLIC_KEY) (peers d))
      (userspace_get_device L int128 sock iface)"
    by (auto simp: userspace_get_device_def split: sum.split)
  moreover have "returns (userspace_get_device L int128 sock iface)"
    by (auto simp: userspace_get_device_def returns_lines split: sum.split)
  ultimately show ?thesis by (cases "userspace_get_device L int128 sock iface") (simp_all add: returns_def)
qed

text \<open>
  C9. A request is reported successful exactly when the answer says so: \<open>userspace_set_device\<close> returns
  zero if and only if the socket could be opened and the answer has a line \<open>errno=0\<close>, after it no other
  \<open>errno\<close>, and then the empty line, all lines before being readable. A truncated or malformed answer is never
  success.
\<close>

theorem userspace_set_device_success:
  assumes "\<And>i e. sock i = Inl e \<Longrightarrow> e \<noteq> 0"
  shows "userspace_set_device L sock err dev = 0 \<longleftrightarrow>
    (\<exists>reply. sock (name dev) = Inr reply \<and> answers L 0 (getlines (reply (uapi_set_body L dev @ [newline]))))"
proof (cases "sock (name dev)")
  case (Inr reply)
  have "uapi_set_answer L err (- EPROTO) ls = 0 \<longleftrightarrow> answers L 0 ls" for ls
    using result_answers [of err 0 L "- EPROTO" ls] answers_result [of L 0 ls err "- EPROTO"] by (auto simp: EPROTO_def)
  then show ?thesis by (simp add: userspace_set_device_def Inr)
qed (use assms in \<open>auto simp: userspace_set_device_def\<close>)

text \<open>
  C16. The prefix length of an \<open>allowed_ip\<close> is checked only after it has been stored in eight bits: an
  IPv4 prefix written as any decimal number below \<open>2 ^ 32\<close> is accepted if and only if its low byte is at
  most 32, and an accepted one yields that low byte. In particular \<open>/256\<close> is taken as \<open>/0\<close>.
\<close>

theorem uapi_get_allowedip_prefix:
  assumes "libc_ok L" "inet_pton L AF_INET addr = Some b" "CHR '':'' \<notin> set addr" "CHR ''/'' \<notin> set addr" "n < 2 ^ 32"
  shows "uapi_get_allowedip L (addr @ ''/'' @ dec_string n) =
    (if n mod 256 \<le> 32
     then Done (zero_allowedip\<lparr>ip := overwrite b (ip zero_allowedip), family := of_nat AF_INET, cidr := of_nat (n mod 256)\<rparr>)
     else Error (- EPROTO))"
proof -
  have sep: "strsep (CHR ''/'') (addr @ ''/'' @ dec_string n) = (addr, Some (dec_string n))"
    using assms(4) strsep_append [of "CHR ''/''" addr "dec_string n"] by simp
  have col: "strchr addr CHR '':'' = None" using strchr_iff [of addr "CHR '':''"] assms(3) by blast
  have "(2::nat) ^ 32 \<le> 2 ^ ulong_bits L" using assms(1) by (intro power_increasing) (auto simp: libc_ok_def)
  then have num: "strtoul (ulong_bits L) 10 (dec_string n) = (n, [])"
    using assms(5) by (simp add: strtoul_number [OF is_number_num_string(1)] digits_value_numeral)
  have w: "(of_nat n :: u8) = of_nat (n mod 256)" by (rule word_unat_eq_iff [THEN iffD2]) (simp add: unat_of_nat)
  have "(of_nat n :: u8) > 32 \<longleftrightarrow> \<not> n mod 256 \<le> 32" by (simp add: word_less_nat_alt unat_of_nat not_le)
  then show ?thesis
    unfolding uapi_get_allowedip_def sep
    using assms(2) first_char_number [OF is_number_num_string(1), of n]
    by (simp add: num col w wg_simps Let_def af_defs zero_allowedip_def)
qed

definition sample_request :: wgdevice where
  "sample_request = sample_device\<lparr>private_key := replicate 32 9,
     d_flags := WGDEVICE_HAS_PRIVATE_KEY OR WGDEVICE_HAS_LISTEN_PORT OR WGDEVICE_REPLACE_PEERS\<rparr>"

theorem uapi_roundtrip_witness:
  "userspace_get_device numeric_libc True (\<lambda>_. Inr (\<lambda>_. uapi_set_body numeric_libc sample_request @ ''errno=0'' @ [newline, newline])) ''wg0''
   = Done (uapi_reread True (zero_device\<lparr>name := strncpy_term IFNAMSIZ ''wg0''\<rparr>) sample_request)"
proof (rule uapi_roundtrip [OF numeric_libc_ok numeric_libc_text])
  show "device_ok sample_request" "list_all (\<lambda>p. endpoint_printable (endpoint p)) (peers sample_request)"
    using sample_device_ok by (simp_all add: sample_request_def device_ok_def WG_KEY_LEN_def)
  show "no_removal sample_request"
    by (simp add: sample_request_def sample_device_def zero_device_def no_removal_def has_flag_def zero_peer_def)
qed (rule refl)+

theorem userspace_get_device_safe_witness:
  "\<exists>e. userspace_get_device numeric_libc True (\<lambda>_. Inr (\<lambda>_. ''endpoint=x'' @ [newline])) ''wg0'' = Error e"
proof -
  have "userspace_get_device numeric_libc True (\<lambda>_. Inr (\<lambda>_. ''endpoint=x'' @ [newline])) ''wg0'' \<noteq> Done d" for d
    by (simp add: userspace_get_device_def getlines.simps uapi_line_def split_first_def uapi_get_step_def Let_def)
  then show ?thesis
    using userspace_get_device_safe [OF numeric_libc_ok, of True "\<lambda>_. Inr (\<lambda>_. ''endpoint=x'' @ [newline])" "''wg0''"] by blast
qed

theorem userspace_set_device_success_witness:
  "answers numeric_libc 0 (getlines (''errno=0'' @ [newline, newline]))"
proof -
  have "userspace_set_device numeric_libc (\<lambda>_. Inr (\<lambda>_. ''errno=0'' @ [newline, newline])) 0 zero_device = 0"
    by code_simp
  then show ?thesis
    using userspace_set_device_success [of "\<lambda>_. Inr (\<lambda>_. ''errno=0'' @ [newline, newline])" numeric_libc 0 zero_device] by simp
qed

theorem uapi_get_allowedip_prefix_witness:
  "uapi_get_allowedip numeric_libc ''10.0.0.0/256'' =
    Done (zero_allowedip\<lparr>ip := overwrite [10, 0, 0, 0] (ip zero_allowedip), family := of_nat AF_INET, cidr := 0\<rparr>)"
proof -
  have 1: "inet_pton numeric_libc AF_INET ''10.0.0.0'' = Some [10, 0, 0, 0]" "dec_string 256 = ''256''"
    by code_simp+
  have "CHR '':'' \<notin> set ''10.0.0.0''" "CHR ''/'' \<notin> set ''10.0.0.0''" by simp_all
  from uapi_get_allowedip_prefix [OF numeric_libc_ok 1(1) this, of 256] show ?thesis by (simp add: 1(2))
qed

end
