(* ===== verification/Wg_Highlighter.thy ===== *)
theory Wg_Highlighter
  imports Wg_Encoding Wg_Text "HOL-Library.Monad_Syntax"
begin

text \<open>
  The configuration highlighter of \<open>contrib/highlighter/highlighter.c\<close>, which the editor calls on
  every change of its text. The text is a C string: a \<open>string\<close> without its terminator, which is read
  at the index one past the last character. A \<open>string_span_t\<close> is a start index into that text and a
  length. Every read of the text goes through \<open>char_at\<close>, which has no value beyond the terminator, and every write to the
  array of spans through \<open>store_span\<close>, which has none beyond the memory allocated, so \<open>None\<close> is an
  out-of-bounds access. \<open>realloc\<close> is a parameter that says whether a request of that many bytes is granted.
\<close>

record string_span =
  sp_s :: nat
  sp_len :: nat

definition char_at :: "string \<Rightarrow> nat \<Rightarrow> char option" where
  "char_at cfg i = (if i < length cfg then Some (cfg ! i) else if i = length cfg then Some NUL else None)"

subsection \<open>Characters and words\<close>

text \<open>
  The comparisons read a \<open>char\<close> as an unsigned byte. Where \<open>char\<close> is signed they give the same answers,
  see \<open>char_tests_signedness\<close>.
\<close>

definition is_decimal :: "char \<Rightarrow> bool" where
  "is_decimal c = (48 \<le> char_int c \<and> char_int c \<le> 57)"

definition is_hexadecimal :: "char \<Rightarrow> bool" where
  "is_hexadecimal c = (is_decimal c \<or> (97 \<le> char_int c OR 32 \<and> char_int c OR 32 \<le> 102))"

definition is_alphabet :: "char \<Rightarrow> bool" where
  "is_alphabet c = (97 \<le> char_int c OR 32 \<and> char_int c OR 32 \<le> 122)"

text \<open>A loop over \<open>n\<close> characters that returns false at the first one that fails a test.\<close>

fun all_chars :: "string \<Rightarrow> (char \<Rightarrow> bool) \<Rightarrow> nat \<Rightarrow> nat \<Rightarrow> bool option" where
  "all_chars cfg P i 0 = Some True"
| "all_chars cfg P i (Suc n) = do { c \<leftarrow> char_at cfg i; if P c then all_chars cfg P (Suc i) n else Some False }"

text \<open>\<open>memcmp\<close> with the bytes of a literal, and the same without regard to case.\<close>

fun same_chars :: "string \<Rightarrow> (char \<Rightarrow> char) \<Rightarrow> nat \<Rightarrow> string \<Rightarrow> bool option" where
  "same_chars cfg f i [] = Some True"
| "same_chars cfg f i (a # as) =
     do { b \<leftarrow> char_at cfg i; if f a \<noteq> f b then Some False else same_chars cfg f (Suc i) as }"

definition is_same :: "string \<Rightarrow> string_span \<Rightarrow> string \<Rightarrow> bool option" where
  "is_same cfg s c = (if length c \<noteq> sp_len s then Some False else same_chars cfg id (sp_s s) c)"

definition to_upper :: "char \<Rightarrow> char" where
  "to_upper c = (if 97 \<le> char_int c \<and> char_int c - 97 < 26 then char_of (char_int c AND 95) else c)"

definition is_caseless_same :: "string \<Rightarrow> string_span \<Rightarrow> string \<Rightarrow> bool option" where
  "is_caseless_same cfg s c = (if length c \<noteq> sp_len s then Some False else same_chars cfg to_upper (sp_s s) c)"

subsection \<open>Values\<close>

definition is_valid_key :: "string \<Rightarrow> string_span \<Rightarrow> bool option" where
  "is_valid_key cfg s =
     (if sp_len s \<noteq> 44 then Some False
      else do {
        c43 \<leftarrow> char_at cfg (sp_s s + 43);
        if c43 \<noteq> CHR ''='' then Some False
        else do {
          ok \<leftarrow> all_chars cfg (\<lambda>c. is_decimal c \<or> is_alphabet c \<or> c = CHR ''/'' \<or> c = CHR ''+'') (sp_s s) 42;
          if \<not> ok then Some False
          else do {
            c42 \<leftarrow> char_at cfg (sp_s s + 42);
            Some (c42 \<in> set ''AEIMQUYcgkosw480'')
          }
        }
      })"

function hostname_loop :: "string \<Rightarrow> string_span \<Rightarrow> nat \<Rightarrow> nat \<Rightarrow> nat \<Rightarrow> bool option" where
  "hostname_loop cfg s i num_digit num_entity =
     (if i < sp_len s then do {
        c \<leftarrow> char_at cfg (sp_s s + i);
        if is_decimal c then hostname_loop cfg s (Suc i) (Suc num_digit) num_entity
        else if c = CHR ''.'' then hostname_loop cfg s (Suc i) num_digit (num_entity - 1)
        else if \<not> is_alphabet c \<and> c \<noteq> CHR ''-'' then Some False
        else if i \<noteq> 0 \<and> c = CHR ''.'' then do {
          b \<leftarrow> char_at cfg (sp_s s + i - 1);
          if b = CHR ''.'' then Some False else hostname_loop cfg s (Suc i) num_digit num_entity }
        else hostname_loop cfg s (Suc i) num_digit num_entity }
      else Some (num_digit \<noteq> num_entity))"
  by pat_completeness auto
termination by (relation "measure (\<lambda>(cfg, s, i, _). sp_len s - i)") auto

definition is_valid_hostname :: "string \<Rightarrow> string_span \<Rightarrow> bool option" where
  "is_valid_hostname cfg s =
     (if sp_len s > 63 \<or> sp_len s = 0 then Some False
      else do {
        a \<leftarrow> char_at cfg (sp_s s);
        z \<leftarrow> char_at cfg (sp_s s + sp_len s - 1);
        if a = CHR ''-'' \<or> z = CHR ''-'' then Some False
        else if a = CHR ''.'' \<or> z = CHR ''.'' then Some False
        else hostname_loop cfg s 0 0 (sp_len s)
      })"

text \<open>Up to three digits of one part: their number and their value, read from \<open>pos\<close> on.\<close>

fun ipv4_digits :: "string \<Rightarrow> string_span \<Rightarrow> nat \<Rightarrow> nat \<Rightarrow> nat \<Rightarrow> nat \<Rightarrow> (nat \<times> nat) option" where
  "ipv4_digits cfg s pos 0 j val = Some (j, val)"
| "ipv4_digits cfg s pos (Suc k) j val =
     (if pos + j < sp_len s then do {
        c \<leftarrow> char_at cfg (sp_s s + pos + j);
        if is_decimal c then ipv4_digits cfg s pos k (Suc j) (10 * val + nat (char_int c - 48)) else Some (j, val) }
      else Some (j, val))"

function ipv4_loop :: "string \<Rightarrow> string_span \<Rightarrow> nat \<Rightarrow> nat \<Rightarrow> bool option" where
  "ipv4_loop cfg s i pos =
     (if i < 4 \<and> pos < sp_len s then do {
        (j, val) \<leftarrow> ipv4_digits cfg s pos 3 0 0;
        first \<leftarrow> char_at cfg (sp_s s + pos);
        if j = 0 \<or> (j > 1 \<and> first = CHR ''0'') \<or> val > 255 then Some False
        else if pos + j = sp_len s \<and> i = 3 then Some True
        else do {
          c \<leftarrow> char_at cfg (sp_s s + pos + j);
          if c \<noteq> CHR ''.'' then Some False else ipv4_loop cfg s (Suc i) (pos + j + 1) } }
      else Some False)"
  by pat_completeness auto
termination by (relation "measure (\<lambda>(cfg, s, i, pos). 4 - i)") auto

definition is_valid_ipv4 :: "string \<Rightarrow> string_span \<Rightarrow> bool option" where
  "is_valid_ipv4 cfg s = ipv4_loop cfg s 0 0"

text \<open>Up to four hexadecimal digits from \<open>pos\<close> on: how many there are.\<close>

fun ipv6_digits :: "string \<Rightarrow> string_span \<Rightarrow> nat \<Rightarrow> nat \<Rightarrow> nat \<Rightarrow> nat option" where
  "ipv6_digits cfg s pos 0 j = Some j"
| "ipv6_digits cfg s pos (Suc k) j =
     (if pos + j < sp_len s then do {
        c \<leftarrow> char_at cfg (sp_s s + pos + j);
        if is_hexadecimal c then ipv6_digits cfg s pos k (Suc j) else Some j }
      else Some j)"

function ipv6_loop :: "string \<Rightarrow> string_span \<Rightarrow> nat \<Rightarrow> nat \<Rightarrow> bool \<Rightarrow> bool option" where
  "ipv6_loop cfg s i pos seen_colon =
     (if pos < sp_len s then do {
        a \<leftarrow> char_at cfg (sp_s s + pos);
        if a = CHR '':'' \<and> \<not> seen_colon then
          if pos + 1 = sp_len s then Some True
          else if i = 7 then Some False
          else ipv6_loop cfg s (Suc i) (pos + 1) True
        else do {
          j \<leftarrow> ipv6_digits cfg s pos 4 0;
          if j = 0 then Some False
          else if pos + j = sp_len s \<and> (seen_colon \<or> i = 7) then Some True
          else if i = 7 then Some False
          else do {
            c \<leftarrow> char_at cfg (sp_s s + pos + j);
            if c \<noteq> CHR '':'' then
              if c \<noteq> CHR ''.'' \<or> (i < 6 \<and> \<not> seen_colon) then Some False
              else is_valid_ipv4 cfg \<lparr>sp_s = sp_s s + pos, sp_len = sp_len s - pos\<rparr>
            else ipv6_loop cfg s (Suc i) (pos + j + 1) seen_colon } } }
      else Some True)"
  by pat_completeness auto
termination by (relation "measure (\<lambda>(cfg, s, i, pos, seen). sp_len s - pos)") auto

definition is_valid_ipv6 :: "string \<Rightarrow> string_span \<Rightarrow> bool option" where
  "is_valid_ipv6 cfg s =
     (if sp_len s < 2 then Some False
      else do {
        a \<leftarrow> char_at cfg (sp_s s);
        b \<leftarrow> char_at cfg (sp_s s + 1);
        if a = CHR '':'' \<and> b \<noteq> CHR '':'' then Some False
        else do {
          z \<leftarrow> char_at cfg (sp_s s + sp_len s - 1);
          y \<leftarrow> char_at cfg (sp_s s + sp_len s - 2);
          if z = CHR '':'' \<and> y \<noteq> CHR '':'' then Some False
          else ipv6_loop cfg s 0 (if a = CHR '':'' then 1 else 0) False
        }
      })"

text \<open>At most ten characters, so that \<open>val\<close> stays far below \<open>2 ^ 64\<close>, see \<open>uint_value_bound\<close>.\<close>

fun uint_hex :: "string \<Rightarrow> nat \<Rightarrow> nat \<Rightarrow> nat \<Rightarrow> nat option option" where
  "uint_hex cfg i 0 val = Some (Some val)"
| "uint_hex cfg i (Suc n) val = do {
     c \<leftarrow> char_at cfg i;
     if 48 \<le> char_int c \<and> char_int c - 48 < 10 then uint_hex cfg (Suc i) n (16 * val + nat (char_int c - 48))
     else if 97 \<le> char_int c OR 32 \<and> (char_int c OR 32) - 97 < 6
       then uint_hex cfg (Suc i) n (16 * val + nat (char_int c OR 32) - 97 + 10)
     else Some None }"

fun uint_dec :: "string \<Rightarrow> nat \<Rightarrow> nat \<Rightarrow> nat \<Rightarrow> nat option option" where
  "uint_dec cfg i 0 val = Some (Some val)"
| "uint_dec cfg i (Suc n) val = do {
     c \<leftarrow> char_at cfg i;
     if is_decimal c then uint_dec cfg (Suc i) n (10 * val + nat (char_int c - 48)) else Some None }"

definition is_valid_uint :: "string \<Rightarrow> string_span \<Rightarrow> bool \<Rightarrow> nat \<Rightarrow> nat \<Rightarrow> bool option" where
  "is_valid_uint cfg s support_hex lo hi =
     (if sp_len s > 10 \<or> sp_len s = 0 then Some False
      else do {
        hex \<leftarrow> (if support_hex \<and> sp_len s > 2 then do {
                  a \<leftarrow> char_at cfg (sp_s s);
                  b \<leftarrow> char_at cfg (sp_s s + 1);
                  Some (a = CHR ''0'' \<and> b = CHR ''x'') }
                else Some False);
        val \<leftarrow> (if hex then uint_hex cfg (sp_s s + 2) (sp_len s - 2) 0 else uint_dec cfg (sp_s s) (sp_len s) 0);
        Some (case val of None \<Rightarrow> False | Some v \<Rightarrow> v \<le> hi \<and> v \<ge> lo)
      })"

definition is_valid_port :: "string \<Rightarrow> string_span \<Rightarrow> bool option" where
  "is_valid_port cfg s = is_valid_uint cfg s False 0 65535"

definition is_valid_mtu :: "string \<Rightarrow> string_span \<Rightarrow> bool option" where
  "is_valid_mtu cfg s = is_valid_uint cfg s False 576 65535"

definition is_valid_persistentkeepalive :: "string \<Rightarrow> string_span \<Rightarrow> bool option" where
  "is_valid_persistentkeepalive cfg s = do {
     off \<leftarrow> is_same cfg s ''off'';
     if off then Some True else is_valid_uint cfg s False 0 65535 }"

definition is_valid_fwmark :: "string \<Rightarrow> string_span \<Rightarrow> bool option" where
  "is_valid_fwmark cfg s = do {
     off \<leftarrow> is_same cfg s ''off'';
     if off then Some True else is_valid_uint cfg s True 0 4294967295 }"

definition is_valid_table :: "string \<Rightarrow> string_span \<Rightarrow> bool option" where
  "is_valid_table cfg s = do {
     auto \<leftarrow> is_same cfg s ''auto'';
     if auto then Some True
     else do {
       off \<leftarrow> is_same cfg s ''off'';
       if off then Some True
       else if sp_len s < 512 then Some True
       else is_valid_uint cfg s False 0 4294967295 } }"

definition is_valid_saveconfig :: "string \<Rightarrow> string_span \<Rightarrow> bool option" where
  "is_valid_saveconfig cfg s = do {
     t \<leftarrow> is_same cfg s ''true'';
     if t then Some True else is_same cfg s ''false'' }"

definition is_valid_prepostupdown :: "string \<Rightarrow> string_span \<Rightarrow> bool option" where
  "is_valid_prepostupdown cfg s = Some (sp_len s \<noteq> 0)"

definition is_valid_scope :: "string \<Rightarrow> string_span \<Rightarrow> bool option" where
  "is_valid_scope cfg s =
     (if sp_len s > 64 \<or> sp_len s = 0 then Some False
      else all_chars cfg (\<lambda>c. is_alphabet c \<or> is_decimal c \<or> c \<in> set ''_=+.-'') (sp_s s) (sp_len s))"

text \<open>The two loops of \<open>is_valid_endpoint\<close>: inside brackets, and up to the first colon.\<close>

function bracket_loop :: "string \<Rightarrow> string_span \<Rightarrow> nat \<Rightarrow> bool \<Rightarrow> string_span \<Rightarrow> bool option" where
  "bracket_loop cfg s i seen_scope hostspan =
     (if i < sp_len s then do {
        c \<leftarrow> char_at cfg (sp_s s + i);
        if c = CHR ''%'' then
          if seen_scope then Some False
          else do {
            ok \<leftarrow> is_valid_ipv6 cfg hostspan;
            if \<not> ok then Some False
            else bracket_loop cfg s (Suc i) True \<lparr>sp_s = sp_s s + i + 1, sp_len = 0\<rparr> }
        else if c = CHR '']'' then do {
          ok \<leftarrow> (if seen_scope then is_valid_scope cfg hostspan else is_valid_ipv6 cfg hostspan);
          if \<not> ok then Some False
          else if i = sp_len s - 1 then Some False
          else do {
            d \<leftarrow> char_at cfg (sp_s s + i + 1);
            if d \<noteq> CHR '':'' then Some False
            else is_valid_port cfg \<lparr>sp_s = sp_s s + i + 2, sp_len = sp_len s - i - 2\<rparr> } }
        else bracket_loop cfg s (Suc i) seen_scope (hostspan\<lparr>sp_len := Suc (sp_len hostspan)\<rparr>) }
      else Some False)"
  by pat_completeness auto
termination by (relation "measure (\<lambda>(cfg, s, i, _). sp_len s - i)") auto

function colon_loop :: "string \<Rightarrow> string_span \<Rightarrow> nat \<Rightarrow> bool option" where
  "colon_loop cfg s i =
     (if i < sp_len s then do {
        c \<leftarrow> char_at cfg (sp_s s + i);
        if c = CHR '':'' then do {
          port \<leftarrow> is_valid_port cfg \<lparr>sp_s = sp_s s + i + 1, sp_len = sp_len s - i - 1\<rparr>;
          if \<not> port then Some False
          else do {
            v4 \<leftarrow> is_valid_ipv4 cfg \<lparr>sp_s = sp_s s, sp_len = i\<rparr>;
            if v4 then Some True else is_valid_hostname cfg \<lparr>sp_s = sp_s s, sp_len = i\<rparr> } }
        else colon_loop cfg s (Suc i) }
      else Some False)"
  by pat_completeness auto
termination by (relation "measure (\<lambda>(cfg, s, i). sp_len s - i)") auto

definition is_valid_endpoint :: "string \<Rightarrow> string_span \<Rightarrow> bool option" where
  "is_valid_endpoint cfg s =
     (if sp_len s = 0 then Some False
      else do {
        a \<leftarrow> char_at cfg (sp_s s);
        if a = CHR ''['' then bracket_loop cfg s 1 False \<lparr>sp_s = sp_s s + 1, sp_len = 0\<rparr>
        else colon_loop cfg s 0
      })"

function network_loop :: "string \<Rightarrow> string_span \<Rightarrow> nat \<Rightarrow> bool option" where
  "network_loop cfg s i =
     (if i < sp_len s then do {
        c \<leftarrow> char_at cfg (sp_s s + i);
        if c = CHR ''/'' then
          if sp_len s - i - 1 > 3 \<or> sp_len s - i - 1 = 0 then Some False
          else do {
            v \<leftarrow> uint_dec cfg (sp_s s + i + 1) (sp_len s - i - 1) 0;
            case v of
              None \<Rightarrow> Some False
            | Some cidrval \<Rightarrow> do {
                v4 \<leftarrow> is_valid_ipv4 cfg \<lparr>sp_s = sp_s s, sp_len = i\<rparr>;
                if v4 then Some (cidrval \<le> 32)
                else do {
                  v6 \<leftarrow> is_valid_ipv6 cfg \<lparr>sp_s = sp_s s, sp_len = i\<rparr>;
                  Some (v6 \<and> cidrval \<le> 128) } } }
        else network_loop cfg s (Suc i) }
      else do {
        v4 \<leftarrow> is_valid_ipv4 cfg s;
        if v4 then Some True else is_valid_ipv6 cfg s })"
  by pat_completeness auto
termination by (relation "measure (\<lambda>(cfg, s, i). sp_len s - i)") auto

definition is_valid_network :: "string \<Rightarrow> string_span \<Rightarrow> bool option" where
  "is_valid_network cfg s = network_loop cfg s 0"

subsection \<open>Fields and sections\<close>

datatype field =
  InterfaceSection | PrivateKey | ListenPort | Address | DNS | MTU | FwMark | Table
| PreUp | PostUp | PreDown | PostDown | SaveConfig
| PeerSection | PublicKey | PresharedKey | AllowedIPs | Endpoint | PersistentKeepalive
| Invalid

text \<open>The enumeration is ordered by the values of its constants.\<close>

fun field_index :: "field \<Rightarrow> nat" where
  "field_index InterfaceSection = 0"
| "field_index PrivateKey = 1"
| "field_index ListenPort = 2"
| "field_index Address = 3"
| "field_index DNS = 4"
| "field_index MTU = 5"
| "field_index FwMark = 6"
| "field_index Table = 7"
| "field_index PreUp = 8"
| "field_index PostUp = 9"
| "field_index PreDown = 10"
| "field_index PostDown = 11"
| "field_index SaveConfig = 12"
| "field_index PeerSection = 13"
| "field_index PublicKey = 14"
| "field_index PresharedKey = 15"
| "field_index AllowedIPs = 16"
| "field_index Endpoint = 17"
| "field_index PersistentKeepalive = 18"
| "field_index Invalid = 19"

lemma field_index_inj: "field_index a = field_index b \<longleftrightarrow> a = b"
  by (cases a; cases b) simp_all

instantiation field :: linorder
begin

definition less_eq_field :: "field \<Rightarrow> field \<Rightarrow> bool" where
  "less_eq_field a b = (field_index a \<le> field_index b)"

definition less_field :: "field \<Rightarrow> field \<Rightarrow> bool" where
  "less_field a b = (field_index a < field_index b)"

instance
  by standard (auto simp: less_eq_field_def less_field_def field_index_inj)

end

definition section_for_field :: "field \<Rightarrow> field" where
  "section_for_field t =
     (if InterfaceSection < t \<and> t < PeerSection then InterfaceSection
      else if PeerSection < t \<and> t < Invalid then PeerSection
      else Invalid)"

fun check_enums :: "string \<Rightarrow> string_span \<Rightarrow> (field \<times> string) list \<Rightarrow> field option" where
  "check_enums cfg s [] = Some Invalid"
| "check_enums cfg s ((t, name) # rest) =
     do { same \<leftarrow> is_caseless_same cfg s name; if same then Some t else check_enums cfg s rest }"

definition get_field :: "string \<Rightarrow> string_span \<Rightarrow> field option" where
  "get_field cfg s = check_enums cfg s
     [(PrivateKey, ''PrivateKey''), (ListenPort, ''ListenPort''), (Address, ''Address''), (DNS, ''DNS''), (MTU, ''MTU''),
      (PublicKey, ''PublicKey''), (PresharedKey, ''PresharedKey''), (AllowedIPs, ''AllowedIPs''), (Endpoint, ''Endpoint''),
      (PersistentKeepalive, ''PersistentKeepalive''), (FwMark, ''FwMark''), (Table, ''Table''), (PreUp, ''PreUp''),
      (PostUp, ''PostUp''), (PreDown, ''PreDown''), (PostDown, ''PostDown''), (SaveConfig, ''SaveConfig'')]"

definition get_sectiontype :: "string \<Rightarrow> string_span \<Rightarrow> field option" where
  "get_sectiontype cfg s = check_enums cfg s [(PeerSection, ''[Peer]''), (InterfaceSection, ''[Interface]'')]"

subsection \<open>The array of spans\<close>

datatype highlight_type =
  HighlightSection | HighlightField | HighlightPrivateKey | HighlightPublicKey | HighlightPresharedKey
| HighlightIP | HighlightCidr | HighlightHost | HighlightPort | HighlightMTU | HighlightKeepalive
| HighlightComment | HighlightDelimiter | HighlightTable | HighlightFwMark | HighlightSaveConfig | HighlightCmd
| HighlightError | HighlightEnd

record highlight_span =
  h_type :: highlight_type
  h_start :: nat
  h_len :: nat

text \<open>
  \<open>len\<close> is the length of the list. Beside the fields of the source, \<open>allocated\<close> is the number of entries that the
  memory at \<open>spans\<close> has room for, none at \<open>NULL\<close>. A \<open>size_t\<close> has 64 bits and a \<open>struct highlight_span\<close> 24 bytes.
\<close>

record highlight_span_array =
  capacity :: nat
  allocated :: nat
  spans :: "highlight_span list"

definition empty_spans :: highlight_span_array where
  "empty_spans = \<lparr>capacity = 0, allocated = 0, spans = []\<rparr>"

definition SIZE_MAX :: nat where
  "SIZE_MAX = 2 ^ 64 - 1"

definition realloc_array :: "(nat \<Rightarrow> bool) \<Rightarrow> nat \<Rightarrow> nat \<Rightarrow> bool" where
  "realloc_array realloc nmemb bytes =
     (if (nmemb \<ge> 2 ^ 32 \<or> bytes \<ge> 2 ^ 32) \<and> nmemb > 0 \<and> SIZE_MAX div nmemb < bytes then False
      else realloc (bytes * nmemb mod 2 ^ 64))"

text \<open>Writing the entry after the last one: the write must be within the memory allocated.\<close>

definition store_span :: "highlight_span_array \<Rightarrow> highlight_span \<Rightarrow> highlight_span_array option" where
  "store_span a entry = (if length (spans a) < allocated a then Some (a\<lparr>spans := spans a @ [entry]\<rparr>) else None)"

text \<open>
  On success the memory has the number of bytes asked for. The truth value the source returns is left out, as no
  caller looks at it.
\<close>

definition append_highlight_span ::
  "(nat \<Rightarrow> bool) \<Rightarrow> highlight_span_array \<Rightarrow> string_span \<Rightarrow> highlight_type \<Rightarrow> highlight_span_array option" where
  "append_highlight_span realloc a s t =
     (let entry = \<lparr>h_type = t, h_start = sp_s s, h_len = sp_len s\<rparr> in
      if sp_len s = 0 then Some a
      else if length (spans a) \<ge> capacity a then
        let cap = (if capacity a \<noteq> 0 then capacity a * 2 mod 2 ^ 64 else 64)
        in if \<not> realloc_array realloc cap 24 then Some empty_spans
           else store_span (a\<lparr>capacity := cap, allocated := (24 * cap mod 2 ^ 64) div 24\<rparr>) entry
      else store_span a entry)"

subsection \<open>Highlighting values\<close>

text \<open>The index of the first slash, or the length of the span.\<close>

function find_slash :: "string \<Rightarrow> string_span \<Rightarrow> nat \<Rightarrow> nat option" where
  "find_slash cfg s slash =
     (if slash < sp_len s then do {
        c \<leftarrow> char_at cfg (sp_s s + slash);
        if c = CHR ''/'' then Some slash else find_slash cfg s (Suc slash) }
      else Some slash)"
  by pat_completeness auto
termination by (relation "measure (\<lambda>(cfg, s, i). sp_len s - i)") auto

text \<open>A span cut at a position: what precedes the character there, the character as a delimiter, and what follows.\<close>

definition append_cut ::
  "(nat \<Rightarrow> bool) \<Rightarrow> highlight_span_array \<Rightarrow> string_span \<Rightarrow> nat \<Rightarrow> highlight_type \<Rightarrow> highlight_type \<Rightarrow>
     highlight_span_array option" where
  "append_cut realloc ret s k t1 t2 = do {
     ret \<leftarrow> append_highlight_span realloc ret \<lparr>sp_s = sp_s s, sp_len = k\<rparr> t1;
     ret \<leftarrow> append_highlight_span realloc ret \<lparr>sp_s = sp_s s + k, sp_len = 1\<rparr> HighlightDelimiter;
     append_highlight_span realloc ret \<lparr>sp_s = sp_s s + k + 1, sp_len = sp_len s - k - 1\<rparr> t2 }"

definition highlight_multivalue_value ::
  "(nat \<Rightarrow> bool) \<Rightarrow> string \<Rightarrow> highlight_span_array \<Rightarrow> string_span \<Rightarrow> field \<Rightarrow> highlight_span_array option" where
  "highlight_multivalue_value realloc cfg ret s section =
     (if section = DNS then do {
        v4 \<leftarrow> is_valid_ipv4 cfg s;
        ip \<leftarrow> (if v4 then Some True else is_valid_ipv6 cfg s);
        if ip then append_highlight_span realloc ret s HighlightIP
        else do {
          host \<leftarrow> is_valid_hostname cfg s;
          append_highlight_span realloc ret s (if host then HighlightHost else HighlightError) } }
      else if section = Address \<or> section = AllowedIPs then do {
        net \<leftarrow> is_valid_network cfg s;
        if \<not> net then append_highlight_span realloc ret s HighlightError
        else do {
          slash \<leftarrow> find_slash cfg s 0;
          if slash = sp_len s then append_highlight_span realloc ret s HighlightIP
          else append_cut realloc ret s slash HighlightIP HighlightCidr } }
      else append_highlight_span realloc ret s HighlightError)"

text \<open>The loop of \<open>highlight_multivalue\<close>; at its end the last entry of the array is read and maybe marked.\<close>

function multivalue_loop ::
  "(nat \<Rightarrow> bool) \<Rightarrow> string \<Rightarrow> string_span \<Rightarrow> field \<Rightarrow> nat \<Rightarrow> string_span \<Rightarrow> nat \<Rightarrow> highlight_span_array \<Rightarrow>
     highlight_span_array option" where
  "multivalue_loop realloc cfg s section i current len_at_last_space ret =
     (if i < sp_len s then do {
        c \<leftarrow> char_at cfg (sp_s s + i);
        if c = CHR '','' then do {
          ret \<leftarrow> highlight_multivalue_value realloc cfg ret (current\<lparr>sp_len := len_at_last_space\<rparr>) section;
          ret \<leftarrow> append_highlight_span realloc ret \<lparr>sp_s = sp_s s + i, sp_len = 1\<rparr> HighlightDelimiter;
          multivalue_loop realloc cfg s section (Suc i) \<lparr>sp_s = sp_s s + i + 1, sp_len = 0\<rparr> 0 ret }
        else if c = CHR '' '' \<or> c = CHR 0x09 then
          multivalue_loop realloc cfg s section (Suc i)
            (if sp_s s + i = sp_s current \<and> sp_len current = 0 then current\<lparr>sp_s := Suc (sp_s current)\<rparr>
             else current\<lparr>sp_len := Suc (sp_len current)\<rparr>) len_at_last_space ret
        else
          multivalue_loop realloc cfg s section (Suc i) (current\<lparr>sp_len := Suc (sp_len current)\<rparr>)
            (Suc (sp_len current)) ret }
      else if len_at_last_space \<noteq> 0 then
        highlight_multivalue_value realloc cfg ret (current\<lparr>sp_len := len_at_last_space\<rparr>) section
      else if spans ret = [] then None
      else
        let top = last (spans ret) in
        Some (if h_type top = HighlightDelimiter
              then ret\<lparr>spans := butlast (spans ret) @ [top\<lparr>h_type := HighlightError\<rparr>]\<rparr> else ret))"
  by pat_completeness auto
termination by (relation "measure (\<lambda>(_, _, s, _, i, _). sp_len s - i)") auto

definition highlight_multivalue ::
  "(nat \<Rightarrow> bool) \<Rightarrow> string \<Rightarrow> highlight_span_array \<Rightarrow> string_span \<Rightarrow> field \<Rightarrow> highlight_span_array option" where
  "highlight_multivalue realloc cfg ret s section =
     multivalue_loop realloc cfg s section 0 \<lparr>sp_s = sp_s s, sp_len = 0\<rparr> 0 ret"

text \<open>The last colon of a span; without one the spans built from it would lie outside the text.\<close>

fun find_colon :: "string \<Rightarrow> string_span \<Rightarrow> nat \<Rightarrow> nat option" where
  "find_colon cfg s 0 = None"
| "find_colon cfg s (Suc colon) =
     do { c \<leftarrow> char_at cfg (sp_s s + colon); if c = CHR '':'' then Some colon else find_colon cfg s colon }"

definition highlight_checked ::
  "(nat \<Rightarrow> bool) \<Rightarrow> highlight_span_array \<Rightarrow> string_span \<Rightarrow> bool option \<Rightarrow> highlight_type \<Rightarrow> highlight_span_array option" where
  "highlight_checked realloc ret s valid t =
     do { v \<leftarrow> valid; append_highlight_span realloc ret s (if v then t else HighlightError) }"

definition highlight_endpoint ::
  "(nat \<Rightarrow> bool) \<Rightarrow> string \<Rightarrow> highlight_span_array \<Rightarrow> string_span \<Rightarrow> highlight_span_array option" where
  "highlight_endpoint realloc cfg ret s = do {
     valid \<leftarrow> is_valid_endpoint cfg s;
     if \<not> valid then append_highlight_span realloc ret s HighlightError
     else do {
       colon \<leftarrow> find_colon cfg s (sp_len s);
       append_cut realloc ret s colon HighlightHost HighlightPort } }"

definition highlight_value ::
  "(nat \<Rightarrow> bool) \<Rightarrow> string \<Rightarrow> highlight_span_array \<Rightarrow> string_span \<Rightarrow> field \<Rightarrow> highlight_span_array option" where
  "highlight_value realloc cfg ret s section =
     (case section of
        PrivateKey \<Rightarrow> highlight_checked realloc ret s (is_valid_key cfg s) HighlightPrivateKey
      | PublicKey \<Rightarrow> highlight_checked realloc ret s (is_valid_key cfg s) HighlightPublicKey
      | PresharedKey \<Rightarrow> highlight_checked realloc ret s (is_valid_key cfg s) HighlightPresharedKey
      | MTU \<Rightarrow> highlight_checked realloc ret s (is_valid_mtu cfg s) HighlightMTU
      | SaveConfig \<Rightarrow> highlight_checked realloc ret s (is_valid_saveconfig cfg s) HighlightSaveConfig
      | FwMark \<Rightarrow> highlight_checked realloc ret s (is_valid_fwmark cfg s) HighlightFwMark
      | Table \<Rightarrow> highlight_checked realloc ret s (is_valid_table cfg s) HighlightTable
      | PreUp \<Rightarrow> highlight_checked realloc ret s (is_valid_prepostupdown cfg s) HighlightCmd
      | PostUp \<Rightarrow> highlight_checked realloc ret s (is_valid_prepostupdown cfg s) HighlightCmd
      | PreDown \<Rightarrow> highlight_checked realloc ret s (is_valid_prepostupdown cfg s) HighlightCmd
      | PostDown \<Rightarrow> highlight_checked realloc ret s (is_valid_prepostupdown cfg s) HighlightCmd
      | ListenPort \<Rightarrow> highlight_checked realloc ret s (is_valid_port cfg s) HighlightPort
      | PersistentKeepalive \<Rightarrow> highlight_checked realloc ret s (is_valid_persistentkeepalive cfg s) HighlightKeepalive
      | Endpoint \<Rightarrow> highlight_endpoint realloc cfg ret s
      | Address \<Rightarrow> highlight_multivalue realloc cfg ret s section
      | DNS \<Rightarrow> highlight_multivalue realloc cfg ret s section
      | AllowedIPs \<Rightarrow> highlight_multivalue realloc cfg ret s section
      | _ \<Rightarrow> append_highlight_span realloc ret s HighlightError)"

subsection \<open>The configuration\<close>

datatype highlight_state = OnNone | OnKey | OnValue | OnComment | OnSection

record highlighter =
  hl_ret :: highlight_span_array
  hl_span :: string_span
  hl_section :: field
  hl_field :: field
  hl_state :: highlight_state
  hl_last_space :: nat
  hl_equals :: nat

text \<open>What the end of a line, of the text or the start of a comment does to what came before it.\<close>

definition highlight_flush :: "(nat \<Rightarrow> bool) \<Rightarrow> string \<Rightarrow> highlighter \<Rightarrow> highlighter option" where
  "highlight_flush realloc cfg h =
     (let trimmed = (hl_span h)\<lparr>sp_len := hl_last_space h\<rparr>; equals = \<lparr>sp_s = hl_equals h, sp_len = 1\<rparr> in
      case hl_state h of
        OnKey \<Rightarrow> do {
          ret \<leftarrow> append_highlight_span realloc (hl_ret h) trimmed HighlightError;
          Some (h\<lparr>hl_span := trimmed, hl_ret := ret\<rparr>) }
      | OnValue \<Rightarrow>
          if sp_len (hl_span h) \<noteq> 0 then do {
            ret \<leftarrow> append_highlight_span realloc (hl_ret h) equals HighlightDelimiter;
            ret \<leftarrow> highlight_value realloc cfg ret trimmed (hl_field h);
            Some (h\<lparr>hl_span := trimmed, hl_ret := ret\<rparr>) }
          else do {
            ret \<leftarrow> append_highlight_span realloc (hl_ret h) equals HighlightError;
            Some (h\<lparr>hl_ret := ret\<rparr>) }
      | OnSection \<Rightarrow> do {
          section \<leftarrow> get_sectiontype cfg trimmed;
          ret \<leftarrow> append_highlight_span realloc (hl_ret h) trimmed
                    (if section = Invalid then HighlightError else HighlightSection);
          Some (h\<lparr>hl_span := trimmed, hl_section := section, hl_ret := ret\<rparr>) }
      | OnComment \<Rightarrow> do {
          ret \<leftarrow> append_highlight_span realloc (hl_ret h) (hl_span h) HighlightComment;
          Some (h\<lparr>hl_ret := ret\<rparr>) }
      | OnNone \<Rightarrow> Some h)"

definition highlight_step :: "(nat \<Rightarrow> bool) \<Rightarrow> string \<Rightarrow> nat \<Rightarrow> char \<Rightarrow> highlighter \<Rightarrow> highlighter option" where
  "highlight_step realloc cfg i c h =
     (if c = newline \<or> (hl_state h \<noteq> OnComment \<and> c = CHR ''#'') then do {
        h \<leftarrow> highlight_flush realloc cfg h;
        Some (if c = CHR ''#''
          then h\<lparr>hl_last_space := 0, hl_field := Invalid, hl_span := \<lparr>sp_s = i, sp_len = 1\<rparr>, hl_state := OnComment\<rparr>
          else h\<lparr>hl_last_space := 0, hl_field := Invalid, hl_span := \<lparr>sp_s = i + 1, sp_len = 0\<rparr>, hl_state := OnNone\<rparr>) }
      else if hl_state h = OnComment then
        Some (h\<lparr>hl_span := (hl_span h)\<lparr>sp_len := Suc (sp_len (hl_span h))\<rparr>\<rparr>)
      else if c = CHR '' '' \<or> c = CHR 0x09 then
        Some (h\<lparr>hl_span := (if i = sp_s (hl_span h) \<and> sp_len (hl_span h) = 0 then (hl_span h)\<lparr>sp_s := Suc (sp_s (hl_span h))\<rparr>
                 else (hl_span h)\<lparr>sp_len := Suc (sp_len (hl_span h))\<rparr>)\<rparr>)
      else if c = CHR ''='' \<and> hl_state h = OnKey then
        let key = (hl_span h)\<lparr>sp_len := hl_last_space h\<rparr> in do {
          field \<leftarrow> get_field cfg key;
          ret \<leftarrow> append_highlight_span realloc (hl_ret h) key
                   (let section = section_for_field field in
                    if section = Invalid \<or> field = Invalid \<or> section \<noteq> hl_section h then HighlightError else HighlightField);
          Some (h\<lparr>hl_ret := ret, hl_field := field, hl_equals := i, hl_span := \<lparr>sp_s = i + 1, sp_len = 0\<rparr>,
                  hl_state := OnValue\<rparr>) }
      else
        Some (h\<lparr>hl_state := (if hl_state h = OnNone then if c = CHR ''['' then OnSection else OnKey else hl_state h),
                hl_span := (hl_span h)\<lparr>sp_len := Suc (sp_len (hl_span h))\<rparr>,
                hl_last_space := Suc (sp_len (hl_span h))\<rparr>))"

function highlight_loop :: "(nat \<Rightarrow> bool) \<Rightarrow> string \<Rightarrow> nat \<Rightarrow> highlighter \<Rightarrow> highlighter option" where
  "highlight_loop realloc cfg i h =
     (if i < length cfg then do {
        h \<leftarrow> highlight_step realloc cfg i (cfg ! i) h;
        highlight_loop realloc cfg (Suc i) h }
      else highlight_flush realloc cfg h)"
  by pat_completeness auto
termination by (relation "measure (\<lambda>(_, cfg, i, _). length cfg - i)") auto

definition highlight_config :: "(nat \<Rightarrow> bool) \<Rightarrow> string \<Rightarrow> highlight_span list option" where
  "highlight_config realloc cfg = do {
     h \<leftarrow> highlight_loop realloc cfg 0
       \<lparr>hl_ret = empty_spans, hl_span = \<lparr>sp_s = 0, sp_len = 0\<rparr>, hl_section = Invalid, hl_field = Invalid,
        hl_state = OnNone, hl_last_space = 0, hl_equals = 0\<rparr>;
     ret \<leftarrow> append_highlight_span realloc (hl_ret h) \<lparr>sp_s = 0, sp_len = SIZE_MAX\<rparr> HighlightEnd;
     Some (spans ret) }"

end
