(* ===== verification/Wg_Highlighter_Spec.thy ===== *)
theory Wg_Highlighter_Spec
  imports Wg_Highlighter Wg_Libc
begin

text \<open>
  What the validators of the highlighter compute, as statements about the text of their span: keys against
  the base64 decoder, numbers by their value, host names, dotted quads and the textual grammar of IPv6
  addresses. Each lemma also says that the validator reads nothing beyond the terminator of the text.
\<close>

declare hostname_loop.simps [simp del] ipv4_loop.simps [simp del] ipv6_loop.simps [simp del] bracket_loop.simps [simp del]
  colon_loop.simps [simp del] network_loop.simps [simp del] find_slash.simps [simp del] multivalue_loop.simps [simp del]
  highlight_loop.simps [simp del]

subsection \<open>Reading characters of a span\<close>

definition span_ok :: "string \<Rightarrow> string_span \<Rightarrow> bool" where
  "span_ok cfg s = (sp_s s + sp_len s \<le> length cfg)"

definition span_text :: "string \<Rightarrow> string_span \<Rightarrow> string" where
  "span_text cfg s = take (sp_len s) (drop (sp_s s) cfg)"

lemma length_span_text [simp]: "span_ok cfg s \<Longrightarrow> length (span_text cfg s) = sp_len s"
  by (simp add: span_ok_def span_text_def)

lemma span_text_nth: "span_ok cfg s \<Longrightarrow> i < sp_len s \<Longrightarrow> span_text cfg s ! i = cfg ! (sp_s s + i)"
  by (simp add: span_ok_def span_text_def)

lemma char_at_text: "span_ok cfg s \<Longrightarrow> i < sp_len s \<Longrightarrow> char_at cfg (sp_s s + i) = Some (span_text cfg s ! i)"
  by (simp add: span_text_nth) (simp add: char_at_def span_ok_def)

lemma char_at_ok: "i \<le> length cfg \<Longrightarrow> \<exists>c. char_at cfg i = Some c"
  by (simp add: char_at_def)

lemma take_Suc_drop: "i < length cfg \<Longrightarrow> take (Suc n) (drop i cfg) = cfg ! i # take n (drop (Suc i) cfg)"
  by (simp add: Cons_nth_drop_Suc [symmetric])

lemma all_chars_text: "i + n \<le> length cfg \<Longrightarrow> all_chars cfg P i n = Some (list_all P (take n (drop i cfg)))"
  by (induction n arbitrary: i) (simp_all add: char_at_def take_Suc_drop)

lemma same_chars_text:
  "i + length c \<le> length cfg \<Longrightarrow> same_chars cfg f i c = Some (map f (take (length c) (drop i cfg)) = map f c)"
  by (induction c arbitrary: i) (auto simp: char_at_def take_Suc_drop)

lemma is_same_text: "span_ok cfg s \<Longrightarrow> is_same cfg s c = Some (span_text cfg s = c)"
  by (auto simp: is_same_def same_chars_text span_ok_def span_text_def)

lemma is_caseless_same_text: "span_ok cfg s \<Longrightarrow> is_caseless_same cfg s c = Some (map to_upper (span_text cfg s) = map to_upper c)"
proof -
  assume s: "span_ok cfg s"
  show ?thesis
  proof (cases "length c = sp_len s")
    case False
    then have "map to_upper (span_text cfg s) \<noteq> map to_upper c" using length_span_text [OF s] by (metis length_map)
    then show ?thesis using False by (simp add: is_caseless_same_def)
  qed (use s in \<open>simp add: is_caseless_same_def same_chars_text span_ok_def span_text_def\<close>)
qed

lemma char_int_bounds: "- 128 \<le> char_int c" "char_int c \<le> 255"
  using of_char_nat_less [of c] by linarith+

lemma is_decimal_digit: "is_decimal c = is_digit_in 10 c"
  by (simp only: is_decimal_def is_digit_in_10)

lemma char_tests_table:
  "list_all (\<lambda>n. (97 \<le> n OR 32 \<and> n OR 32 \<le> 122 \<longleftrightarrow> (65 \<le> n \<and> n \<le> 90) \<or> (97 \<le> n \<and> n \<le> 122)) \<and>
     (97 \<le> n OR 32 \<and> n OR 32 \<le> 102 \<longleftrightarrow> (65 \<le> n \<and> n \<le> 70) \<or> (97 \<le> n \<and> n \<le> 102)) \<and>
     ((65 \<le> n \<and> n \<le> 70) \<or> (97 \<le> n \<and> n \<le> 102) \<longrightarrow> n OR 32 = (if n \<le> 70 then n + 32 else n))) [-128..255::int]"
  by code_simp

lemma char_tests:
  assumes "- 128 \<le> n" "n \<le> 255"
  shows "97 \<le> n OR 32 \<and> n OR 32 \<le> 122 \<longleftrightarrow> (65 \<le> n \<and> n \<le> 90) \<or> (97 \<le> n \<and> n \<le> (122::int))"
    "97 \<le> n OR 32 \<and> n OR 32 \<le> 102 \<longleftrightarrow> (65 \<le> n \<and> n \<le> 70) \<or> (97 \<le> n \<and> n \<le> 102)"
    "(65 \<le> n \<and> n \<le> 70) \<or> (97 \<le> n \<and> n \<le> 102) \<Longrightarrow> n OR 32 = (if n \<le> 70 then n + 32 else n)"
  using forall_upto [OF char_tests_table assms] by blast+

text \<open>The tests give the same answers whether \<open>char\<close> is signed or not.\<close>

lemma char_tests_signedness:
  "is_decimal c \<longleftrightarrow> 48 \<le> plain_char sc c \<and> plain_char sc c \<le> 57"
  "is_alphabet c \<longleftrightarrow> 97 \<le> plain_char sc c OR 32 \<and> plain_char sc c OR 32 \<le> 122"
  "is_hexadecimal c \<longleftrightarrow> (48 \<le> plain_char sc c \<and> plain_char sc c \<le> 57) \<or>
     (97 \<le> plain_char sc c OR 32 \<and> plain_char sc c OR 32 \<le> 102)"
proof -
  have r: "- 128 \<le> plain_char sc c" "plain_char sc c \<le> 255" "- 128 \<le> char_int c" "char_int c \<le> 255"
    using plain_char_range [of sc c] char_int_bounds [of c] by simp_all
  have b: "lo \<le> plain_char sc c \<and> plain_char sc c \<le> hi \<longleftrightarrow> lo \<le> char_int c \<and> char_int c \<le> hi" if "0 \<le> lo" "hi < 128" for lo hi
    using that r(4) by (auto simp: plain_char_def)
  show "is_decimal c \<longleftrightarrow> 48 \<le> plain_char sc c \<and> plain_char sc c \<le> 57"
    "is_alphabet c \<longleftrightarrow> 97 \<le> plain_char sc c OR 32 \<and> plain_char sc c OR 32 \<le> 122"
    "is_hexadecimal c \<longleftrightarrow> (48 \<le> plain_char sc c \<and> plain_char sc c \<le> 57) \<or>
     (97 \<le> plain_char sc c OR 32 \<and> plain_char sc c OR 32 \<le> 102)"
    unfolding is_decimal_def is_alphabet_def is_hexadecimal_def char_tests [OF r(1,2)] char_tests [OF r(3,4)] using b by simp_all
qed

lemma is_hexadecimal_digit: "is_hexadecimal c = is_digit_in 16 c"
proof -
  show ?thesis unfolding is_hexadecimal_def is_decimal_def char_tests(2) [OF char_int_bounds]
    by (auto simp: is_digit_in_def digit_value_def Let_def)
qed

subsection \<open>Keys\<close>

lemma key_char_table:
  "list_all (\<lambda>n. ((48 \<le> n \<and> n \<le> 57) \<or> (65 \<le> n \<and> n \<le> 90) \<or> (97 \<le> n \<and> n \<le> 122) \<or> n = 47 \<or> n = 43 \<longleftrightarrow>
      0 \<le> base64_value (if 128 \<le> n then n - 256 else n)) \<and>
     (n \<in> {65, 69, 73, 77, 81, 85, 89, 99, 103, 107, 111, 115, 119, 52, 56, 48} \<longleftrightarrow>
      0 \<le> base64_value (if 128 \<le> n then n - 256 else n) \<and> base64_value (if 128 \<le> n then n - 256 else n) mod 4 = 0)) [0..255::int]"
  by code_simp

lemma char_eq_int: "c = d \<longleftrightarrow> char_int c = char_int d"
  by simp

lemma key_char:
  "is_decimal c \<or> is_alphabet c \<or> c = CHR ''/'' \<or> c = CHR ''+'' \<longleftrightarrow> 0 \<le> b64 True c"
  "c \<in> set ''AEIMQUYcgkosw480'' \<longleftrightarrow> 0 \<le> b64 True c \<and> b64 True c mod 4 = 0"
proof -
  note t = forall_upto [OF key_char_table, of "char_int c"]
  have b: "b64 True c = base64_value (if 128 \<le> char_int c then char_int c - 256 else char_int c)"
    by (simp add: b64_def plain_char_def)
  show "is_decimal c \<or> is_alphabet c \<or> c = CHR ''/'' \<or> c = CHR ''+'' \<longleftrightarrow> 0 \<le> b64 True c"
    unfolding b is_decimal_def is_alphabet_def char_tests(1) [OF char_int_bounds] char_eq_int [of c] using t char_int_bounds [of c] by simp
  have "c \<in> set ''AEIMQUYcgkosw480'' \<longleftrightarrow> char_int c \<in> {65, 69, 73, 77, 81, 85, 89, 99, 103, 107, 111, 115, 119, 52, 56, 48}"
    unfolding list.set insert_iff char_eq_int [of c] by simp
  then show "c \<in> set ''AEIMQUYcgkosw480'' \<longleftrightarrow> 0 \<le> b64 True c \<and> b64 True c mod 4 = 0"
    unfolding b using t char_int_bounds [of c] by simp
qed

lemma base64_ok_last:
  "base64_ok sc s \<longleftrightarrow> length s = 44 \<and> s ! 43 = CHR ''='' \<and> (\<forall>i<42. 0 \<le> b64 sc (s ! i)) \<and> 0 \<le> b64 sc (s ! 42) \<and> b64 sc (s ! 42) mod 4 = 0"
proof -
  have 1: "low_byte (decode_base64 sc (s ! 40) (s ! 41) (s ! 42) (CHR ''A'')) = 0 \<longleftrightarrow> b64 sc (s ! 42) mod 4 = 0"
    if "\<forall>i<43. 0 \<le> b64 sc (s ! i)"
  proof -
    from that have "0 \<le> b64 sc (s ! 40)" "0 \<le> b64 sc (s ! 41)" "0 \<le> b64 sc (s ! 42)" by simp_all
    then have "decode_base64 sc (s ! 40) (s ! 41) (s ! 42) (CHR ''A'') = (b64 sc (s ! 40) * 64 + b64 sc (s ! 41)) * 4096 + b64 sc (s ! 42) * 64"
      by (simp add: decode_base64_nonneg b64_A)
    then have "low_byte (decode_base64 sc (s ! 40) (s ! 41) (s ! 42) (CHR ''A'')) = 0 \<longleftrightarrow>
        ((b64 sc (s ! 40) * 64 + b64 sc (s ! 41)) * 4096 + b64 sc (s ! 42) * 64) mod 256 = 0"
      by (metis uint_low_byte uint_0_eq word_uint_eq_iff)
    also have "((b64 sc (s ! 40) * 64 + b64 sc (s ! 41)) * 4096 + b64 sc (s ! 42) * 64) mod 256 = b64 sc (s ! 42) mod 4 * 64"
      using mod_mult_self1 [of "b64 sc (s ! 42) * 64" "(b64 sc (s ! 40) * 64 + b64 sc (s ! 41)) * 16" 256]
        mult_mod_left [of "b64 sc (s ! 42)" 4 64] by (simp add: algebra_simps)
    finally show ?thesis by simp
  qed
  have 2: "(\<forall>i<43. 0 \<le> b64 sc (s ! i)) \<longleftrightarrow> (\<forall>i<42. 0 \<le> b64 sc (s ! i)) \<and> 0 \<le> b64 sc (s ! 42)"
    by (metis less_antisym less_Suc_eq numeral_nat(2) eval_nat_numeral(3) semiring_norm(26,27,28))
  show ?thesis
  proof (cases "\<forall>i<43. 0 \<le> b64 sc (s ! i)")
    case True
    show ?thesis unfolding base64_ok_def 1 [OF True] 2 by blast
  next
    case False
    then show ?thesis unfolding base64_ok_def using 2 by blast
  qed
qed

lemma is_valid_key_text:
  assumes "span_ok cfg s"
  shows "is_valid_key cfg s = Some (base64_ok True (span_text cfg s))"
proof (cases "sp_len s = 44")
  case True
  let ?t = "span_text cfg s"
  have c: "char_at cfg (sp_s s + 43) = Some (?t ! 43)" "char_at cfg (sp_s s + 42) = Some (?t ! 42)"
    using True char_at_text [OF assms] by simp_all
  have "take 42 (drop (sp_s s) cfg) = take 42 ?t" using True by (simp add: span_text_def)
  then have "all_chars cfg P (sp_s s) 42 = Some (\<forall>i<42. P (?t ! i))" for P
    using all_chars_text [of "sp_s s" 42 cfg P] True assms by (simp add: span_ok_def list_all_length span_text_def)
  then show ?thesis
    using True length_span_text [OF assms] unfolding is_valid_key_def base64_ok_last key_char by (simp add: c)
qed (use length_span_text [OF assms] in \<open>simp add: is_valid_key_def base64_ok_def\<close>)

subsection \<open>Numbers\<close>

lemma digit_step: "is_digit_in 10 c \<Longrightarrow> nat (char_int c - 48) = the (digit_value c)"
  by (auto simp: is_digit_in_def digit_value_def Let_def split: if_splits)

lemma foldl_digits: "foldl (\<lambda>n c. n * b + the (digit_value c)) v t = v * b ^ length t + digits_value b t"
proof (induction t rule: rev_induct)
  case (snoc c t)
  then show ?case by (simp add: digits_value_append algebra_simps)
qed (simp add: digits_value_def)

lemma uint_dec_text:
  "i + n \<le> length cfg \<Longrightarrow> uint_dec cfg i n v =
    Some (if list_all (is_digit_in 10) (take n (drop i cfg)) then Some (v * 10 ^ n + digits_value 10 (take n (drop i cfg))) else None)"
proof (induction n arbitrary: i v)
  case (Suc n)
  then have len: "length (take n (drop (Suc i) cfg)) = n" by simp
  from Suc.prems have "uint_dec cfg i (Suc n) v =
     (if is_digit_in 10 (cfg ! i) then uint_dec cfg (Suc i) n (v * 10 + the (digit_value (cfg ! i))) else Some None)"
    by (simp add: char_at_def is_decimal_digit digit_step mult.commute)
  then show ?case
    using Suc.IH [of "Suc i"] Suc.prems foldl_digits [of 10 "the (digit_value (cfg ! i))" "take n (drop (Suc i) cfg)"] len
    by (simp add: take_Suc_drop) (simp add: digits_value_def algebra_simps)
qed (simp add: digits_value_def)

lemma hex_digit_cases:
  assumes "\<not> (48 \<le> char_int c \<and> char_int c - 48 < 10)"
  shows "97 \<le> char_int c OR 32 \<and> (char_int c OR 32) - 97 < 6 \<longleftrightarrow> is_digit_in 16 c"
    "is_digit_in 16 c \<Longrightarrow> nat (char_int c OR 32) - 97 + 10 = the (digit_value c) \<and> 97 \<le> nat (char_int c OR 32)"
proof -
  have 1: "97 \<le> char_int c OR 32 \<and> (char_int c OR 32) - 97 < 6 \<longleftrightarrow> (65 \<le> char_int c \<and> char_int c \<le> 70) \<or> (97 \<le> char_int c \<and> char_int c \<le> 102)"
    using char_tests(2) [OF char_int_bounds, of c] by auto
  have 2: "is_digit_in 16 c \<longleftrightarrow> (65 \<le> char_int c \<and> char_int c \<le> 70) \<or> (97 \<le> char_int c \<and> char_int c \<le> 102)"
    using assms by (auto simp: is_digit_in_def digit_value_def Let_def)
  show "97 \<le> char_int c OR 32 \<and> (char_int c OR 32) - 97 < 6 \<longleftrightarrow> is_digit_in 16 c" unfolding 1 2 ..
  assume "is_digit_in 16 c"
  then have "(65 \<le> char_int c \<and> char_int c \<le> 70) \<or> (97 \<le> char_int c \<and> char_int c \<le> 102)" by (simp only: 2)
  moreover from this have "char_int c OR 32 = (if char_int c \<le> 70 then char_int c + 32 else char_int c)"
    by (rule char_tests(3) [OF char_int_bounds])
  ultimately show "nat (char_int c OR 32) - 97 + 10 = the (digit_value c) \<and> 97 \<le> nat (char_int c OR 32)"
    by (auto simp: digit_value_def Let_def)
qed

lemma uint_hex_text:
  "i + n \<le> length cfg \<Longrightarrow> uint_hex cfg i n v =
    Some (if list_all (is_digit_in 16) (take n (drop i cfg)) then Some (v * 16 ^ n + digits_value 16 (take n (drop i cfg))) else None)"
proof (induction n arbitrary: i v)
  case (Suc n)
  then have len: "length (take n (drop (Suc i) cfg)) = n" by simp
  let ?c = "cfg ! i"
  have "(if 48 \<le> char_int ?c \<and> char_int ?c - 48 < 10 then uint_hex cfg (Suc i) n (16 * v + nat (char_int ?c - 48))
     else if 97 \<le> char_int ?c OR 32 \<and> (char_int ?c OR 32) - 97 < 6
       then uint_hex cfg (Suc i) n (16 * v + nat (char_int ?c OR 32) - 97 + 10) else Some None) =
     (if is_digit_in 16 ?c then uint_hex cfg (Suc i) n (v * 16 + the (digit_value ?c)) else Some None)"
  proof (cases "48 \<le> char_int ?c \<and> char_int ?c - 48 < 10")
    case True
    then have "is_digit_in 10 ?c" unfolding is_digit_in_10 by linarith
    then show ?thesis using True digit_10_in_16 digit_step by (simp add: mult.commute)
  next
    case False
    show ?thesis
    proof (cases "is_digit_in 16 ?c")
      case True
      note 1 = hex_digit_cases(1) [OF False] hex_digit_cases(2) [OF False True]
      have "16 * v + nat (char_int ?c OR 32) - 97 + 10 = v * 16 + the (digit_value ?c)"
        using 1(2) by linarith
      then show ?thesis using False True 1(1) by (simp only: if_True if_False)
    next
      case nd: False
      then show ?thesis using False hex_digit_cases(1) [OF False] by (simp only: if_False)
    qed
  qed
  then have "uint_hex cfg i (Suc n) v =
     (if is_digit_in 16 ?c then uint_hex cfg (Suc i) n (v * 16 + the (digit_value ?c)) else Some None)"
    using Suc.prems by (simp only: uint_hex.simps) (simp add: char_at_def)
  then show ?case
    using Suc.IH [of "Suc i"] Suc.prems foldl_digits [of 16 "the (digit_value (cfg ! i))" "take n (drop (Suc i) cfg)"] len
    by (simp add: take_Suc_drop) (simp add: digits_value_def algebra_simps)
qed (simp add: digits_value_def)

definition uint_value :: "bool \<Rightarrow> string \<Rightarrow> nat option" where
  "uint_value hex t =
     (if hex \<and> take 2 t = ''0x'' \<and> length t > 2 then (if is_number 16 (drop 2 t) then Some (digits_value 16 (drop 2 t)) else None)
      else if is_number 10 t then Some (digits_value 10 t) else None)"

lemma take_2_eq: "2 \<le> length t \<Longrightarrow> take 2 t = [a, b] \<longleftrightarrow> t ! 0 = a \<and> t ! 1 = b"
  by (cases t; cases "tl t") auto

lemma is_valid_uint_text:
  assumes "span_ok cfg s"
  defines "t \<equiv> span_text cfg s"
  shows "is_valid_uint cfg s hex lo hi = Some (length t \<le> 10 \<and> (case uint_value hex t of None \<Rightarrow> False | Some v \<Rightarrow> lo \<le> v \<and> v \<le> hi))"
proof (cases "sp_len s > 10 \<or> sp_len s = 0")
  case True
  have "length t = sp_len s" using assms by simp
  then show ?thesis using True by (auto simp: is_valid_uint_def uint_value_def is_number_def)
next
  case False
  have len: "length t = sp_len s" using assms by simp
  have ok: "sp_s s + sp_len s \<le> length cfg" using assms(1) by (simp add: span_ok_def)
  have hex: "(if hex \<and> sp_len s > 2 then do { a \<leftarrow> char_at cfg (sp_s s); b \<leftarrow> char_at cfg (sp_s s + 1); Some (a = CHR ''0'' \<and> b = CHR ''x'') }
      else Some False) = Some (hex \<and> take 2 t = ''0x'' \<and> length t > 2)"
    using char_at_text [OF assms(1), of 0] char_at_text [OF assms(1), of 1] len by (auto simp: t_def take_2_eq)
  have h: "uint_hex cfg (sp_s s + 2) (sp_len s - 2) 0 = Some (if list_all (is_digit_in 16) (drop 2 t) then Some (digits_value 16 (drop 2 t)) else None)"
    if "length t > 2"
    using that ok len by (simp add: uint_hex_text t_def span_text_def drop_take add.commute)
  have d: "uint_dec cfg (sp_s s) (sp_len s) 0 = Some (if list_all (is_digit_in 10) t then Some (digits_value 10 t) else None)"
    using ok by (simp add: uint_dec_text t_def span_text_def)
  show ?thesis
    using False len unfolding is_valid_uint_def hex Option.bind.simps
    by (cases "hex \<and> take 2 t = ''0x'' \<and> length t > 2") (auto simp: h [unfolded add_2_eq_Suc'] d uint_value_def is_number_def)
qed

lemma digits_value_bound: "list_all (is_digit_in b) t \<Longrightarrow> digits_value b t < b ^ length t"
proof (induction t rule: rev_induct)
  case (snoc c t)
  then have "the (digit_value c) < b" "digits_value b t + 1 \<le> b ^ length t" by (auto simp: is_digit_in_def split: option.splits)
  then have "digits_value b t * b + the (digit_value c) < (digits_value b t + 1) * b" by simp
  also have "\<dots> \<le> b ^ length t * b" using \<open>digits_value b t + 1 \<le> b ^ length t\<close> by (rule mult_le_mono1)
  finally show ?case by (simp add: digits_value_append mult.commute)
qed (simp add: digits_value_def)

text \<open>Ten characters never overflow the 64 bits of \<open>val\<close>.\<close>

lemma uint_value_bound:
  assumes "length t \<le> 10" "uint_value hex t = Some v"
  shows "v < 2 ^ 64"
proof -
  have "\<exists>b u. (b = 10 \<or> b = 16) \<and> length u \<le> 10 \<and> list_all (is_digit_in b) u \<and> v = digits_value b u"
  proof (cases "hex \<and> take 2 t = ''0x'' \<and> length t > 2")
    case True
    then show ?thesis using assms by (intro exI [of _ 16] exI [of _ "drop 2 t"]) (auto simp: uint_value_def is_number_def split: if_splits)
  next
    case False
    then show ?thesis using assms by (intro exI [of _ 10] exI [of _ t]) (auto simp: uint_value_def is_number_def split: if_splits)
  qed
  then obtain b u where u: "b = 10 \<or> b = 16" "length u \<le> 10" "list_all (is_digit_in b) u" "v = digits_value b u" by blast
  have v: "v < b ^ length u" using digits_value_bound [OF u(3)] u(4) by simp
  have "b ^ length u \<le> 16 ^ 10" using u(1,2) power_increasing [of "length u" 10 "16::nat"] power_mono [of b 16 "length u"] by (auto intro: order_trans)
  also have "\<dots> < (2::nat) ^ 64" by simp
  finally show ?thesis using v by simp
qed

subsection \<open>Host names\<close>

definition host_char :: "char \<Rightarrow> bool" where
  "host_char c = (is_decimal c \<or> c = CHR ''.'' \<or> is_alphabet c \<or> c = CHR ''-'')"

lemma drop_nth_Cons: "i < length t \<Longrightarrow> drop i t = t ! i # drop (Suc i) t"
  by (simp add: Cons_nth_drop_Suc)

lemma hostname_loop_text:
  assumes "span_ok cfg s"
  defines "t \<equiv> span_text cfg s"
  shows "i \<le> length t \<Longrightarrow> length (filter (\<lambda>c. c = CHR ''.'') (drop i t)) \<le> ne \<Longrightarrow>
    hostname_loop cfg s i nd ne = Some (list_all host_char (drop i t) \<and>
      nd + length (filter is_decimal (drop i t)) \<noteq> ne - length (filter (\<lambda>c. c = CHR ''.'') (drop i t)))"
proof (induction "length t - i" arbitrary: i nd ne)
  case 0
  then show ?case using length_span_text [OF assms(1)] by (subst hostname_loop.simps) (simp add: t_def)
next
  case (Suc k)
  then have i: "i < length t" "k = length t - Suc i" by simp_all
  have len: "length t = sp_len s" using assms by simp
  have c: "char_at cfg (sp_s s + i) = Some (t ! i)" using i len char_at_text [OF assms(1)] by (simp add: t_def)
  have dot: "\<not> is_decimal (CHR ''.'')" "\<not> is_decimal (CHR ''-'')" by code_simp+
  note IH = Suc.hyps(1) [OF i(2)]
  have d: "drop i t = t ! i # drop (Suc i) t" using i(1) by (rule drop_nth_Cons)
  have i': "i < sp_len s" "Suc i \<le> length t" using i len by simp_all
  note step = hostname_loop.simps [of cfg s i nd ne, unfolded c Option.bind.simps if_P [OF i'(1)]]
  consider "is_decimal (t ! i)" | "\<not> is_decimal (t ! i)" "t ! i = CHR ''.''" | "\<not> is_decimal (t ! i)" "t ! i \<noteq> CHR ''.''"
    by blast
  then show ?case
  proof cases
    case 1
    then have "t ! i \<noteq> CHR ''.''" using dot by metis
    then show ?thesis unfolding step d using 1 IH [of ne "Suc nd", OF i'(2)] Suc.prems(2) by (simp add: d host_char_def)
  next
    case 2
    then show ?thesis unfolding step d using IH [of "ne - 1" nd, OF i'(2)] Suc.prems(2) by (simp add: d host_char_def)
  next
    case 3
    then show ?thesis unfolding step d using IH [of ne nd, OF i'(2)] Suc.prems(2) by (auto simp: d host_char_def)
  qed
qed

lemma filter_split3:
  assumes "\<And>c. \<not> (P c \<and> Q c)"
  shows "length t = length (filter P t) + length (filter Q t) + length (filter (\<lambda>c. \<not> P c \<and> \<not> Q c) t)"
  using assms by (induction t) auto

lemma is_valid_hostname_text:
  assumes "span_ok cfg s"
  defines "t \<equiv> span_text cfg s"
  shows "is_valid_hostname cfg s = Some (t \<noteq> [] \<and> length t \<le> 63 \<and> hd t \<notin> {CHR ''-'', CHR ''.''} \<and> last t \<notin> {CHR ''-'', CHR ''.''} \<and>
    list_all host_char t \<and> (\<exists>c\<in>set t. is_alphabet c \<or> c = CHR ''-''))"
proof (cases "sp_len s > 63 \<or> sp_len s = 0")
  case True
  have "length t = sp_len s" using assms by simp
  then show ?thesis using True by (auto simp: is_valid_hostname_def)
next
  case False
  have len: "length t = sp_len s" using assms by simp
  with False have ne: "t \<noteq> []" by auto
  have a: "char_at cfg (sp_s s) = Some (hd t)" using char_at_text [OF assms(1), of 0] False ne by (simp add: t_def hd_conv_nth)
  have z: "char_at cfg (sp_s s + sp_len s - 1) = Some (last t)"
    using char_at_text [OF assms(1), of "sp_len s - 1"] False ne len by (simp add: t_def last_conv_nth)
  let ?d = "length (filter is_decimal t)" and ?p = "length (filter (\<lambda>c. c = CHR ''.'') t)"
  have "hostname_loop cfg s 0 0 (sp_len s) = Some (list_all host_char t \<and> ?d \<noteq> sp_len s - ?p)"
    using hostname_loop_text [OF assms(1), of 0 "sp_len s" 0] len length_filter_le [of "\<lambda>c. c = CHR ''.''" t] by (simp add: t_def)
  moreover have "?d \<noteq> sp_len s - ?p \<longleftrightarrow> (\<exists>c\<in>set t. is_alphabet c \<or> c = CHR ''-'')" if "list_all host_char t"
  proof -
    have "\<not> (is_decimal c \<and> c = CHR ''.'')" for c by (auto simp: is_decimal_def)
    then have "length t = ?d + ?p + length (filter (\<lambda>c. \<not> is_decimal c \<and> c \<noteq> CHR ''.'') t)" by (rule filter_split3)
    then have "?d \<noteq> sp_len s - ?p \<longleftrightarrow> filter (\<lambda>c. \<not> is_decimal c \<and> c \<noteq> CHR ''.'') t \<noteq> []" using len by simp
    also have "\<dots> \<longleftrightarrow> (\<exists>c\<in>set t. \<not> is_decimal c \<and> c \<noteq> CHR ''.'')" by (auto simp: filter_empty_conv)
    also have "\<dots> \<longleftrightarrow> (\<exists>c\<in>set t. is_alphabet c \<or> c = CHR ''-'')"
    proof -
      have "\<not> is_decimal c \<and> c \<noteq> CHR ''.'' \<longleftrightarrow> is_alphabet c \<or> c = CHR ''-''" if "host_char c" for c
      proof -
        have "\<not> (is_decimal c \<and> is_alphabet c)" "\<not> is_alphabet (CHR ''.'')" "\<not> is_decimal (CHR ''-'')"
          unfolding is_decimal_def is_alphabet_def char_tests(1) [OF char_int_bounds] by auto
        then show ?thesis using that by (auto simp: host_char_def)
      qed
      then show ?thesis using that by (auto simp: list_all_iff)
    qed
    finally show ?thesis .
  qed
  ultimately show ?thesis using False ne len by (auto simp: is_valid_hostname_def a z [unfolded One_nat_def])
qed

subsection \<open>IPv4 addresses\<close>

lemma dec_string_digits:
  assumes "is_number 10 d" "length d > 1 \<longrightarrow> hd d \<noteq> CHR ''0''"
  shows "d = dec_string (digits_value 10 d)"
  using assms
proof (induction d rule: rev_induct)
  case (snoc c d)
  have c: "digit_value c = Some (the (digit_value c))" "the (digit_value c) < 10" "is_digit_in 10 c"
    using snoc.prems(1) by (auto simp: is_number_def is_digit_in_def split: option.splits)
  have dc: "digit_char (the (digit_value c)) = c"
    using c(2,3) by (auto simp: digit_char_def digit_value_def is_digit_in_10 Let_def) 
  show ?case
  proof (cases "d = []")
    case True
    then show ?thesis using c dc by (simp add: digits_value_def num_string.simps)
  next
    case False
    with snoc.prems have d: "is_number 10 d" "hd d \<noteq> CHR ''0''" by (auto simp: is_number_def hd_append)
    then have IH: "d = dec_string (digits_value 10 d)" by (intro snoc.IH) auto
    have "digits_value 10 d \<noteq> 0"
    proof
      assume "digits_value 10 d = 0"
      with IH have "d = [digit_char 0]" by (simp add: num_string.simps)
      moreover have "digit_char 0 = CHR ''0''" by code_simp
      ultimately show False using d(2) by simp
    qed
    then show ?thesis using IH c(2) dc
      by (subst num_string.simps) (simp add: digits_value_append)
  qed
qed (simp add: is_number_def)

lemma ipv4_digits_text:
  assumes "span_ok cfg s"
  defines "t \<equiv> span_text cfg s"
  defines "d \<equiv> \<lambda>k p. takeWhile (is_digit_in 10) (take k (drop p t))"
  shows "ipv4_digits cfg s pos k j v = Some (j + length (d k (pos + j)), v * 10 ^ length (d k (pos + j)) + digits_value 10 (d k (pos + j)))"
proof (induction k arbitrary: j v)
  case 0
  then show ?case by (simp add: d_def digits_value_def)
next
  case (Suc k)
  have len: "length t = sp_len s" using assms by simp
  show ?case
  proof (cases "pos + j < length t")
    case False
    then show ?thesis using len by (simp add: d_def digits_value_def)
  next
    case True
    then have c: "char_at cfg (sp_s s + pos + j) = Some (t ! (pos + j))"
      using char_at_text [OF assms(1), of "pos + j"] len by (simp add: t_def add.assoc)
    have d: "d (Suc k) (pos + j) = (if is_digit_in 10 (t ! (pos + j)) then t ! (pos + j) # d k (Suc (pos + j)) else [])"
      using True by (simp add: d_def drop_nth_Cons)
    let ?c = "the (digit_value (t ! (pos + j)))"
    have "digits_value 10 (x # xs) = the (digit_value x) * 10 ^ length xs + digits_value 10 xs" for x xs
      using foldl_digits [of 10 "the (digit_value x)" xs] by (simp add: digits_value_def)
    then show ?thesis
      using True len c d Suc.IH [of "Suc j"]
      by (simp add: is_decimal_digit digit_step) (simp add: digits_value_def algebra_simps)
  qed
qed

lemma digit_char_zero: "d < 36 \<Longrightarrow> digit_char d = CHR ''0'' \<longleftrightarrow> d = 0"
proof -
  have "digit_value (CHR ''0'') = Some 0" "digit_char 0 = CHR ''0''" by code_simp+
  then show "d < 36 \<Longrightarrow> digit_char d = CHR ''0'' \<longleftrightarrow> d = 0" using digit_value_digit_char by (metis option.inject)
qed

lemma dec_string_byte:
  assumes "n \<le> 255"
  shows "length (dec_string n) \<le> 3" "length (dec_string n) > 1 \<Longrightarrow> hd (dec_string n) \<noteq> CHR ''0''"
proof -
  have "length (dec_string n) \<le> 3 \<and> (length (dec_string n) > 1 \<longrightarrow> hd (dec_string n) \<noteq> CHR ''0'')"
  proof (cases "n < 10")
    case True
    then show ?thesis by (simp add: num_string.simps)
  next
    case 1: False
    show ?thesis
    proof (cases "n < 100")
      case True
      then have "dec_string n = [digit_char (n div 10), digit_char (n mod 10)]"
        using 1 num_string.simps [of 10 n] num_string.simps [of 10 "n div 10"] by simp
      then show ?thesis using 1 True by (simp add: digit_char_zero)
    next
      case False
      then have "n div 10 < 100" "\<not> n div 10 < 10" "n div 10 div 10 < 10" using assms by simp_all
      then have "dec_string n = [digit_char (n div 10 div 10), digit_char (n div 10 mod 10), digit_char (n mod 10)]"
        using 1 num_string.simps [of 10 n] num_string.simps [of 10 "n div 10"] num_string.simps [of 10 "n div 10 div 10"] by simp
      moreover have "n div 10 div 10 \<noteq> 0" using False by simp
      ultimately show ?thesis using \<open>n div 10 div 10 < 10\<close> digit_char_zero [of "n div 10 div 10"] by simp
    qed
  qed
  then show "length (dec_string n) \<le> 3" "length (dec_string n) > 1 \<Longrightarrow> hd (dec_string n) \<noteq> CHR ''0''" by auto
qed

lemma takeWhile_digits: "takeWhile (is_digit_in 10) (dec_string n @ u) = dec_string n @ takeWhile (is_digit_in 10) u"
  using num_string_set(1) [of n] by (auto intro: takeWhile_append2)

definition quad :: "nat \<Rightarrow> string \<Rightarrow> bool" where
  "quad k t = (\<exists>ns. length ns = k \<and> list_all (\<lambda>n. n \<le> 255) ns \<and> ns \<noteq> [] \<and> t = join ''.'' (map dec_string ns))"

lemma quad_Nil: "\<not> quad k []"
proof
  assume "quad k []"
  then obtain ns where "ns \<noteq> []" "[] = join ''.'' (map dec_string ns)" by (auto simp: quad_def)
  then obtain n ms where n: "ns = n # ms" "join ''.'' (map dec_string ns) = []" by (cases ns) auto
  then have "\<exists>u. join ''.'' (map dec_string ns) = dec_string n @ u" by (cases ms) auto
  with n(2) show False by auto
qed

lemma quad_1: "quad (Suc 0) t \<longleftrightarrow> (\<exists>n\<le>255. t = dec_string n)"
  by (auto simp: quad_def length_Suc_conv)

lemma quad_Suc: "k > 0 \<Longrightarrow> quad (Suc k) t \<longleftrightarrow> (\<exists>n u. n \<le> 255 \<and> quad k u \<and> t = dec_string n @ ''.'' @ u)"
proof
  assume k: "k > 0" and "quad (Suc k) t"
  then obtain n ns where ns: "length ns = k" "list_all (\<lambda>n. n \<le> 255) (n # ns)" "t = join ''.'' (map dec_string (n # ns))"
    unfolding quad_def by (auto simp: length_Suc_conv)
  with k obtain m ms where "ns = m # ms" by (cases ns) auto
  with ns have "t = dec_string n @ ''.'' @ join ''.'' (map dec_string ns)" "ns \<noteq> []" "n \<le> 255" "list_all (\<lambda>n. n \<le> 255) ns" by simp_all
  with ns(1) show "\<exists>n u. n \<le> 255 \<and> quad k u \<and> t = dec_string n @ ''.'' @ u" unfolding quad_def by blast
next
  assume "\<exists>n u. n \<le> 255 \<and> quad k u \<and> t = dec_string n @ ''.'' @ u"
  then obtain n ns where ns: "n \<le> 255" "length ns = k" "list_all (\<lambda>n. n \<le> 255) ns" "ns \<noteq> []"
    "t = dec_string n @ ''.'' @ join ''.'' (map dec_string ns)" unfolding quad_def by blast
  then show "quad (Suc k) t" unfolding quad_def by (intro exI [of _ "n # ns"]) (cases ns, auto)
qed

lemma takeWhile_part:
  assumes "n \<le> 255" "u = [] \<or> (\<exists>w. u = CHR ''.'' # w)"
  shows "takeWhile (is_digit_in 10) (take 3 (dec_string n @ u)) = dec_string n"
proof -
  have "take 3 (dec_string n @ u) = dec_string n @ take (3 - length (dec_string n)) u"
    using dec_string_byte(1) [OF assms(1)] by simp
  moreover have "takeWhile (is_digit_in 10) (take m u) = []" for m
    using assms(2) not_digit(3) by (cases m) auto
  ultimately show ?thesis by (simp add: takeWhile_digits)
qed

lemma quad_prefix:
  assumes "quad (Suc k) u"
  obtains n where "n \<le> 255" "takeWhile (is_digit_in 10) (take 3 u) = dec_string n" "k = 0" "u = dec_string n"
  | n w where "n \<le> 255" "takeWhile (is_digit_in 10) (take 3 u) = dec_string n" "k > 0" "u = dec_string n @ CHR ''.'' # w" "quad k w"
proof (cases "k = 0")
  case True
  with assms obtain n where n: "n \<le> 255" "u = dec_string n" by (auto simp: quad_1)
  then show ?thesis using that(1) [of n] takeWhile_part [of n "[]"] True by simp
next
  case False
  with assms obtain n w where n: "n \<le> 255" "u = dec_string n @ CHR ''.'' # w" "quad k w" using quad_Suc [of k u] by auto
  then show ?thesis using that(2) [of n w] takeWhile_part [of n "CHR ''.'' # w"] False by simp
qed

lemma quad_step:
  assumes "takeWhile (is_digit_in 10) (take 3 u) = dec_string n" "n \<le> 255" "u = dec_string n @ rest"
  shows "quad (Suc k) u \<longleftrightarrow> (if k = 0 then rest = [] else \<exists>w. rest = CHR ''.'' # w \<and> quad k w)"
proof
  assume "quad (Suc k) u"
  then show "if k = 0 then rest = [] else \<exists>w. rest = CHR ''.'' # w \<and> quad k w"
    by (rule quad_prefix) (use assms(1,3) in auto)
next
  assume "if k = 0 then rest = [] else \<exists>w. rest = CHR ''.'' # w \<and> quad k w"
  then show "quad (Suc k) u" using assms(2,3) quad_1 [of u] quad_Suc [of k u] by (cases "k = 0") auto
qed

lemma takeWhile_take: "\<exists>v. u = takeWhile P (take k u) @ v"
  by (metis append.assoc append_take_drop_id takeWhile_dropWhile_id)

lemma ipv4_loop_text:
  assumes "span_ok cfg s"
  defines "t \<equiv> span_text cfg s"
  shows "ipv4_loop cfg s i pos = Some (quad (4 - i) (drop pos t))"
proof (induction "4 - i" arbitrary: i pos)
  case 0
  then show ?case by (subst ipv4_loop.simps) (simp add: quad_def)
next
  case (Suc k)
  have len: "length t = sp_len s" using assms by simp
  have k: "k = 4 - Suc i" "4 - i = Suc k" "i < 4" using Suc.hyps(2) by simp_all
  note IH = Suc.hyps(1) [OF k(1)]
  show ?case
  proof (cases "pos < sp_len s")
    case False
    then show ?thesis using len by (subst ipv4_loop.simps) (simp add: quad_Nil)
  next
    case True
    let ?u = "drop pos t"
    define d where "d = takeWhile (is_digit_in 10) (take 3 ?u)"
    obtain v where v: "?u = d @ v" using takeWhile_take d_def by blast
    have lv: "sp_len s = pos + length d + length v" using arg_cong [OF v, of length] True len by simp
    have dig: "ipv4_digits cfg s pos 3 0 0 = Some (length d, digits_value 10 d)"
      using ipv4_digits_text [OF assms(1), of pos 3 0 0] by (simp add: d_def t_def)
    have first: "char_at cfg (sp_s s + pos) = Some (hd ?u)" using char_at_text [OF assms(1) True] True len by (simp add: t_def hd_drop_conv_nth)
    have num: "list_all (is_digit_in 10) d" unfolding d_def by (auto simp: list_all_iff dest: set_takeWhileD)
    obtain c where c: "char_at cfg (sp_s s + pos + length d) = Some c" "v \<noteq> [] \<Longrightarrow> c = hd v"
    proof (cases "v = []")
      case True
      then show ?thesis using that char_at_ok [of "sp_s s + pos + length d" cfg] lv assms(1) by (auto simp: span_ok_def)
    next
      case False
      then have "char_at cfg (sp_s s + (pos + length d)) = Some (t ! (pos + length d))" using char_at_text [OF assms(1), of "pos + length d"] lv by (simp add: t_def)
      moreover have "t ! (pos + length d) = hd v" using False v len lv by (metis drop_drop append_eq_conv_conj hd_drop_conv_nth add.commute length_greater_0_conv less_add_same_cancel1)
      ultimately show ?thesis using that by (simp add: add.assoc)
    qed
    have rest: "drop (pos + length d + 1) t = tl v" using v by (metis append_eq_conv_conj drop_Suc drop_drop add.commute plus_1_eq_Suc tl_drop)
    have step: "ipv4_loop cfg s i pos =
       (if d = [] \<or> (length d > 1 \<and> hd ?u = CHR ''0'') \<or> digits_value 10 d > 255 then Some False
        else if pos + length d = sp_len s \<and> i = 3 then Some True
        else if c \<noteq> CHR ''.'' then Some False else Some (quad k (tl v)))"
      using True k(3) by (subst ipv4_loop.simps)
        (simp only: dig first c(1) IH rest k(1) [symmetric] Option.bind.simps prod.case simp_thms if_True length_0_conv)
    show ?thesis
    proof (cases "d = [] \<or> (length d > 1 \<and> hd ?u = CHR ''0'') \<or> digits_value 10 d > 255")
      case bad: True
      have "\<not> quad (Suc k) ?u"
      proof
        assume "quad (Suc k) ?u"
        then obtain n where n: "n \<le> 255" "d = dec_string n" unfolding d_def by (rule quad_prefix) auto
        then have "hd ?u = hd d" using v by simp
        then show False using bad n dec_string_byte(2) [OF n(1)] by (auto simp: digits_value_numeral)
      qed
      then show ?thesis using bad k(2) by (simp add: step)
    next
      case good: False
      then have "hd d = hd ?u" using v by auto
      then have n: "d = dec_string (digits_value 10 d)" "digits_value 10 d \<le> 255"
        using good num dec_string_digits [of d] by (auto simp: is_number_def)
      have q: "quad (Suc k) ?u \<longleftrightarrow> (if k = 0 then v = [] else \<exists>w. v = CHR ''.'' # w \<and> quad k w)"
      proof (rule quad_step [OF _ n(2)])
        show "takeWhile (is_digit_in 10) (take 3 ?u) = dec_string (digits_value 10 d)" using n(1) d_def by simp
        show "?u = dec_string (digits_value 10 d) @ v" using v n(1) by simp
      qed
      have "i = 3 \<longleftrightarrow> k = 0" "quad k [] = False" using k by (auto simp: quad_Nil)
      moreover have "quad 0 w = False" for w by (simp add: quad_def)
      ultimately show ?thesis unfolding step k(2) q if_not_P [OF good] using lv c(2) by (cases v) auto
    qed
  qed
qed

subsection \<open>IPv6 addresses\<close>

text \<open>
  The textual grammar: a group of one to four hexadecimal digits; \<open>n\<close> sixteen-bit units separated by
  colons, of which the last two may be a dotted quad; at most \<open>k\<close> further groups, the double colon and what
  follows it.
\<close>

definition v6_group :: "string \<Rightarrow> bool" where
  "v6_group g = (g \<noteq> [] \<and> length g \<le> 4 \<and> list_all is_hexadecimal g)"

fun v6_units :: "nat \<Rightarrow> string \<Rightarrow> bool" where
  "v6_units 0 t = False"
| "v6_units (Suc n) t =
     (n = 0 \<and> v6_group t \<or> n = 1 \<and> quad 4 t \<or> (\<exists>g u. v6_group g \<and> t = g @ CHR '':'' # u \<and> v6_units n u))"

definition v6_rest :: "nat \<Rightarrow> string \<Rightarrow> bool" where
  "v6_rest k r = (r = [] \<or> (\<exists>m\<le>k. v6_units m r))"

fun v6_heads :: "nat \<Rightarrow> string \<Rightarrow> bool" where
  "v6_heads 0 t = (\<exists>r. t = CHR '':'' # r \<and> v6_rest 0 r)"
| "v6_heads (Suc k) t =
     ((\<exists>r. t = CHR '':'' # r \<and> v6_rest (Suc k) r) \<or> (\<exists>g u. v6_group g \<and> t = g @ CHR '':'' # u \<and> v6_heads k u))"

definition v6_address :: "string \<Rightarrow> bool" where
  "v6_address t =
     (v6_units 8 t \<or> (\<exists>r. t = ''::'' @ r \<and> v6_rest 7 r) \<or>
      (\<exists>g u. v6_group g \<and> t = g @ CHR '':'' # u \<and> v6_heads 6 u))"

lemma hex_not_sep: "\<not> is_hexadecimal (CHR '':'')" "\<not> is_hexadecimal (CHR ''.'')"
  using not_digit by (simp_all add: is_hexadecimal_digit)

definition v6_digits :: "string \<Rightarrow> string" where
  "v6_digits t = takeWhile is_hexadecimal (take 4 t)"

lemma v6_digits_prefix: "\<exists>v. t = v6_digits t @ v"
  unfolding v6_digits_def by (rule takeWhile_take)

lemma v6_digits_group: "v6_digits t \<noteq> [] \<longleftrightarrow> v6_group (v6_digits t)"
  unfolding v6_group_def v6_digits_def
  by (auto simp: list_all_iff dest: set_takeWhileD) (metis length_take length_takeWhile_le min.bounded_iff order_trans)

lemma v6_digits_append:
  assumes "v6_group g" "u = [] \<or> \<not> is_hexadecimal (hd u)"
  shows "v6_digits (g @ u) = g"
proof -
  have "take 4 (g @ u) = g @ take (4 - length g) u" using assms(1) by (simp add: v6_group_def)
  moreover have "takeWhile is_hexadecimal (take m u) = []" for m using assms(2) by (cases u; cases m) auto
  ultimately show ?thesis using assms(1) unfolding v6_digits_def v6_group_def
    by (simp add: list_all_iff takeWhile_append2)
qed

lemma group_at_end: "t = v6_digits t @ v \<Longrightarrow> v6_group t \<longleftrightarrow> v6_digits t \<noteq> [] \<and> v = []"
proof
  assume "t = v6_digits t @ v" "v6_group t"
  moreover from this(2) have "v6_digits t = t" using v6_digits_append [of t "[]"] by simp
  ultimately show "v6_digits t \<noteq> [] \<and> v = []" by (metis append_self_conv v6_group_def)
next
  assume "t = v6_digits t @ v" "v6_digits t \<noteq> [] \<and> v = []"
  then show "v6_group t" using v6_digits_group [of t] by simp
qed

lemma group_colon:
  assumes "t = v6_digits t @ v"
  shows "(\<exists>g u. v6_group g \<and> t = g @ CHR '':'' # u \<and> P u) \<longleftrightarrow> v6_digits t \<noteq> [] \<and> (\<exists>u. v = CHR '':'' # u \<and> P u)"
proof
  assume "\<exists>g u. v6_group g \<and> t = g @ CHR '':'' # u \<and> P u"
  then obtain g u where g: "v6_group g" "t = g @ CHR '':'' # u" "P u" by blast
  then have "v6_digits t = g" using v6_digits_append hex_not_sep by simp
  then show "v6_digits t \<noteq> [] \<and> (\<exists>u. v = CHR '':'' # u \<and> P u)" using g assms v6_digits_group [of t] by auto
next
  assume "v6_digits t \<noteq> [] \<and> (\<exists>u. v = CHR '':'' # u \<and> P u)"
  then show "\<exists>g u. v6_group g \<and> t = g @ CHR '':'' # u \<and> P u" using assms v6_digits_group [of t] by metis
qed

lemma quad_digits:
  assumes "t = v6_digits t @ v" "quad 4 t"
  shows "v6_digits t \<noteq> [] \<and> (\<exists>w. v = CHR ''.'' # w)"
proof -
  from assms(2) obtain n w where n: "n \<le> 255" "t = dec_string n @ CHR ''.'' # w"
    using quad_Suc [of 3 t] by auto
  then have "v6_group (dec_string n)"
    using dec_string_byte(1) [OF n(1)] num_string_set(1) [of n] digit_10_in_16
    by (auto simp: v6_group_def list_all_iff is_hexadecimal_digit)
  then have "v6_digits t = dec_string n" using v6_digits_append [of "dec_string n" "CHR ''.'' # w"] n(2) hex_not_sep by simp
  then show ?thesis using assms(1) n(2) by auto
qed

lemma v6_units_step:
  assumes "t = v6_digits t @ v"
  shows "v6_units (Suc n) t \<longleftrightarrow> v6_digits t \<noteq> [] \<and>
    (n = 0 \<and> v = [] \<or> n = 1 \<and> quad 4 t \<and> (\<exists>w. v = CHR ''.'' # w) \<or> (\<exists>u. v = CHR '':'' # u \<and> v6_units n u))"
  using group_at_end [OF assms] group_colon [OF assms, of "v6_units n"] quad_digits [OF assms] by (auto simp del: append_Cons)

lemma ipv6_digits_text:
  assumes "span_ok cfg s"
  defines "t \<equiv> span_text cfg s"
  shows "ipv6_digits cfg s pos k j = Some (j + length (takeWhile is_hexadecimal (take k (drop (pos + j) t))))"
proof (induction k arbitrary: j)
  case (Suc k)
  have len: "length t = sp_len s" using assms by simp
  show ?case
  proof (cases "pos + j < sp_len s")
    case True
    then have c: "char_at cfg (sp_s s + pos + j) = Some (t ! (pos + j))"
      using char_at_text [OF assms(1), of "pos + j"] by (simp add: t_def add.assoc)
    show ?thesis using True Suc.IH [of "Suc j"] len by (simp add: c drop_nth_Cons)
  qed (use len in simp)
qed simp

declare v6_units.simps(2) [simp del] v6_heads.simps [simp del]

text \<open>One round of the loop in terms of the text that remains.\<close>

lemma ipv6_loop_step:
  assumes ok: "span_ok cfg s" and pos: "pos < sp_len s" and nxt: "char_at cfg (sp_s s + sp_len s) = Some c0"
  defines "u \<equiv> drop pos (span_text cfg s)"
  assumes v: "u = v6_digits u @ v"
  defines "c \<equiv> if v = [] then c0 else hd v"
  shows "ipv6_loop cfg s i pos seen =
    (if hd u = CHR '':'' \<and> \<not> seen then
       if pos + 1 = sp_len s then Some True else if i = 7 then Some False else ipv6_loop cfg s (Suc i) (pos + 1) True
     else if v6_digits u = [] then Some False
     else if v = [] \<and> (seen \<or> i = 7) then Some True
     else if i = 7 then Some False
     else if c \<noteq> CHR '':'' then if c \<noteq> CHR ''.'' \<or> (i < 6 \<and> \<not> seen) then Some False else Some (quad 4 u)
     else ipv6_loop cfg s (Suc i) (pos + length (v6_digits u) + 1) seen)"
proof -
  have len: "length (span_text cfg s) = sp_len s" using ok by simp
  have a: "char_at cfg (sp_s s + pos) = Some (hd u)"
    using char_at_text [OF ok pos] pos len by (simp add: u_def hd_drop_conv_nth)
  have j: "ipv6_digits cfg s pos 4 0 = Some (length (v6_digits u))"
    using ipv6_digits_text [OF ok, of pos 4 0] by (simp add: u_def v6_digits_def)
  have lv: "sp_len s = pos + length (v6_digits u) + length v"
    using arg_cong [OF v, of length] pos len by (simp add: u_def)
  then have e: "pos + length (v6_digits u) = sp_len s \<longleftrightarrow> v = []" by auto
  have c: "char_at cfg (sp_s s + pos + length (v6_digits u)) = Some c"
  proof (cases "v = []")
    case True
    then show ?thesis using nxt lv by (simp add: c_def add.assoc)
  next
    case False
    then have "char_at cfg (sp_s s + (pos + length (v6_digits u))) = Some (span_text cfg s ! (pos + length (v6_digits u)))"
      using char_at_text [OF ok, of "pos + length (v6_digits u)"] lv by simp
    moreover have "pos \<le> length (span_text cfg s)" using pos len by simp
    then have "span_text cfg s ! (pos + length (v6_digits u)) = u ! length (v6_digits u)" unfolding u_def by (rule nth_drop [symmetric])
    moreover have "(v6_digits u @ v) ! length (v6_digits u) = hd v" using False by (cases v) simp_all
    then have "u ! length (v6_digits u) = hd v" by (simp only: v [symmetric])
    ultimately show ?thesis using False by (simp add: c_def add.assoc)
  qed
  have sub: "is_valid_ipv4 cfg \<lparr>sp_s = sp_s s + pos, sp_len = sp_len s - pos\<rparr> = Some (quad 4 u)"
  proof -
    have "span_ok cfg \<lparr>sp_s = sp_s s + pos, sp_len = sp_len s - pos\<rparr>" using ok pos by (simp add: span_ok_def)
    moreover have "span_text cfg \<lparr>sp_s = sp_s s + pos, sp_len = sp_len s - pos\<rparr> = u"
      by (simp add: span_text_def u_def drop_take add.commute)
    ultimately show ?thesis using ipv4_loop_text by (simp add: is_valid_ipv4_def)
  qed
  show ?thesis
    using pos by (subst ipv6_loop.simps) (simp only: a j c e sub Option.bind.simps if_True length_0_conv)
qed

definition ends_ok :: "string \<Rightarrow> bool" where
  "ends_ok t = (\<forall>p h. drop p t = h @ '':'' \<longrightarrow> h \<noteq> [] \<longrightarrow> \<not> is_hexadecimal (last h))"

lemma ends_okD:
  assumes "ends_ok t" "drop p t = v6_digits (drop p t) @ CHR '':'' # w" "v6_digits (drop p t) \<noteq> []"
  shows "w \<noteq> []"
proof
  assume "w = []"
  then have "drop p t = v6_digits (drop p t) @ '':''" using assms(2) by simp
  with assms(1,3) have "\<not> is_hexadecimal (last (v6_digits (drop p t)))" unfolding ends_ok_def by blast
  moreover from assms(3) have "v6_group (v6_digits (drop p t))" by (simp only: v6_digits_group)
  then have "\<forall>c\<in>set (v6_digits (drop p t)). is_hexadecimal c" by (simp add: v6_group_def list_all_iff)
  ultimately show False using last_in_set [OF assms(3)] by blast
qed

lemma next_pos:
  assumes "drop p t = h @ c # w"
  shows "drop (p + length h + 1) t = w" "w \<noteq> [] \<Longrightarrow> p + length h + 1 < length t" "p + length h + 1 \<le> length t"
proof -
  have "drop (length h + 1) (drop p t) = w" unfolding assms by simp
  then show "drop (p + length h + 1) t = w" by (simp add: add.commute add.left_commute)
  then show "w \<noteq> [] \<Longrightarrow> p + length h + 1 < length t" by (metis drop_eq_Nil linorder_not_le)
  have "length (drop p t) = length h + 1 + length w" unfolding assms by simp
  then show "p + length h + 1 \<le> length t" by simp
qed

lemma ipv6_loop_seen:
  assumes ok: "span_ok cfg s" and nxt: "char_at cfg (sp_s s + sp_len s) = Some c0" "c0 \<noteq> CHR '':''" and ends: "ends_ok (span_text cfg s)"
  defines "t \<equiv> span_text cfg s"
  shows "pos < sp_len s \<Longrightarrow> i \<le> 7 \<Longrightarrow> ipv6_loop cfg s i pos True = Some (\<exists>m\<le>8 - i. v6_units m (drop pos t))"
proof (induction "sp_len s - pos" arbitrary: i pos rule: less_induct)
  case less
  let ?u = "drop pos t"
  have len: "length t = sp_len s" using ok by (simp add: t_def)
  obtain v where v: "?u = v6_digits ?u @ v" using v6_digits_prefix by blast
  note step = ipv6_loop_step [OF ok less.prems(1) nxt(1) v [unfolded t_def], of i True, folded t_def]
  have m: "(\<exists>m\<le>8 - i. v6_units m ?u) \<longleftrightarrow> (\<exists>n\<le>7 - i. v6_units (Suc n) ?u)"
  proof
    assume "\<exists>m\<le>8 - i. v6_units m ?u"
    then obtain m where "m \<le> 8 - i" "v6_units m ?u" by blast
    then show "\<exists>n\<le>7 - i. v6_units (Suc n) ?u" by (cases m) (simp, intro exI [of _ "m - 1"], simp)
  next
    assume "\<exists>n\<le>7 - i. v6_units (Suc n) ?u"
    then obtain n where "n \<le> 7 - i" "v6_units (Suc n) ?u" by blast
    then show "\<exists>m\<le>8 - i. v6_units m ?u" using less.prems(2) by (intro exI [of _ "Suc n"]) simp
  qed
  show ?case
  proof (cases "v6_digits ?u = []")
    case True
    then show ?thesis unfolding step m v6_units_step [OF v] by simp
  next
    case d: False
    consider "v = []" | "v \<noteq> []" "i = 7" | w where "v = CHR '':'' # w" "i < 7" | w where "v = CHR ''.'' # w" "i < 7"
      | c w where "v = c # w" "c \<noteq> CHR '':''" "c \<noteq> CHR ''.''" "i < 7"
      using less.prems(2) by (cases v) fastforce+
    then show ?thesis
    proof cases
      case 1
      then show ?thesis unfolding step m v6_units_step [OF v] using d by auto
    next
      case 2
      then show ?thesis unfolding step m v6_units_step [OF v] using d by auto
    next
      case (3 w)
      have u: "?u = v6_digits ?u @ CHR '':'' # w" using v unfolding 3(1) .
      have w: "w \<noteq> []" by (rule ends_okD [OF ends [folded t_def] u d])
      note np = next_pos [OF u]
      have "ipv6_loop cfg s (Suc i) (pos + length (v6_digits ?u) + 1) True = Some (\<exists>m\<le>8 - Suc i. v6_units m w)"
        using less.hyps [of "pos + length (v6_digits ?u) + 1" "Suc i"] np w len less.prems 3(2) by simp
      then show ?thesis unfolding step m v6_units_step [OF v] using d 3 by auto
    next
      case (4 w)
      then have "(\<exists>n\<le>7 - i. n = 1 \<and> quad 4 ?u) \<longleftrightarrow> quad 4 ?u" by auto
      then show ?thesis unfolding step m v6_units_step [OF v] using d 4 by auto
    next
      case (5 c w)
      then show ?thesis unfolding step m v6_units_step [OF v] using d by auto
    qed
  qed
qed

lemma v6_heads_step:
  assumes "t = v6_digits t @ v"
  shows "v6_heads k t \<longleftrightarrow> (\<exists>r. t = CHR '':'' # r \<and> v6_rest k r) \<or>
    (k > 0 \<and> v6_digits t \<noteq> [] \<and> (\<exists>u. v = CHR '':'' # u \<and> v6_heads (k - 1) u))"
  using group_colon [OF assms, of "v6_heads (k - 1)"] by (cases k) (auto simp: v6_heads.simps simp del: append_Cons)

lemma v6_digits_colon: "v6_digits (CHR '':'' # r) = []"
  by (simp add: v6_digits_def hex_not_sep)

lemma ipv6_loop_unseen:
  assumes ok: "span_ok cfg s" and nxt: "char_at cfg (sp_s s + sp_len s) = Some c0" "c0 \<noteq> CHR '':''" and ends: "ends_ok (span_text cfg s)"
  defines "t \<equiv> span_text cfg s"
  shows "pos < sp_len s \<Longrightarrow> i \<le> 7 \<Longrightarrow>
    ipv6_loop cfg s i pos False = Some (v6_units (8 - i) (drop pos t) \<or> v6_heads (7 - i) (drop pos t))"
proof (induction "sp_len s - pos" arbitrary: i pos rule: less_induct)
  case less
  let ?u = "drop pos t"
  have len: "length t = sp_len s" using ok by (simp add: t_def)
  then have ne: "?u \<noteq> []" using less.prems(1) by simp
  obtain v where v: "?u = v6_digits ?u @ v" using v6_digits_prefix by blast
  note step = ipv6_loop_step [OF ok less.prems(1) nxt(1) v [unfolded t_def], of i False, folded t_def]
  have s: "8 - i = Suc (7 - i)" using less.prems(2) by simp
  show ?case
  proof (cases "hd ?u = CHR '':''")
    case True
    then obtain r where r: "?u = CHR '':'' # r" using ne by (cases ?u) auto
    then have np: "drop (pos + 1) t = r" "r \<noteq> [] \<longleftrightarrow> pos + 1 < length t"
      using next_pos [of pos t "[]" "CHR '':''" r] by auto
    have d: "v6_digits ?u = []" using r v6_digits_colon by simp
    have "v6_units (8 - i) ?u \<or> v6_heads (7 - i) ?u \<longleftrightarrow> v6_rest (7 - i) r"
      unfolding s v6_units_step [OF v] v6_heads_step [OF v] using d r by simp
    moreover have "ipv6_loop cfg s (Suc i) (pos + 1) True = Some (\<exists>m\<le>7 - i. v6_units m r)" if "r \<noteq> []" "i \<noteq> 7"
      using ipv6_loop_seen [OF ok nxt ends, of "pos + 1" "Suc i"] np that less.prems(2) len by (simp add: t_def)
    ultimately show ?thesis unfolding step using True np len less.prems by (auto simp: v6_rest_def)
  next
    case nc: False
    then have nh: "(\<exists>r. ?u = CHR '':'' # r \<and> P r) = False" for P by auto
    show ?thesis
    proof (cases "v6_digits ?u = []")
      case True
      then show ?thesis unfolding step s v6_units_step [OF v] v6_heads_step [OF v] using nc nh by simp
    next
      case d: False
      consider "v = []" | c w where "v = c # w" "i = 7" | w where "v = CHR '':'' # w" "i < 7" | w where "v = CHR ''.'' # w" "i < 7"
        | c w where "v = c # w" "c \<noteq> CHR '':''" "c \<noteq> CHR ''.''" "i < 7"
        using less.prems(2) by (cases v) fastforce+
      then show ?thesis
      proof cases
        case 1
        have "\<not> quad 4 ?u" using quad_digits [OF v] 1 by auto
        then show ?thesis unfolding step s v6_units_step [OF v] v6_heads_step [OF v] using 1 nc nh d nxt(2) less.prems(2) by auto
      next
        case (2 c w)
        then show ?thesis unfolding step s v6_units_step [OF v] v6_heads_step [OF v] using nc nh d by auto
      next
        case (3 w)
        have u: "?u = v6_digits ?u @ CHR '':'' # w" using v unfolding 3(1) .
        have w: "w \<noteq> []" by (rule ends_okD [OF ends [folded t_def] u d])
        note np = next_pos [OF u]
        have "ipv6_loop cfg s (Suc i) (pos + length (v6_digits ?u) + 1) False = Some (v6_units (7 - i) w \<or> v6_heads (7 - Suc i) w)"
          using less.hyps [of "pos + length (v6_digits ?u) + 1" "Suc i"] np w len less.prems 3(2) by simp
        then show ?thesis unfolding step s v6_units_step [OF v] v6_heads_step [OF v] using nc nh d 3 by auto
      next
        case (4 w)
        then show ?thesis unfolding step s v6_units_step [OF v] v6_heads_step [OF v] using nc nh d by auto
      next
        case (5 c w)
        then show ?thesis unfolding step s v6_units_step [OF v] v6_heads_step [OF v] using nc nh d by auto
      qed
    qed
  qed
qed

lemma v6_group_hd: "v6_group g \<Longrightarrow> g @ u \<noteq> [] \<and> hd (g @ u) \<noteq> CHR '':''"
  using hex_not_sep by (cases g) (auto simp: v6_group_def)

lemma v6_units_last: "v6_units n t \<Longrightarrow> t \<noteq> [] \<and> last t \<noteq> CHR '':''"
proof (induction n arbitrary: t)
  case (Suc n)
  from Suc.prems consider "v6_group t" | "quad 4 t" | g u where "t = g @ CHR '':'' # u" "v6_units n u"
    by (auto simp: v6_units.simps)
  then show ?case
  proof cases
    case 1
    then have "t \<noteq> []" "is_hexadecimal (last t)" by (auto simp: v6_group_def list_all_iff)
    then show ?thesis using hex_not_sep by metis
  next
    case 2
    then obtain ns where "ns \<noteq> []" "t = join ''.'' (map dec_string ns)" by (auto simp: quad_def)
    moreover from this have "set t \<subseteq> insert (CHR ''.'') {c. is_digit_in 10 c}"
      using set_join [of "''.''" "map dec_string ns"] num_string_set(1) by fastforce
    moreover have "t \<noteq> []" using 2 quad_Nil by metis
    ultimately show ?thesis using last_in_set [of t] not_digit(2) digit_10_in_16 by fastforce
  next
    case (3 g u)
    then show ?thesis using Suc.IH [of u] by auto
  qed
qed simp

definition single_colon :: "string \<Rightarrow> bool" where
  "single_colon t = (2 \<le> length t \<and> last t = CHR '':'' \<and> t ! (length t - 2) \<noteq> CHR '':'')"

lemma single_colon_Cons: "u \<noteq> [] \<Longrightarrow> single_colon (c # u) \<longleftrightarrow> (if length u = 1 then u = '':'' \<and> c \<noteq> CHR '':'' else single_colon u)"
proof (cases u rule: rev_cases)
  case (snoc v y)
  then show ?thesis by (cases v rule: rev_cases) (auto simp: single_colon_def nth_append nth_Cons')
qed simp

lemma single_colon_append: "u \<noteq> [] \<Longrightarrow> single_colon (g @ CHR '':'' # u) \<longleftrightarrow> single_colon u"
proof (induction g)
  case Nil
  have "\<not> single_colon u" if "length u = 1" using that by (simp add: single_colon_def)
  then show ?case using Nil single_colon_Cons [of u "CHR '':''"] by auto
next
  case (Cons a g)
  then show ?case using single_colon_Cons [of "g @ CHR '':'' # u" a] by simp
qed

lemma v6_rest_single: "v6_rest k r \<Longrightarrow> \<not> single_colon (CHR '':'' # r)"
proof (cases "r = []")
  case False
  then show "v6_rest k r \<Longrightarrow> ?thesis" using v6_units_last [of _ r] by (auto simp: v6_rest_def single_colon_def)
qed (simp add: single_colon_def)

lemma v6_heads_single: "v6_heads k u \<Longrightarrow> u \<noteq> [] \<and> \<not> single_colon u"
proof (induction k arbitrary: u)
  case 0
  then show ?case using v6_rest_single by (auto simp: v6_heads.simps)
next
  case (Suc k)
  then consider r where "u = CHR '':'' # r" "v6_rest (Suc k) r" | g w where "u = g @ CHR '':'' # w" "v6_heads k w"
    by (auto simp: v6_heads.simps)
  then show ?case
  proof cases
    case 1
    then show ?thesis using v6_rest_single by simp
  next
    case 2
    then show ?thesis using Suc.IH [of w] single_colon_append [of w g] by auto
  qed
qed

lemma v6_units_8: "v6_units 8 t \<longleftrightarrow> (\<exists>g u. v6_group g \<and> t = g @ CHR '':'' # u \<and> v6_units 7 u)"
  using v6_units.simps(2) [of 7 t] by simp

lemma v6_address_cases:
  assumes "v6_address t"
  obtains g u where "v6_group g" "t = g @ CHR '':'' # u" "u \<noteq> []" "\<not> single_colon u" | r where "t = ''::'' @ r" "v6_rest 7 r"
proof -
  from assms consider g u where "v6_group g" "t = g @ CHR '':'' # u" "v6_units 7 u" | r where "t = ''::'' @ r" "v6_rest 7 r"
    | g u where "v6_group g" "t = g @ CHR '':'' # u" "v6_heads 6 u"
    unfolding v6_address_def v6_units_8 by blast
  then show ?thesis
  proof cases
    case (1 g u)
    then show ?thesis using that(1) v6_units_last [of 7 u] by (simp add: single_colon_def)
  next
    case (2 r)
    then show ?thesis by (rule that(2))
  next
    case (3 g u)
    then show ?thesis using that(1) v6_heads_single [of 6 u] by simp
  qed
qed

lemma v6_address_facts:
  assumes "v6_address t"
  shows "2 \<le> length t" "hd t = CHR '':'' \<longrightarrow> t ! 1 = CHR '':''" "\<not> single_colon t"
proof -
  from assms show "2 \<le> length t"
  proof (cases rule: v6_address_cases)
    case (1 g u)
    then show ?thesis by (cases g; cases u) (auto simp: v6_group_def)
  qed simp
  from assms show "hd t = CHR '':'' \<longrightarrow> t ! 1 = CHR '':''"
  proof (cases rule: v6_address_cases)
    case (1 g u)
    then show ?thesis using v6_group_hd by metis
  qed simp
  from assms show "\<not> single_colon t"
  proof (cases rule: v6_address_cases)
    case (1 g u)
    then show ?thesis using single_colon_append by simp
  next
    case (2 r)
    then show ?thesis using v6_rest_single [of 7 r] single_colon_append [of "CHR '':'' # r" "[]"] by simp
  qed
qed

lemma ends_ok_single: "\<not> single_colon t \<Longrightarrow> ends_ok t"
proof (unfold ends_ok_def, intro allI impI notI)
  fix p h assume a: "\<not> single_colon t" "drop p t = h @ '':''" "h \<noteq> []" "is_hexadecimal (last h)"
  have "t = (take p t @ butlast h) @ [last h, CHR '':'']" using append_take_drop_id [of p t] a(2,3) by (metis append.assoc append_butlast_last_id append_Cons append_Nil)
  then obtain x where "t = x @ [last h, CHR '':'']" by blast
  moreover have "last h \<noteq> CHR '':''" using a(4) hex_not_sep by metis
  ultimately have "single_colon t" by (simp add: single_colon_def nth_append)
  then show False using a(1) by contradiction
qed

lemma is_valid_ipv6_text:
  assumes ok: "span_ok cfg s" and nxt: "char_at cfg (sp_s s + sp_len s) = Some c0" "c0 \<noteq> CHR '':''"
  defines "t \<equiv> span_text cfg s"
  shows "is_valid_ipv6 cfg s = Some (v6_address t)"
proof (cases "sp_len s < 2")
  case True
  then show ?thesis using length_span_text [OF ok] v6_address_facts(1) [of t] by (auto simp: is_valid_ipv6_def t_def)
next
  case False
  have len: "length t = sp_len s" using ok by (simp add: t_def)
  obtain a b r where t: "t = a # b # r" using False len by (cases t; cases "tl t") auto
  have ab: "char_at cfg (sp_s s) = Some a" "char_at cfg (sp_s s + 1) = Some b"
    using char_at_text [OF ok, of 0] char_at_text [OF ok, of 1] False t by (simp_all add: t_def [symmetric])
  have ends: "char_at cfg (sp_s s + sp_len s - 1) = Some (last t)" "char_at cfg (sp_s s + sp_len s - 2) = Some (t ! (length t - 2))"
    using char_at_text [OF ok, of "sp_len s - 1"] char_at_text [OF ok, of "sp_len s - 2"] False len last_conv_nth [of t] t
    by (simp_all add: t_def [symmetric])
  have single: "last t = CHR '':'' \<and> t ! (length t - 2) \<noteq> CHR '':'' \<longleftrightarrow> single_colon t" using False len by (auto simp: single_colon_def)
  have step: "is_valid_ipv6 cfg s = (if a = CHR '':'' \<and> b \<noteq> CHR '':'' then Some False else if single_colon t then Some False
      else ipv6_loop cfg s 0 (if a = CHR '':'' then 1 else 0) False)"
    using False unfolding is_valid_ipv6_def by (simp only: ab ends Option.bind.simps single if_False)
  show ?thesis
  proof (cases "a = CHR '':'' \<and> b \<noteq> CHR '':'' \<or> single_colon t")
    case True
    moreover from this have "\<not> v6_address t" using v6_address_facts(2,3) [of t] t by auto
    ultimately show ?thesis unfolding step by auto
  next
    case good: False
    let ?p = "if a = CHR '':'' then 1 else 0 :: nat"
    have "ipv6_loop cfg s 0 ?p False = Some (v6_units 8 (drop ?p t) \<or> v6_heads 7 (drop ?p t))"
      using ipv6_loop_unseen [OF ok nxt, of ?p 0] ends_ok_single good False by (simp add: t_def)
    moreover have "v6_units 8 (drop ?p t) \<or> v6_heads 7 (drop ?p t) \<longleftrightarrow> v6_address t"
    proof (cases "a = CHR '':''")
      case True
      then have b: "b = CHR '':''" using good by blast
      have no: "(\<exists>g u. v6_group g \<and> CHR '':'' # y = g @ CHR '':'' # u \<and> P u) = False" for y P
        using v6_group_hd by (metis list.sel(1))
      have h: "v6_heads 7 x \<longleftrightarrow> (\<exists>r. x = CHR '':'' # r \<and> v6_rest 7 r) \<or> (\<exists>g u. v6_group g \<and> x = g @ CHR '':'' # u \<and> v6_heads 6 u)" for x
        using v6_heads.simps(2) [of 6 x] by simp
      have d: "drop ?p t = CHR '':'' # r" "t = CHR '':'' # CHR '':'' # r" using True b t by simp_all
      show ?thesis unfolding d(1) v6_address_def v6_units_8 h unfolding d(2) no by simp
    next
      case nc: False
      have no: "(\<exists>r. t = CHR '':'' # r \<and> P r) = False" "(\<exists>r. t = ''::'' @ r \<and> P r) = False" for P using nc t by auto
      have "v6_heads 7 t \<longleftrightarrow> (\<exists>g u. v6_group g \<and> t = g @ CHR '':'' # u \<and> v6_heads 6 u)"
        using v6_heads.simps(2) [of 6 t] unfolding no by simp
      then show ?thesis using nc unfolding v6_address_def no by simp
    qed
    ultimately show ?thesis unfolding step using good by auto
  qed
qed

end
