(* ===== verification/Wg_Highlighter_Properties.thy ===== *)
theory Wg_Highlighter_Properties
  imports Wg_Highlighter_Spec
begin

text \<open>
  The highlighter never reads out of bounds and its spans are ordered and disjoint; its validators against
  the grammars they mean and against the parser of \<open>config.c\<close>.
\<close>

subsection \<open>Every validator returns\<close>

lemma ipv6_loop_returns: "span_ok cfg s \<Longrightarrow> \<exists>b. ipv6_loop cfg s i pos seen = Some b"
proof (induction "sp_len s - pos" arbitrary: i pos seen rule: less_induct)
  case less
  show ?case
  proof (cases "pos < sp_len s")
    case False
    then show ?thesis by (subst ipv6_loop.simps) auto
  next
    case True
    obtain c0 where c0: "char_at cfg (sp_s s + sp_len s) = Some c0" using less.prems char_at_ok by (auto simp: span_ok_def)
    let ?u = "drop pos (span_text cfg s)"
    obtain v where v: "?u = v6_digits ?u @ v" using v6_digits_prefix by blast
    have IH: "\<exists>b. ipv6_loop cfg s j q sn = Some b" if "pos < q" for j q sn
      using less.hyps [of q j sn] that True less.prems by simp
    show ?thesis unfolding ipv6_loop_step [OF less.prems True c0 v] by (auto intro!: IH)
  qed
qed

lemma is_valid_ipv6_returns:
  assumes "span_ok cfg s"
  shows "\<exists>b. is_valid_ipv6 cfg s = Some b"
proof (cases "sp_len s < 2")
  case False
  have at: "\<exists>a. char_at cfg i = Some a" if "i \<le> sp_s s + sp_len s" for i
    using that assms by (intro char_at_ok) (simp add: span_ok_def)
  obtain a where a: "char_at cfg (sp_s s) = Some a" using at [of "sp_s s"] by auto
  obtain b where b: "char_at cfg (sp_s s + 1) = Some b" using at [of "sp_s s + 1"] False by auto
  obtain z where z: "char_at cfg (sp_s s + sp_len s - 1) = Some z" using at [of "sp_s s + sp_len s - 1"] by auto
  obtain y where y: "char_at cfg (sp_s s + sp_len s - 2) = Some y" using at [of "sp_s s + sp_len s - 2"] by auto
  show ?thesis using ipv6_loop_returns [OF assms] unfolding is_valid_ipv6_def
    by (simp only: a b z y Option.bind.simps) (auto split: if_split)
qed (auto simp: is_valid_ipv6_def)

lemma validators_return:
  assumes "span_ok cfg s"
  shows "\<exists>b. is_valid_ipv4 cfg s = Some b" "\<exists>b. is_valid_hostname cfg s = Some b"
    "\<exists>b. is_valid_key cfg s = Some b" "\<exists>b. is_valid_uint cfg s hex lo hi = Some b" "\<exists>b. is_valid_scope cfg s = Some b"
proof -
  have le: "sp_s s + sp_len s \<le> length cfg" using assms by (simp add: span_ok_def)
  show "\<exists>b. is_valid_scope cfg s = Some b" using le by (auto simp: is_valid_scope_def all_chars_text)
qed (use assms in \<open>auto simp: is_valid_ipv4_def ipv4_loop_text is_valid_hostname_text is_valid_key_text is_valid_uint_text\<close>)

lemma check_enums_returns: "span_ok cfg s \<Longrightarrow> \<exists>f. check_enums cfg s names = Some f"
  by (induction names) (auto simp: is_caseless_same_text)

lemma fields_return:
  assumes "span_ok cfg s"
  shows "\<exists>b. is_valid_port cfg s = Some b" "\<exists>b. is_valid_mtu cfg s = Some b" "\<exists>b. is_valid_persistentkeepalive cfg s = Some b"
    "\<exists>b. is_valid_fwmark cfg s = Some b" "\<exists>b. is_valid_table cfg s = Some b" "\<exists>b. is_valid_saveconfig cfg s = Some b"
    "\<exists>b. is_valid_prepostupdown cfg s = Some b"
  using validators_return(4) [OF assms] by (auto simp: is_valid_port_def is_valid_mtu_def is_valid_persistentkeepalive_def
    is_valid_fwmark_def is_valid_table_def is_valid_saveconfig_def is_valid_prepostupdown_def is_same_text [OF assms])

lemma char_at_span: "span_ok cfg s \<Longrightarrow> i < sp_len s \<Longrightarrow> \<exists>c. char_at cfg (sp_s s + i) = Some c"
  by (rule char_at_ok) (simp add: span_ok_def)

lemma network_loop_returns: "span_ok cfg s \<Longrightarrow> \<exists>b. network_loop cfg s i = Some b"
proof (induction "sp_len s - i" arbitrary: i)
  case 0
  then show ?case using validators_return(1) [OF 0(2)] is_valid_ipv6_returns [OF 0(2)] by (subst network_loop.simps) auto
next
  case (Suc k)
  then have i: "i < sp_len s" "k = sp_len s - Suc i" by simp_all
  obtain c where c: "char_at cfg (sp_s s + i) = Some c" using char_at_span [OF Suc.prems i(1)] by blast
  have le: "sp_s s + sp_len s \<le> length cfg" using Suc.prems by (simp add: span_ok_def)
  let ?h = "\<lparr>sp_s = sp_s s, sp_len = i\<rparr>"
  have "span_ok cfg ?h" using le i(1) by (simp add: span_ok_def)
  from validators_return(1) [OF this] is_valid_ipv6_returns [OF this] obtain a b where
    ab: "is_valid_ipv4 cfg ?h = Some a" "is_valid_ipv6 cfg ?h = Some b" by blast
  have "\<exists>v. uint_dec cfg (sp_s s + i + 1) (sp_len s - i - 1) 0 = Some v" using le i(1) by (simp add: uint_dec_text)
  then obtain v where v: "uint_dec cfg (sp_s s + i + 1) (sp_len s - i - 1) 0 = Some v" by blast
  show ?case
    using i(1) Suc.hyps(1) [OF i(2) Suc.prems] by (subst network_loop.simps) (auto simp: c v [simplified] ab split: option.split)
qed

lemma find_slash_returns: "span_ok cfg s \<Longrightarrow> i \<le> sp_len s \<Longrightarrow> \<exists>k\<le> sp_len s. find_slash cfg s i = Some k"
proof (induction "sp_len s - i" arbitrary: i)
  case 0
  then show ?case by (subst find_slash.simps) simp
next
  case (Suc k)
  then have i: "i < sp_len s" "k = sp_len s - Suc i" by simp_all
  obtain c where c: "char_at cfg (sp_s s + i) = Some c" using char_at_span [OF Suc.prems(1) i(1)] by blast
  show ?case using i Suc.hyps(1) [OF i(2) Suc.prems(1)] by (subst find_slash.simps) (auto simp: c)
qed

text \<open>A valid endpoint has a colon, which \<open>find_colon\<close> then finds.\<close>

definition has_colon :: "string \<Rightarrow> string_span \<Rightarrow> bool" where
  "has_colon cfg s = (\<exists>k < sp_len s. char_at cfg (sp_s s + k) = Some (CHR '':''))"

lemma colon_loop_returns: "span_ok cfg s \<Longrightarrow> \<exists>b. colon_loop cfg s i = Some b \<and> (b \<longrightarrow> has_colon cfg s)"
proof (induction "sp_len s - i" arbitrary: i)
  case 0
  then show ?case by (subst colon_loop.simps) auto
next
  case (Suc k)
  then have i: "i < sp_len s" "k = sp_len s - Suc i" by simp_all
  obtain c where c: "char_at cfg (sp_s s + i) = Some c" using char_at_span [OF Suc.prems i(1)] by blast
  have le: "sp_s s + sp_len s \<le> length cfg" using Suc.prems by (simp add: span_ok_def)
  let ?h = "\<lparr>sp_s = sp_s s, sp_len = i\<rparr>" and ?p = "\<lparr>sp_s = sp_s s + i + 1, sp_len = sp_len s - i - 1\<rparr>"
  have ok: "span_ok cfg ?h" "span_ok cfg ?p" using le i(1) by (simp_all add: span_ok_def)
  from validators_return(1,2) [OF ok(1)] fields_return(1) [OF ok(2)] obtain a b p where
    abp: "is_valid_ipv4 cfg ?h = Some a" "is_valid_hostname cfg ?h = Some b" "is_valid_port cfg ?p = Some p" by blast
  have "has_colon cfg s" if "c = CHR '':''" using that c i(1) by (auto simp: has_colon_def)
  then show ?case
    using i(1) Suc.hyps(1) [OF i(2) Suc.prems] by (subst colon_loop.simps) (auto simp: c abp(1,2) abp(3) [simplified])
qed

lemma bracket_loop_returns:
  "span_ok cfg s \<Longrightarrow> i \<le> sp_len s \<Longrightarrow> sp_s h + sp_len h \<le> sp_s s + i \<Longrightarrow>
    \<exists>b. bracket_loop cfg s i seen h = Some b \<and> (b \<longrightarrow> has_colon cfg s)"
proof (induction "sp_len s - i" arbitrary: i seen h)
  case 0
  then show ?case by (subst bracket_loop.simps) auto
next
  case (Suc k)
  then have i: "i < sp_len s" "k = sp_len s - Suc i" by simp_all
  obtain c where c: "char_at cfg (sp_s s + i) = Some c" using char_at_span [OF Suc.prems(1) i(1)] by blast
  have le: "sp_s s + sp_len s \<le> length cfg" using Suc.prems by (simp add: span_ok_def)
  have ok: "span_ok cfg h" using le i(1) Suc.prems(3) by (simp add: span_ok_def)
  from is_valid_ipv6_returns [OF ok] validators_return(5) [OF ok] obtain a b where
    ab: "is_valid_ipv6 cfg h = Some a" "is_valid_scope cfg h = Some b" by blast
  have IH: "\<exists>b. bracket_loop cfg s (Suc i) sn h' = Some b \<and> (b \<longrightarrow> has_colon cfg s)" if "sp_s h' + sp_len h' \<le> sp_s s + Suc i" for sn h'
    using Suc.hyps(1) [OF i(2) Suc.prems(1) _ that] i(1) by simp
  obtain d where d: "char_at cfg (sp_s s + i + 1) = Some d" using char_at_ok [of "sp_s s + i + 1" cfg] le i(1) by auto
  show ?case
  proof (cases "c = CHR '']'' \<and> i \<noteq> sp_len s - 1 \<and> d = CHR '':''")
    case True
    then have i': "Suc i < sp_len s" using i(1) by linarith
    with True have "has_colon cfg s" using d unfolding has_colon_def by (intro exI [of _ "Suc i"]) simp
    moreover have "span_ok cfg \<lparr>sp_s = sp_s s + i + 2, sp_len = sp_len s - i - 2\<rparr>" using le i' by (simp add: span_ok_def)
    from fields_return(1) [OF this] obtain p where "is_valid_port cfg \<lparr>sp_s = sp_s s + i + 2, sp_len = sp_len s - i - 2\<rparr> = Some p" by blast
    ultimately show ?thesis using i(1) True d by (subst bracket_loop.simps) (auto simp: c ab simp del: add_2_eq_Suc')
  next
    case False
    obtain b1 where b1: "bracket_loop cfg s (Suc i) True \<lparr>sp_s = sp_s s + i + 1, sp_len = 0\<rparr> = Some b1" "b1 \<longrightarrow> has_colon cfg s"
      using IH [of "\<lparr>sp_s = sp_s s + i + 1, sp_len = 0\<rparr>" True] by auto
    obtain b2 where b2: "bracket_loop cfg s (Suc i) seen (h\<lparr>sp_len := Suc (sp_len h)\<rparr>) = Some b2" "b2 \<longrightarrow> has_colon cfg s"
      using IH [of "h\<lparr>sp_len := Suc (sp_len h)\<rparr>" seen] Suc.prems(3) by auto
    note step = bracket_loop.simps [of cfg s i seen h, unfolded c Option.bind.simps if_P [OF i(1)] ab b1(1) b2(1) d]
    show ?thesis
    proof (cases "c = CHR '']''")
      case True
      then have "i = sp_len s - 1 \<or> d \<noteq> CHR '':''" using False by blast
      then show ?thesis unfolding step using True by (cases seen; cases a; cases b) auto
    next
      case False
      then show ?thesis unfolding step using b1(2) b2(2) by (cases seen; cases a) auto
    qed
  qed
qed

lemma is_valid_endpoint_returns:
  assumes "span_ok cfg s"
  shows "\<exists>b. is_valid_endpoint cfg s = Some b \<and> (b \<longrightarrow> has_colon cfg s)"
proof (cases "sp_len s = 0")
  case False
  then obtain a where a: "char_at cfg (sp_s s) = Some a" using char_at_span [OF assms, of 0] by auto
  show ?thesis
    using False bracket_loop_returns [OF assms, of 1 "\<lparr>sp_s = sp_s s + 1, sp_len = 0\<rparr>" False] colon_loop_returns [OF assms, of 0]
    by (simp add: is_valid_endpoint_def a)
qed (auto simp: is_valid_endpoint_def)

lemma find_colon_returns:
  "span_ok cfg s \<Longrightarrow> n \<le> sp_len s \<Longrightarrow> \<exists>k<n. char_at cfg (sp_s s + k) = Some (CHR '':'') \<Longrightarrow> \<exists>k<n. find_colon cfg s n = Some k"
proof (induction n)
  case (Suc n)
  obtain c where c: "char_at cfg (sp_s s + n) = Some c" using char_at_span [OF Suc.prems(1), of n] Suc.prems(2) by auto
  show ?case
  proof (cases "c = CHR '':''")
    case True
    then show ?thesis by (simp add: c)
  next
    case False
    then have "\<exists>k<n. char_at cfg (sp_s s + k) = Some (CHR '':'')" using Suc.prems(3) c less_Suc_eq by auto
    then show ?thesis using Suc.IH Suc.prems False by (auto simp: c)
  qed
qed simp

subsection \<open>The array of spans\<close>

text \<open>The spans are not empty, do not overlap, come in the order of the text and end by \<open>b\<close>.\<close>

definition spans_upto :: "nat \<Rightarrow> highlight_span list \<Rightarrow> bool" where
  "spans_upto b xs = (sorted_wrt (\<lambda>x y. h_start x + h_len x \<le> h_start y) xs \<and>
     (\<forall>x\<in>set xs. 0 < h_len x \<and> h_start x + h_len x \<le> b))"

lemma spans_upto_mono: "spans_upto b xs \<Longrightarrow> b \<le> c \<Longrightarrow> spans_upto c xs"
  by (auto simp: spans_upto_def)

lemma spans_upto_snoc: "spans_upto b xs \<Longrightarrow> b \<le> h_start x \<Longrightarrow> 0 < h_len x \<Longrightarrow> spans_upto (h_start x + h_len x) (xs @ [x])"
  by (fastforce simp: spans_upto_def sorted_wrt_append)

lemma spans_upto_length: "spans_upto b xs \<Longrightarrow> length xs \<le> b"
proof (induction xs arbitrary: b rule: rev_induct)
  case (snoc x xs)
  then have "spans_upto (h_start x) xs" by (auto simp: spans_upto_def sorted_wrt_append)
  from snoc.IH [OF this] snoc.prems show ?case by (auto simp: spans_upto_def)
qed simp

lemma spans_upto_retype:
  "spans_upto b (xs @ [x]) \<Longrightarrow> spans_upto b (xs @ [x\<lparr>h_type := t\<rparr>])"
  by (auto simp: spans_upto_def sorted_wrt_append)

definition size_limit :: nat where
  "size_limit = 2 ^ 57"

definition array_ok :: "nat \<Rightarrow> highlight_span_array \<Rightarrow> bool" where
  "array_ok b a = (spans_upto b (spans a) \<and> capacity a \<le> max 64 (2 * length (spans a)) \<and> length (spans a) \<le> capacity a \<and>
     capacity a \<le> allocated a \<and> b \<le> size_limit)"

lemma realloc_array_ok: "n \<le> 4 * size_limit \<Longrightarrow> realloc_array (\<lambda>_. True) n 24"
proof -
  assume n: "n \<le> 4 * size_limit"
  show ?thesis
  proof (cases "n = 0")
    case False
    have "n * 24 \<le> SIZE_MAX" using n by (simp add: size_limit_def SIZE_MAX_def)
    then have "24 \<le> SIZE_MAX div n" using False by (simp add: less_eq_div_iff_mult_less_eq mult.commute)
    then show ?thesis by (simp add: realloc_array_def)
  qed (simp add: realloc_array_def)
qed

text \<open>The array after an append for which memory is granted.\<close>

definition appended :: "highlight_span_array \<Rightarrow> string_span \<Rightarrow> highlight_type \<Rightarrow> highlight_span_array" where
  "appended a s t = the (append_highlight_span (\<lambda>_. True) a s t)"

lemma append_spans:
  assumes "array_ok b a"
  shows "append_highlight_span (\<lambda>_. True) a s t = Some (appended a s t)"
    and "spans (appended a s t) =
      spans a @ (if sp_len s = 0 then [] else [\<lparr>h_type = t, h_start = sp_s s, h_len = sp_len s\<rparr>])"
    and "capacity (appended a s t) \<le> max 64 (2 * (length (spans a) + 1))"
    and "length (spans (appended a s t)) \<le> capacity (appended a s t)"
    and "capacity (appended a s t) \<le> allocated (appended a s t)"
proof -
  define cap where "cap = (if capacity a \<noteq> 0 then capacity a * 2 mod 2 ^ 64 else 64)"
  have "length (spans a) \<le> size_limit" using assms spans_upto_length unfolding array_ok_def by (meson order_trans)
  then have c: "capacity a \<le> 2 * size_limit" using assms by (auto simp: array_ok_def size_limit_def)
  then have cap: "cap = (if capacity a \<noteq> 0 then capacity a * 2 else 64)" by (simp add: cap_def size_limit_def)
  then have le: "cap \<le> 4 * size_limit" using c by (simp add: size_limit_def)
  then have alloc: "(24 * cap mod 2 ^ 64) div 24 = cap" by (simp add: size_limit_def)
  have gt: "length (spans a) < cap \<and> cap \<le> max 64 (2 * (length (spans a) + 1))" if "capacity a \<le> length (spans a)"
    using that assms by (auto simp: cap array_ok_def)
  let ?xs = "spans a @ [\<lparr>h_type = t, h_start = sp_s s, h_len = sp_len s\<rparr>]"
  have eq: "append_highlight_span (\<lambda>_. True) a s t =
      Some (if sp_len s = 0 then a
        else if capacity a \<le> length (spans a) then a\<lparr>capacity := cap, allocated := cap, spans := ?xs\<rparr>
        else a\<lparr>spans := ?xs\<rparr>)"
    unfolding append_highlight_span_def Let_def cap_def [symmetric] alloc
    using gt assms realloc_array_ok [OF le] by (simp add: store_span_def array_ok_def)
  then show "append_highlight_span (\<lambda>_. True) a s t = Some (appended a s t)" by (simp add: appended_def)
  show "spans (appended a s t) =
      spans a @ (if sp_len s = 0 then [] else [\<lparr>h_type = t, h_start = sp_s s, h_len = sp_len s\<rparr>])"
    unfolding appended_def eq by simp
  show "capacity (appended a s t) \<le> max 64 (2 * (length (spans a) + 1))"
      "length (spans (appended a s t)) \<le> capacity (appended a s t)"
      "capacity (appended a s t) \<le> allocated (appended a s t)"
    unfolding appended_def eq using gt assms by (auto simp: array_ok_def)
qed

lemma append_ok:
  assumes "array_ok b a" "b \<le> sp_s s" "sp_s s + sp_len s \<le> c" "c \<le> size_limit"
  shows "array_ok c (appended a s t)"
proof (cases "sp_len s = 0")
  case True
  then have "appended a s t = a" by (simp add: appended_def append_highlight_span_def)
  then show ?thesis using assms spans_upto_mono [of b "spans a" c] by (simp add: array_ok_def)
next
  case False
  let ?x = "\<lparr>h_type = t, h_start = sp_s s, h_len = sp_len s\<rparr>"
  have "spans_upto (sp_s s + sp_len s) (spans a @ [?x])"
    using spans_upto_snoc [of b "spans a" ?x] assms False by (simp add: array_ok_def)
  then show ?thesis using append_spans(2-5) [OF assms(1), of s t] assms False spans_upto_mono by (auto simp: array_ok_def)
qed

lemma append_nonempty: "array_ok b a \<Longrightarrow> spans a \<noteq> [] \<Longrightarrow> spans (appended a s t) \<noteq> []"
  by (simp add: append_spans(2))

lemma array_ok_mono: "array_ok b a \<Longrightarrow> b \<le> c \<Longrightarrow> c \<le> size_limit \<Longrightarrow> array_ok c a"
  by (auto simp: array_ok_def intro: spans_upto_mono)

subsection \<open>Highlighting a value\<close>

definition grows :: "nat \<Rightarrow> highlight_span_array \<Rightarrow> highlight_span_array option \<Rightarrow> bool" where
  "grows c ret r = (\<exists>a. r = Some a \<and> array_ok c a \<and> (spans ret \<noteq> [] \<longrightarrow> spans a \<noteq> []))"

lemma grows_append:
  assumes "array_ok b ret" "b \<le> sp_s s" "sp_s s + sp_len s \<le> c" "c \<le> size_limit"
  shows "grows c ret (append_highlight_span (\<lambda>_. True) ret s t)"
  using append_ok [OF assms] append_nonempty [OF assms(1)] append_spans(1) [OF assms(1)] by (simp add: grows_def)

lemma grows_append_cut:
  assumes "array_ok b ret" "b \<le> sp_s s" "k < sp_len s" "sp_s s + sp_len s \<le> size_limit"
  shows "grows (sp_s s + sp_len s) ret (append_cut (\<lambda>_. True) ret s k t1 t2)"
proof -
  let ?a = "appended ret \<lparr>sp_s = sp_s s, sp_len = k\<rparr> t1"
  let ?b = "appended ?a \<lparr>sp_s = sp_s s + k, sp_len = 1\<rparr> HighlightDelimiter"
  have a: "array_ok (sp_s s + k) ?a" by (rule append_ok [OF assms(1)]) (use assms in simp_all)
  have b: "array_ok (sp_s s + k + 1) ?b" by (rule append_ok [OF a]) (use assms in simp_all)
  from grows_append [OF b, of "\<lparr>sp_s = sp_s s + k + 1, sp_len = sp_len s - k - 1\<rparr>" "sp_s s + sp_len s" t2]
  show ?thesis using assms append_nonempty [OF a] append_nonempty [OF assms(1)]
    by (auto simp: grows_def append_cut_def append_spans(1) [OF assms(1)] append_spans(1) [OF a])
qed

lemma highlight_multivalue_value_ok:
  assumes ret: "array_ok b ret" "b \<le> sp_s s" and ok: "span_ok cfg s" "length cfg \<le> size_limit"
  shows "grows (sp_s s + sp_len s) ret (highlight_multivalue_value (\<lambda>_. True) cfg ret s section)"
proof -
  have le: "sp_s s + sp_len s \<le> size_limit" using ok by (simp add: span_ok_def)
  note app = grows_append [OF ret le_refl le]
  obtain v4 v6 host net slash where v: "is_valid_ipv4 cfg s = Some v4" "is_valid_ipv6 cfg s = Some v6" "is_valid_hostname cfg s = Some host"
    "is_valid_network cfg s = Some net" "find_slash cfg s 0 = Some slash" "slash \<le> sp_len s"
    using validators_return(1,2) [OF ok(1)] is_valid_ipv6_returns [OF ok(1)] network_loop_returns [OF ok(1), of 0] find_slash_returns [OF ok(1), of 0]
    unfolding is_valid_network_def by blast
  consider "section = DNS" | "section = Address \<or> section = AllowedIPs" | "section \<noteq> DNS" "\<not> (section = Address \<or> section = AllowedIPs)" by blast
  then show ?thesis
  proof cases
    case 1
    then show ?thesis using app unfolding highlight_multivalue_value_def by (cases v4; cases v6) (simp_all add: v)
  next
    case 2
    show ?thesis
    proof (cases "net \<and> slash \<noteq> sp_len s")
      case True
      then have "slash < sp_len s" using v(6) by simp
      from grows_append_cut [OF ret this le] show ?thesis
        using 2 True unfolding highlight_multivalue_value_def by (auto simp: v Let_def)
    next
      case False
      then show ?thesis using 2 app unfolding highlight_multivalue_value_def by (auto simp: v)
    qed
  next
    case 3
    then show ?thesis using app unfolding highlight_multivalue_value_def by simp
  qed
qed

lemma growsD: "grows c ret r \<Longrightarrow> spans ret \<noteq> [] \<Longrightarrow> \<exists>a. r = Some a \<and> array_ok c a \<and> spans a \<noteq> []"
  by (auto simp: grows_def)

lemma multivalue_loop_ok:
  assumes ok: "span_ok cfg s" "length cfg \<le> size_limit"
  shows "i \<le> sp_len s \<Longrightarrow> sp_s cur + sp_len cur = sp_s s + i \<Longrightarrow> lals \<le> sp_len cur \<Longrightarrow> array_ok (sp_s cur) ret \<Longrightarrow> spans ret \<noteq> [] \<Longrightarrow>
    \<exists>a. multivalue_loop (\<lambda>_. True) cfg s section i cur lals ret = Some a \<and> array_ok (sp_s s + sp_len s) a \<and> spans a \<noteq> []"
proof (induction "sp_len s - i" arbitrary: i cur lals ret)
  case 0
  have le: "sp_s s + sp_len s \<le> length cfg" using ok by (simp add: span_ok_def)
  have i: "i = sp_len s" using 0 by simp
  let ?c = "cur\<lparr>sp_len := lals\<rparr>"
  have c: "span_ok cfg ?c" using le 0 i by (simp add: span_ok_def)
  have step: "multivalue_loop (\<lambda>_. True) cfg s section i cur lals ret =
     (if lals \<noteq> 0 then highlight_multivalue_value (\<lambda>_. True) cfg ret ?c section
      else Some (if h_type (last (spans ret)) = HighlightDelimiter
        then ret\<lparr>spans := butlast (spans ret) @ [(last (spans ret))\<lparr>h_type := HighlightError\<rparr>]\<rparr> else ret))"
    using 0 i by (subst multivalue_loop.simps) (simp add: Let_def)
  show ?case
  proof (cases "lals = 0")
    case False
    obtain a where a: "highlight_multivalue_value (\<lambda>_. True) cfg ret ?c section = Some a" "array_ok (sp_s ?c + sp_len ?c) a" "spans a \<noteq> []"
      using growsD [OF highlight_multivalue_value_ok [of "sp_s cur" ret ?c cfg "section"]] 0(5,6) c ok(2) by auto
    have "array_ok (sp_s s + sp_len s) a" by (rule array_ok_mono [OF a(2)]) (use 0 i le ok(2) in auto)
    then show ?thesis unfolding step using False a(1,3) by simp
  next
    case True
    let ?r = "ret\<lparr>spans := butlast (spans ret) @ [(last (spans ret))\<lparr>h_type := HighlightError\<rparr>]\<rparr>"
    have m: "array_ok (sp_s s + sp_len s) ret" by (rule array_ok_mono [OF 0(5)]) (use 0 i le ok(2) in auto)
    have "array_ok (sp_s s + sp_len s) ?r"
      using m 0(6) spans_upto_retype [of _ "butlast (spans ret)" "last (spans ret)" HighlightError] by (simp add: array_ok_def)
    then show ?thesis unfolding step using True m 0(6) by simp
  qed
next
  case (Suc k)
  then have i: "i < sp_len s" "k = sp_len s - Suc i" by simp_all
  have le: "sp_s s + sp_len s \<le> length cfg" using ok by (simp add: span_ok_def)
  obtain c where c: "char_at cfg (sp_s s + i) = Some c" using char_at_span [OF ok(1) i(1)] by blast
  note IH = Suc.hyps(1) [OF i(2)]
  note step = multivalue_loop.simps [of "\<lambda>_. True" cfg s "section" i cur lals ret, unfolded c Option.bind.simps if_P [OF i(1)]]
  consider "c = CHR '',''" | "c \<noteq> CHR '',''" "c = CHR '' '' \<or> c = CHR 0x09" | "c \<noteq> CHR '',''" "\<not> (c = CHR '' '' \<or> c = CHR 0x09)" by blast
  then show ?case
  proof cases
    case 1
    let ?c = "cur\<lparr>sp_len := lals\<rparr>" and ?d = "\<lparr>sp_s = sp_s s + i, sp_len = 1\<rparr>"
    have "span_ok cfg ?c" using le Suc.prems i by (simp add: span_ok_def)
    then obtain a where a: "highlight_multivalue_value (\<lambda>_. True) cfg ret ?c section = Some a" "array_ok (sp_s ?c + sp_len ?c) a" "spans a \<noteq> []"
      using growsD [OF highlight_multivalue_value_ok [of "sp_s cur" ret ?c cfg "section"]] Suc.prems(4,5) ok(2) by auto
    have "array_ok (sp_s s + i + 1) (appended a ?d HighlightDelimiter)"
      by (rule append_ok [OF a(2)]) (use Suc.prems i le ok(2) in auto)
    then show ?thesis unfolding step if_P [OF 1] a(1) Option.bind.simps append_spans(1) [OF a(2)]
      using i append_nonempty [OF a(2,3)] by (intro IH) simp_all
  next
    case 2
    have "array_ok (Suc (sp_s cur)) ret" if "sp_s s + i = sp_s cur"
      by (rule array_ok_mono [OF Suc.prems(4)]) (use that i le ok(2) in auto)
    then show ?thesis unfolding step if_not_P [OF 2(1)] if_P [OF 2(2)] using i Suc.prems by (intro IH) auto
  next
    case 3
    then show ?thesis unfolding step if_not_P [OF 3(1)] if_not_P [OF 3(2)] using i Suc.prems by (intro IH) auto
  qed
qed

lemma highlight_endpoint_ok:
  assumes ret: "array_ok b ret" "b \<le> sp_s s" and ok: "span_ok cfg s" "length cfg \<le> size_limit"
  shows "grows (sp_s s + sp_len s) ret (highlight_endpoint (\<lambda>_. True) cfg ret s)"
proof -
  have le: "sp_s s + sp_len s \<le> size_limit" using ok by (simp add: span_ok_def)
  from is_valid_endpoint_returns [OF ok(1)] obtain v where v: "is_valid_endpoint cfg s = Some v" "v \<longrightarrow> has_colon cfg s" by blast
  show ?thesis
  proof (cases v)
    case True
    then obtain k where k: "k < sp_len s" "find_colon cfg s (sp_len s) = Some k"
      using v(2) find_colon_returns [OF ok(1) le_refl] by (auto simp: has_colon_def)
    show ?thesis using grows_append_cut [OF ret k(1) le] True unfolding highlight_endpoint_def v(1) Option.bind.simps k(2) by simp
  next
    case False
    then show ?thesis using grows_append [OF ret le_refl le] by (simp add: highlight_endpoint_def v(1))
  qed
qed

lemma highlight_value_ok:
  assumes ret: "array_ok b ret" "b \<le> sp_s s" "spans ret \<noteq> []" and ok: "span_ok cfg s" "length cfg \<le> size_limit"
  shows "\<exists>a. highlight_value (\<lambda>_. True) cfg ret s section = Some a \<and> array_ok (sp_s s + sp_len s) a"
proof -
  have le: "sp_s s + sp_len s \<le> size_limit" "b \<le> size_limit" using ok ret by (auto simp: span_ok_def)
  have app: "\<exists>a. append_highlight_span (\<lambda>_. True) ret s t = Some a \<and> array_ok (sp_s s + sp_len s) a" for t
    using append_ok [OF ret(1,2) le_refl le(1)] append_spans(1) [OF ret(1)] by blast
  then have chk: "\<exists>a. highlight_checked (\<lambda>_. True) ret s v t = Some a \<and> array_ok (sp_s s + sp_len s) a" if "\<exists>b. v = Some b" for v t
    using that by (auto simp: highlight_checked_def)
  have "array_ok (sp_s s) ret" using array_ok_mono [OF ret(1,2)] le by simp
  then have multi: "\<exists>a. highlight_multivalue (\<lambda>_. True) cfg ret s f = Some a \<and> array_ok (sp_s s + sp_len s) a" for f
    using multivalue_loop_ok [OF ok, of 0 "\<lparr>sp_s = sp_s s, sp_len = 0\<rparr>" 0 ret f] ret(3) by (auto simp: highlight_multivalue_def)
  have ep: "\<exists>a. highlight_endpoint (\<lambda>_. True) cfg ret s = Some a \<and> array_ok (sp_s s + sp_len s) a"
    using highlight_endpoint_ok [OF ret(1,2) ok] by (auto simp: grows_def)
  show ?thesis
    by (cases "section"; simp only: highlight_value_def field.case)
      (rule app chk multi ep | rule validators_return fields_return, rule ok(1))+
qed

subsection \<open>The whole text\<close>

text \<open>The invariant of the loop at index \<open>i\<close>, by state.\<close>

definition highlighter_inv :: "string \<Rightarrow> nat \<Rightarrow> highlighter \<Rightarrow> bool" where
  "highlighter_inv cfg i h =
     (i \<le> length cfg \<and> sp_s (hl_span h) + sp_len (hl_span h) = i \<and>
      (hl_last_space h \<le> sp_len (hl_span h) \<or> hl_state h = OnValue \<and> sp_len (hl_span h) = 0) \<and>
      (case hl_state h of
         OnNone \<Rightarrow> sp_len (hl_span h) = 0 \<and> array_ok i (hl_ret h)
       | OnValue \<Rightarrow> hl_equals h < sp_s (hl_span h) \<and> array_ok (hl_equals h) (hl_ret h)
       | _ \<Rightarrow> array_ok (sp_s (hl_span h)) (hl_ret h)))"

lemma highlight_flush_ok:
  assumes inv: "highlighter_inv cfg i h" and len: "length cfg \<le> size_limit"
  shows "\<exists>h'. highlight_flush (\<lambda>_. True) cfg h = Some h' \<and> array_ok i (hl_ret h')"
proof -
  let ?t = "(hl_span h)\<lparr>sp_len := hl_last_space h\<rparr>" and ?e = "\<lparr>sp_s = hl_equals h, sp_len = 1\<rparr>"
  have i: "i \<le> size_limit" "i \<le> length cfg" "sp_s (hl_span h) + sp_len (hl_span h) = i"
    using inv len by (auto simp: highlighter_inv_def)
  have t: "span_ok cfg ?t" "sp_s ?t + sp_len ?t \<le> i" if "hl_state h \<noteq> OnValue \<or> sp_len (hl_span h) \<noteq> 0"
    using inv that i by (auto simp: span_ok_def highlighter_inv_def)
  show ?thesis
  proof (cases "hl_state h")
    case OnNone
    then show ?thesis using inv by (simp add: highlight_flush_def highlighter_inv_def Let_def)
  next
    case OnKey
    then have "array_ok (sp_s ?t) (hl_ret h)" using inv by (simp add: highlighter_inv_def)
    from append_ok [OF this le_refl t(2) i(1)] append_spans(1) [OF this] show ?thesis
      using OnKey by (simp add: highlight_flush_def Let_def)
  next
    case OnComment
    then have "array_ok (sp_s (hl_span h)) (hl_ret h)" using inv by (simp add: highlighter_inv_def)
    from append_ok [OF this le_refl _ i(1)] append_spans(1) [OF this] show ?thesis
      using OnComment i(3) by (simp add: highlight_flush_def Let_def)
  next
    case OnSection
    then have r: "array_ok (sp_s ?t) (hl_ret h)" using inv by (simp add: highlighter_inv_def)
    then have a: "array_ok i (appended (hl_ret h) ?t ty)" for ty
      using append_ok [OF _ le_refl t(2) i(1)] OnSection by simp
    obtain f where "get_sectiontype cfg ?t = Some f"
      unfolding get_sectiontype_def using check_enums_returns [OF t(1)] OnSection by (auto simp del: check_enums.simps)
    then show ?thesis using OnSection a append_spans(1) [OF r] by (simp add: highlight_flush_def Let_def)
  next
    case OnValue
    then have e: "hl_equals h < sp_s (hl_span h)" "array_ok (hl_equals h) (hl_ret h)" using inv by (simp_all add: highlighter_inv_def)
    have a: "array_ok (hl_equals h + 1) (appended (hl_ret h) ?e ty)" for ty
      by (rule append_ok [OF e(2)]) (use e(1) i in auto)
    show ?thesis
    proof (cases "sp_len (hl_span h) = 0")
      case True
      have "array_ok i (appended (hl_ret h) ?e HighlightError)"
        by (rule array_ok_mono [OF a]) (use e(1) i in auto)
      then show ?thesis using OnValue True append_spans(1) [OF e(2)] by (simp add: highlight_flush_def Let_def)
    next
      case False
      let ?r = "appended (hl_ret h) ?e HighlightDelimiter"
      have ne: "spans ?r \<noteq> []" using append_spans(2) [OF e(2), of ?e HighlightDelimiter] by simp
      have b: "hl_equals h + 1 \<le> sp_s ?t" using e(1) by simp
      from highlight_value_ok [OF a b ne t(1) len, of "hl_field h"] obtain r where
        r: "highlight_value (\<lambda>_. True) cfg ?r ?t (hl_field h) = Some r" "array_ok (sp_s ?t + sp_len ?t) r" using False by blast
      have "array_ok i r" by (rule array_ok_mono [OF r(2) t(2) i(1)]) (simp add: False)
      then show ?thesis using OnValue False r(1) append_spans(1) [OF e(2)] by (simp add: highlight_flush_def Let_def)
    qed
  qed
qed

lemma highlight_step_ok:
  assumes inv: "highlighter_inv cfg i h" and len: "length cfg \<le> size_limit" and i: "i < length cfg"
  shows "\<exists>h'. highlight_step (\<lambda>_. True) cfg i c h = Some h' \<and> highlighter_inv cfg (Suc i) h'"
proof -
  have le: "Suc i \<le> size_limit" using i len by simp
  have inv': "sp_s (hl_span h) + sp_len (hl_span h) = i" "hl_state h \<noteq> OnValue \<Longrightarrow> hl_last_space h \<le> sp_len (hl_span h)"
    using inv by (auto simp: highlighter_inv_def)
  consider "c = newline \<or> (hl_state h \<noteq> OnComment \<and> c = CHR ''#'')" | "\<not> (c = newline \<or> (hl_state h \<noteq> OnComment \<and> c = CHR ''#''))" "hl_state h = OnComment"
    | "c \<noteq> newline" "c \<noteq> CHR ''#''" "hl_state h \<noteq> OnComment" "c = CHR '' '' \<or> c = CHR 0x09"
    | "c \<noteq> newline" "c \<noteq> CHR ''#''" "hl_state h \<noteq> OnComment" "c = CHR ''=''" "hl_state h = OnKey"
    | "c \<noteq> newline" "c \<noteq> CHR ''#''" "hl_state h \<noteq> OnComment" "\<not> (c = CHR '' '' \<or> c = CHR 0x09)" "\<not> (c = CHR ''='' \<and> hl_state h = OnKey)"
    by blast
  then show ?thesis
  proof cases
    case 1
    from highlight_flush_ok [OF inv len] obtain h' where h': "highlight_flush (\<lambda>_. True) cfg h = Some h'" "array_ok i (hl_ret h')" by blast
    have "array_ok (Suc i) (hl_ret h')" using array_ok_mono [OF h'(2) _ le] by simp
    then show ?thesis using 1 h' i by (cases "c = CHR ''#''") (auto simp: highlight_step_def highlighter_inv_def)
  next
    case 2
    then show ?thesis using inv i by (simp add: highlight_step_def highlighter_inv_def)
  next
    case 3
    have m: "array_ok b (hl_ret h) \<Longrightarrow> b \<le> i \<Longrightarrow> array_ok (Suc i) (hl_ret h)" for b using array_ok_mono [of b "hl_ret h" "Suc i"] le by simp
    show ?thesis using 3 inv i m [of "sp_s (hl_span h)"] m [of i]
      by (cases "hl_state h") (auto simp: highlight_step_def highlighter_inv_def)
  next
    case 4
    let ?k = "(hl_span h)\<lparr>sp_len := hl_last_space h\<rparr>"
    have k: "span_ok cfg ?k" "sp_s ?k + sp_len ?k \<le> i" "array_ok (sp_s ?k) (hl_ret h)"
      using inv inv' i 4 by (simp_all add: span_ok_def highlighter_inv_def)
    from check_enums_returns [OF k(1)] obtain f where f: "get_field cfg ?k = Some f" unfolding get_field_def by blast
    have "array_ok i (appended (hl_ret h) ?k ty)" for ty
      by (rule append_ok [OF k(3) le_refl k(2)]) (use le in simp)
    then show ?thesis using 4 f i append_spans(1) [OF k(3)] by (simp add: highlight_step_def highlighter_inv_def Let_def)
  next
    case 5
    then show ?thesis using inv inv' i by (cases "hl_state h") (auto simp: highlight_step_def highlighter_inv_def)
  qed
qed

lemma highlight_loop_ok:
  assumes len: "length cfg \<le> size_limit"
  shows "highlighter_inv cfg i h \<Longrightarrow> \<exists>h'. highlight_loop (\<lambda>_. True) cfg i h = Some h' \<and> array_ok (length cfg) (hl_ret h')"
proof (induction "length cfg - i" arbitrary: i h)
  case 0
  then have "i = length cfg" by (simp add: highlighter_inv_def)
  then show ?case using highlight_flush_ok [OF 0(2) len] by (subst highlight_loop.simps) simp
next
  case (Suc k)
  then have i: "i < length cfg" "k = length cfg - Suc i" by simp_all
  from highlight_step_ok [OF Suc.prems len i(1), of "cfg ! i"] obtain h' where
    "highlight_step (\<lambda>_. True) cfg i (cfg ! i) h = Some h'" "highlighter_inv cfg (Suc i) h'" by blast
  then show ?case using Suc.hyps(1) [OF i(2)] i(1) by (subst highlight_loop.simps) simp
qed

lemma highlight_config_ok:
  assumes len: "length cfg \<le> size_limit"
  shows "\<exists>xs. highlight_config (\<lambda>_. True) cfg = Some (xs @ [\<lparr>h_type = HighlightEnd, h_start = 0, h_len = SIZE_MAX\<rparr>]) \<and> spans_upto (length cfg) xs"
proof -
  let ?h = "\<lparr>hl_ret = empty_spans, hl_span = \<lparr>sp_s = 0, sp_len = 0\<rparr>, hl_section = Invalid, hl_field = Invalid,
        hl_state = OnNone, hl_last_space = 0, hl_equals = 0\<rparr>"
  have "highlighter_inv cfg 0 ?h" by (simp add: highlighter_inv_def array_ok_def spans_upto_def empty_spans_def size_limit_def)
  from highlight_loop_ok [OF len this] obtain h' where
    h': "highlight_loop (\<lambda>_. True) cfg 0 ?h = Some h'" "array_ok (length cfg) (hl_ret h')" by blast
  have "SIZE_MAX \<noteq> 0" by (simp add: SIZE_MAX_def)
  then show ?thesis
    using append_spans(1,2) [OF h'(2), of "\<lparr>sp_s = 0, sp_len = SIZE_MAX\<rparr>" HighlightEnd] h'
    by (simp add: highlight_config_def array_ok_def)
qed

subsection \<open>Out of memory\<close>

lemma append_refused:
  assumes "\<not> realloc 1536"
  shows "append_highlight_span realloc empty_spans s t = Some empty_spans"
    and "append_cut realloc empty_spans s k t1 t2 = Some empty_spans"
proof -
  show a: "append_highlight_span realloc empty_spans s t = Some empty_spans" for s t
    using assms by (simp add: append_highlight_span_def empty_spans_def realloc_array_def Let_def)
  show "append_cut realloc empty_spans s k t1 t2 = Some empty_spans" by (simp add: append_cut_def a)
qed

lemma multivalue_value_refused:
  assumes "\<not> realloc 1536" "span_ok cfg s"
  shows "highlight_multivalue_value realloc cfg empty_spans s section = Some empty_spans"
proof -
  obtain v4 v6 host net slash where v: "is_valid_ipv4 cfg s = Some v4" "is_valid_ipv6 cfg s = Some v6"
      "is_valid_hostname cfg s = Some host" "is_valid_network cfg s = Some net" "find_slash cfg s 0 = Some slash"
    using validators_return(1,2) [OF assms(2)] is_valid_ipv6_returns [OF assms(2)]
      network_loop_returns [OF assms(2), of 0] find_slash_returns [OF assms(2), of 0]
    unfolding is_valid_network_def by blast
  show ?thesis by (cases v4) (simp_all add: highlight_multivalue_value_def v append_refused [of realloc, OF assms(1)])
qed

text \<open>Whether the rest of a value ends the loop with nothing after its last comma.\<close>

abbreviation is_blank :: "char \<Rightarrow> bool" where
  "is_blank c \<equiv> c = CHR '' '' \<or> c = CHR 0x09"

definition ends_blank :: "nat \<Rightarrow> string \<Rightarrow> bool" where
  "ends_blank lals u \<longleftrightarrow>
     list_all is_blank (takeWhile (\<lambda>c. c \<noteq> CHR '','') (rev u)) \<and> (CHR '','' \<notin> set u \<longrightarrow> lals = 0)"

lemma ends_blank_Nil [simp]: "ends_blank lals [] \<longleftrightarrow> lals = 0"
  by (simp add: ends_blank_def)

lemma ends_blank_Cons:
  "ends_blank lals (c # u) \<longleftrightarrow>
     (if c = CHR '','' then ends_blank 0 u else if is_blank c then ends_blank lals u else ends_blank 1 u)"
proof (cases "CHR '','' \<in> set u")
  case True
  then have "takeWhile (\<lambda>c. c \<noteq> CHR '','') (rev u @ [c]) = takeWhile (\<lambda>c. c \<noteq> CHR '','') (rev u)"
    by (intro takeWhile_append1) auto
  then show ?thesis using True by (simp add: ends_blank_def)
next
  case False
  then have all: "takeWhile (\<lambda>c. c \<noteq> CHR '','') (rev u) = rev u" by (auto simp: takeWhile_eq_all_conv)
  have "takeWhile (\<lambda>c. c \<noteq> CHR '','') (rev u @ [c]) = rev u @ (if c = CHR '','' then [] else [c])"
    using False by (subst takeWhile_append2) auto
  then show ?thesis using False by (auto simp: ends_blank_def all)
qed

lemma multivalue_loop_refused:
  assumes r: "\<not> realloc 1536" and ok: "span_ok cfg s"
  shows "i \<le> sp_len s \<Longrightarrow> sp_s cur + sp_len cur = sp_s s + i \<Longrightarrow> lals \<le> sp_len cur \<Longrightarrow>
    multivalue_loop realloc cfg s section i cur lals empty_spans =
      (if ends_blank lals (drop i (span_text cfg s)) then None else Some empty_spans)"
proof (induction "sp_len s - i" arbitrary: i cur lals)
  case 0
  have le: "sp_s s + sp_len s \<le> length cfg" using ok by (simp add: span_ok_def)
  have c: "span_ok cfg (cur\<lparr>sp_len := lals\<rparr>)" using le 0 by (simp add: span_ok_def)
  have "drop i (span_text cfg s) = []" using 0 by (simp add: span_text_def)
  then show ?case
    using 0 multivalue_value_refused [of realloc, OF r c, of "section"]
    by (subst multivalue_loop.simps) (simp add: empty_spans_def)
next
  case (Suc k)
  then have i: "i < sp_len s" "k = sp_len s - Suc i" by simp_all
  have le: "sp_s s + sp_len s \<le> length cfg" using ok by (simp add: span_ok_def)
  let ?c = "cfg ! (sp_s s + i)"
  have c: "char_at cfg (sp_s s + i) = Some ?c" using le i(1) by (simp add: char_at_def)
  have t: "drop i (span_text cfg s) = ?c # drop (Suc i) (span_text cfg s)"
    using le i(1) by (subst Cons_nth_drop_Suc [symmetric]) (simp_all add: span_text_def)
  have v: "highlight_multivalue_value realloc cfg empty_spans (cur\<lparr>sp_len := lals\<rparr>) section = Some empty_spans"
    by (rule multivalue_value_refused [of realloc, OF r]) (use le i(1) Suc.prems in \<open>simp add: span_ok_def\<close>)
  note IH = Suc.hyps(1) [OF i(2)]
  note step = multivalue_loop.simps [of realloc cfg s "section" i cur lals empty_spans, unfolded c Option.bind.simps if_P [OF i(1)]]
  have p: "ends_blank (Suc (sp_len cur)) u \<longleftrightarrow> ends_blank 1 u" for u by (simp add: ends_blank_def)
  consider "?c = CHR '',''" | "?c \<noteq> CHR '',''" "is_blank ?c" | "?c \<noteq> CHR '',''" "\<not> is_blank ?c" by blast
  then show ?case
  proof cases
    case 1
    then show ?thesis unfolding step t ends_blank_Cons v using i
      by (simp add: v append_refused [of realloc, OF r] IH)
  next
    case 2
    then show ?thesis unfolding step t ends_blank_Cons using i Suc.prems by (simp add: IH)
  next
    case 3
    then show ?thesis unfolding step t ends_blank_Cons using i Suc.prems by (simp add: IH p)
  qed
qed

subsection \<open>Properties\<close>

text \<open>
  C18. The highlighter is memory safe and its output fits the text. On every text of at most
  \<open>2 ^ 57\<close> bytes, when memory is granted, \<open>highlight_config\<close> reads nothing of the text beyond the terminator, never the
  last entry of an empty array, and writes no entry beyond the memory allocated for the array; it returns the spans in
  the order of the text, none empty, no two overlapping, none reaching past the end, followed by the end marker alone.
\<close>

theorem highlight_config_safe:
  assumes "length cfg \<le> 2 ^ 57"
  shows "\<exists>xs. highlight_config (\<lambda>_. True) cfg = Some (xs @ [\<lparr>h_type = HighlightEnd, h_start = 0, h_len = SIZE_MAX\<rparr>]) \<and>
    sorted_wrt (\<lambda>x y. h_start x + h_len x \<le> h_start y) xs \<and> (\<forall>x\<in>set xs. 0 < h_len x \<and> h_start x + h_len x \<le> length cfg)"
  using highlight_config_ok [of cfg] assms by (simp add: size_limit_def spans_upto_def)

theorem highlight_config_safe_witness:
  "length ''[Interface]'' \<le> 2 ^ 57 \<and> (\<exists>xs. highlight_config (\<lambda>_. True) ''[Interface]'' =
     Some (xs @ [\<lparr>h_type = HighlightEnd, h_start = 0, h_len = SIZE_MAX\<rparr>]) \<and>
     sorted_wrt (\<lambda>x y. h_start x + h_len x \<le> h_start y) xs \<and> (\<forall>x\<in>set xs. 0 < h_len x \<and> h_start x + h_len x \<le> length ''[Interface]''))"
  using highlight_config_safe [of "''[Interface]''"] by simp

text \<open>
  C24. The same does not hold when memory runs out. \<open>append_highlight_span\<close> empties the array when the request for its
  first 64 entries is refused, and \<open>highlight_multivalue\<close> goes on as if the entry were there: on an empty array, with
  any text, span and field, it reads the entry before the first one if and only if nothing but blanks follows the last
  comma of the value; otherwise it returns the empty array.
\<close>

theorem highlight_multivalue_out_of_memory:
  assumes "\<not> realloc 1536" "sp_s s + sp_len s \<le> length cfg"
  shows "highlight_multivalue realloc cfg empty_spans s section =
    (if list_all (\<lambda>c. c = CHR '' '' \<or> c = CHR 0x09)
          (takeWhile (\<lambda>c. c \<noteq> CHR '','') (rev (take (sp_len s) (drop (sp_s s) cfg))))
     then None else Some empty_spans)"
proof -
  have ok: "span_ok cfg s" using assms(2) by (simp add: span_ok_def)
  show ?thesis
    using multivalue_loop_refused [of realloc, OF assms(1) ok, of 0 "\<lparr>sp_s = sp_s s, sp_len = 0\<rparr>" 0 "section"]
    by (simp add: highlight_multivalue_def ends_blank_def span_text_def)
qed

theorem highlight_multivalue_out_of_memory_witness:
  "highlight_multivalue (\<lambda>_. False) ''Address=10.0.0.1, '' empty_spans \<lparr>sp_s = 8, sp_len = 10\<rparr> Address = None \<and>
   highlight_multivalue (\<lambda>_. False) ''Address=10.0.0.1'' empty_spans \<lparr>sp_s = 8, sp_len = 8\<rparr> Address = Some empty_spans"
  using highlight_multivalue_out_of_memory [of "\<lambda>_. False" "\<lparr>sp_s = 8, sp_len = 10\<rparr>" "''Address=10.0.0.1, ''" Address]
    highlight_multivalue_out_of_memory [of "\<lambda>_. False" "\<lparr>sp_s = 8, sp_len = 8\<rparr>" "''Address=10.0.0.1''" Address]
  by simp

text \<open>
  C20. The highlighter and the parser agree on keys: \<open>is_valid_key\<close> accepts a span exactly when
  \<open>key_from_base64\<close> decodes its text.
\<close>

theorem is_valid_key_agrees:
  assumes "sp_s s + sp_len s \<le> length cfg" "length key = WG_KEY_LEN"
  shows "is_valid_key cfg s = Some (\<exists>k. key_from_base64 sc key (take (sp_len s) (drop (sp_s s) cfg)) = (True, k))"
proof -
  let ?t = "take (sp_len s) (drop (sp_s s) cfg)"
  have key: "length key = 32" using assms(2) by (simp add: WG_KEY_LEN_def)
  have "(\<exists>k. key_from_base64 sc key ?t = (True, k)) \<longleftrightarrow> (\<exists>k. key_from_base64 True key ?t = (True, k))"
    by (simp only: key_from_base64_iff [OF key])
  also have "\<dots> \<longleftrightarrow> base64_ok True ?t"
  proof (cases "length ?t = 44 \<and> ?t ! 43 = CHR ''=''")
    case True
    then show ?thesis using key_from_base64_eq [OF key, of ?t True] by simp
  next
    case False
    moreover from this have "\<nexists>k. key_from_base64 True key ?t = (True, k)"
      using key_to_base64_nth(3) length_key_to_base64 by (simp only: key_from_base64_iff [OF key]) metis
    ultimately show ?thesis by (auto simp: base64_ok_def)
  qed
  finally show ?thesis using is_valid_key_text [of cfg s] assms(1) by (simp add: span_ok_def span_text_def)
qed

theorem is_valid_key_agrees_witness:
  "is_valid_key (key_to_base64 (replicate 32 7)) \<lparr>sp_s = 0, sp_len = 44\<rparr> =
    Some (\<exists>k. key_from_base64 True (replicate 32 0) (key_to_base64 (replicate 32 7)) = (True, k))"
  using is_valid_key_agrees [of "\<lparr>sp_s = 0, sp_len = 44\<rparr>" "key_to_base64 (replicate 32 7)" "replicate 32 0" True]
  by (simp add: WG_KEY_LEN_def)

text \<open>
  C21. \<open>is_valid_ipv4\<close> accepts exactly dotted quads: four decimal numbers of at most 255 without leading
  zeros, separated by dots. What follows the span in memory does not matter.
\<close>

theorem is_valid_ipv4_correct:
  assumes "sp_s s + sp_len s \<le> length cfg"
  shows "is_valid_ipv4 cfg s = Some (\<exists>ns. length ns = 4 \<and> list_all (\<lambda>n. n \<le> 255) ns \<and>
    take (sp_len s) (drop (sp_s s) cfg) = join ''.'' (map dec_string ns))"
proof -
  have "is_valid_ipv4 cfg s = Some (quad 4 (span_text cfg s))"
    using ipv4_loop_text [of cfg s 0 0] assms by (simp add: is_valid_ipv4_def span_ok_def)
  also have "quad 4 t \<longleftrightarrow> (\<exists>ns. length ns = 4 \<and> list_all (\<lambda>n. n \<le> 255) ns \<and> t = join ''.'' (map dec_string ns))" for t
    by (auto simp: quad_def)
  finally show ?thesis by (simp add: span_text_def)
qed

theorem is_valid_ipv4_correct_witness:
  "is_valid_ipv4 ''10.0.0.1/8'' \<lparr>sp_s = 0, sp_len = 8\<rparr> = Some True \<and>
   (\<exists>ns. length ns = 4 \<and> list_all (\<lambda>n. n \<le> 255) ns \<and> ''10.0.0.1'' = join ''.'' (map dec_string ns))"
proof -
  have "is_valid_ipv4 ''10.0.0.1/8'' \<lparr>sp_s = 0, sp_len = 8\<rparr> = Some True" by code_simp
  then show ?thesis using is_valid_ipv4_correct [of "\<lparr>sp_s = 0, sp_len = 8\<rparr>" "''10.0.0.1/8''"] by simp
qed

text \<open>
  C19. \<open>is_valid_ipv6\<close> accepts exactly the textual form of IPv6 addresses: eight groups of one to four
  hexadecimal digits, the last two possibly as a dotted quad, or fewer with one double colon for the rest. The
  condition on the character after the span matters, because the loop reads it.
\<close>

theorem is_valid_ipv6_correct:
  assumes "sp_s s + sp_len s \<le> length cfg" "char_at cfg (sp_s s + sp_len s) \<noteq> Some (CHR '':'')"
  shows "is_valid_ipv6 cfg s = Some (v6_address (take (sp_len s) (drop (sp_s s) cfg)))"
proof -
  obtain c0 where "char_at cfg (sp_s s + sp_len s) = Some c0" "c0 \<noteq> CHR '':''" using char_at_ok [OF assms(1)] assms(2) by auto
  then show ?thesis using is_valid_ipv6_text [of cfg s c0] assms(1) by (simp add: span_ok_def span_text_def)
qed

theorem is_valid_ipv6_correct_witness:
  "v6_address ''2001:db8::10.0.0.1'' \<and> \<not> v6_address ''1:2:3:4:5:6:7'' \<and> \<not> v6_address ''1::2::3''"
proof -
  have "is_valid_ipv6 ''2001:db8::10.0.0.1'' \<lparr>sp_s = 0, sp_len = 18\<rparr> = Some True"
    "is_valid_ipv6 ''1:2:3:4:5:6:7'' \<lparr>sp_s = 0, sp_len = 13\<rparr> = Some False"
    "is_valid_ipv6 ''1::2::3'' \<lparr>sp_s = 0, sp_len = 7\<rparr> = Some False"
    by code_simp+
  moreover have "char_at cfg (length cfg) \<noteq> Some (CHR '':'')" for cfg by (simp add: char_at_def) code_simp
  ultimately show ?thesis
    using is_valid_ipv6_correct [of "\<lparr>sp_s = 0, sp_len = 18\<rparr>" "''2001:db8::10.0.0.1''"]
      is_valid_ipv6_correct [of "\<lparr>sp_s = 0, sp_len = 13\<rparr>" "''1:2:3:4:5:6:7''"]
      is_valid_ipv6_correct [of "\<lparr>sp_s = 0, sp_len = 7\<rparr>" "''1::2::3''"]
    by (simp add: char_at_def)
qed

text \<open>
  C23. What \<open>is_valid_hostname\<close> accepts: one to 63 letters, digits, dots and hyphens, of which neither the
  first nor the last is a dot or a hyphen and not all are digits and dots. Two dots in a row are accepted: the test
  that means to refuse them stands behind the branch that has already taken every dot.
\<close>

theorem is_valid_hostname_correct:
  assumes "sp_s s + sp_len s \<le> length cfg"
  defines "t \<equiv> take (sp_len s) (drop (sp_s s) cfg)"
  shows "is_valid_hostname cfg s = Some (t \<noteq> [] \<and> length t \<le> 63 \<and> hd t \<notin> {CHR ''-'', CHR ''.''} \<and> last t \<notin> {CHR ''-'', CHR ''.''} \<and>
    list_all (\<lambda>c. is_decimal c \<or> c = CHR ''.'' \<or> is_alphabet c \<or> c = CHR ''-'') t \<and> (\<exists>c\<in>set t. is_alphabet c \<or> c = CHR ''-''))"
proof -
  have "host_char = (\<lambda>c. is_decimal c \<or> c = CHR ''.'' \<or> is_alphabet c \<or> c = CHR ''-'')" by (simp add: fun_eq_iff host_char_def)
  then show ?thesis using is_valid_hostname_text [of cfg s] assms by (simp add: span_ok_def span_text_def)
qed

theorem is_valid_hostname_correct_witness: "is_valid_hostname ''a..b'' \<lparr>sp_s = 0, sp_len = 4\<rparr> = Some True"
proof -
  have "is_alphabet (CHR ''a'')" "is_alphabet (CHR ''b'')" by code_simp+
  then show ?thesis using is_valid_hostname_correct [of "\<lparr>sp_s = 0, sp_len = 4\<rparr>" "''a..b''"] by simp
qed

text \<open>
  C22. The highlighter and the parser agree on firewall marks where \<open>unsigned long\<close> is wider than 32 bits:
  \<open>is_valid_fwmark\<close> accepts the texts \<open>parse_fwmark\<close> accepts, except \<open>off\<close> in other than lower case and numbers written
  with more than ten characters. Where it has 32 bits the parser also takes \<open>4294967296\<close>, see
  \<open>parse_fwmark_saturates\<close>, and the highlighter does not.
\<close>

theorem is_valid_fwmark_agrees:
  assumes "sp_s s + sp_len s \<le> length cfg" "32 < ulong_bits L"
  defines "t \<equiv> take (sp_len s) (drop (sp_s s) cfg)"
  shows "is_valid_fwmark cfg s = Some ((t = ''off'' \<or> \<not> strcasecmp_eq t ''off'' \<and> length t \<le> 10) \<and> (\<exists>r. parse_fwmark L fl t = Done r))"
proof -
  have ok: "span_ok cfg s" "span_text cfg s = t" using assms by (simp_all add: span_ok_def span_text_def)
  have off: "\<not> is_number 10 t" if "strcasecmp_eq t ''off''"
  proof -
    from that obtain a r where "t = a # r" "tolower a = tolower (CHR ''o'')" by (cases t) (auto simp: strcasecmp_eq_def)
    moreover have "\<not> is_digit_in 10 a" if "tolower a = tolower (CHR ''o'')"
      using that by (auto simp: is_digit_in_10 tolower_def char_eq_int split: if_splits)
    ultimately show ?thesis by (simp add: is_number_def)
  qed
  have "parse_fwmark L fl t = (case fwmark_value t of Some n \<Rightarrow> if n < 2 ^ 32 then Done (of_nat n, fl OR WGDEVICE_HAS_FWMARK) else Error (Bad_fwmark t)
     | None \<Rightarrow> Error (Bad_fwmark t))" by (rule parse_fwmark_eq [OF assms(2)])
  then have p: "(\<exists>r. parse_fwmark L fl t = Done r) \<longleftrightarrow> (\<exists>n. fwmark_value t = Some n \<and> n < 2 ^ 32)" by (auto split: option.split)
  have v: "uint_value True t = fwmark_value t" if "\<not> strcasecmp_eq t ''off''"
  proof (cases "take 2 t = ''0x''")
    case True
    then have "2 \<le> length t" "\<not> is_number 10 t"
      using that by (cases t; cases "tl t"; auto simp: is_number_def is_digit_in_10)+
    then show ?thesis using that True by (auto simp: uint_value_def fwmark_value_def is_number_def)
  qed (use that in \<open>auto simp: uint_value_def fwmark_value_def\<close>)
  have o: "fwmark_value t = Some 0" if "strcasecmp_eq t ''off''" using that by (simp add: fwmark_value_def)
  have u: "is_valid_uint cfg s True 0 4294967295 = Some (length t \<le> 10 \<and> (\<exists>n. uint_value True t = Some n \<and> n < 2 ^ 32))"
    unfolding is_valid_uint_text [OF ok(1)] ok(2) by (auto split: option.split)
  have d: "is_valid_fwmark cfg s = Some (t = ''off'' \<or> length t \<le> 10 \<and> (\<exists>n. uint_value True t = Some n \<and> n < 2 ^ 32))"
    unfolding is_valid_fwmark_def is_same_text [OF ok(1)] ok(2) u by simp
  have "strcasecmp_eq ''off'' ''off''" by (simp add: strcasecmp_eq_def)
  moreover have "uint_value True t = None" if "strcasecmp_eq t ''off''"
    using off [OF that] that by (auto simp: uint_value_def strcasecmp_eq_def tolower_def is_number_def)
  ultimately show ?thesis unfolding p d using v o by (cases "strcasecmp_eq t ''off''") auto
qed

theorem is_valid_fwmark_agrees_witness:
  "32 < ulong_bits numeric_libc \<and> is_valid_fwmark ''0xca6c'' \<lparr>sp_s = 0, sp_len = 6\<rparr> =
     Some ((''0xca6c'' = ''off'' \<or> \<not> strcasecmp_eq ''0xca6c'' ''off'' \<and> length ''0xca6c'' \<le> 10) \<and> (\<exists>r. parse_fwmark numeric_libc 0 ''0xca6c'' = Done r))"
proof -
  have "32 < ulong_bits numeric_libc" by (simp add: numeric_libc_def)
  then show ?thesis using is_valid_fwmark_agrees [of "\<lparr>sp_s = 0, sp_len = 6\<rparr>" "''0xca6c''" numeric_libc 0] by simp
qed

end
