(* ===== verification/Wg_Curve_Ladder.thy ===== *)
theory Wg_Curve_Ladder
  imports Wg_Prelude
begin

text \<open>
  What the two implementations of X25519 are to compute: the Montgomery ladder of RFC 7748 on integers modulo the
  prime, and the interface through which an implementation of the field is used. The locale \<open>limb_field\<close> has
  what the inversion by an addition chain needs of a field whose elements are limbs with bounds; \<open>ladder_field\<close>
  adds sums and differences for the step of the ladder. Both are interpreted on the field of
  \<open>curve25519-hacl64.h\<close> and on the one of \<open>curve25519-fiat32.h\<close>.
\<close>

subsection \<open>The ladder on integers\<close>

definition p25519 :: int where
  "p25519 = 2 ^ 255 - 19"

fun ladder_step :: "int \<Rightarrow> (int \<times> int) \<times> (int \<times> int) \<Rightarrow> (int \<times> int) \<times> (int \<times> int)" where
  "ladder_step u ((x2, z2), (x3, z3)) =
     (let a = x2 + z2; aa = a * a; b = x2 - z2; bb = b * b; e = aa - bb;
          c = x3 + z3; d = x3 - z3; da = d * a; cb = c * b
      in ((aa * bb mod p25519, e * (aa + 121665 * e) mod p25519),
          ((da + cb) * (da + cb) mod p25519, u * ((da - cb) * (da - cb)) mod p25519)))"

definition swap_if :: "bool \<Rightarrow> 'a \<times> 'a \<Rightarrow> 'a \<times> 'a" where
  "swap_if b s = (if b then prod.swap s else s)"

text \<open>The bits of the scalar are taken from the most significant one down.\<close>

fun ladder :: "int \<Rightarrow> bool list \<Rightarrow> (int \<times> int) \<times> (int \<times> int) \<Rightarrow> (int \<times> int) \<times> (int \<times> int)" where
  "ladder u [] s = s"
| "ladder u (b # bs) s = ladder u bs (swap_if b (ladder_step u (swap_if b s)))"

definition scalar_bits :: "nat \<Rightarrow> int \<Rightarrow> bool list" where
  "scalar_bits n k = map (bit k) (rev [0..<n])"

definition x25519 :: "nat \<Rightarrow> int \<Rightarrow> int \<Rightarrow> int" where
  "x25519 n k u = (let (x, z) = fst (ladder u (scalar_bits n k) ((1, 0), (u, 1))) in x * z ^ nat (p25519 - 2) mod p25519)"

abbreviation le_int :: "bytes \<Rightarrow> int" where
  "le_int bs \<equiv> int (le_value bs)"

text \<open>\<open>decodeScalar25519\<close> of the RFC: bits 0, 1, 2 and 255 are cleared and bit 254 is set.\<close>

definition clamped :: "int \<Rightarrow> int" where
  "clamped k = k mod 2 ^ 254 div 8 * 8 + 2 ^ 254"

lemma ladder_append: "ladder u (bs @ cs) s = ladder u cs (ladder u bs s)"
  by (induction bs arbitrary: s) simp_all

lemma mod_p_eqI: "x = y + p25519 * k \<Longrightarrow> x mod p25519 = y mod p25519"
  by simp

subsection \<open>Bytes as numbers\<close>

lemma uint_byte_less: "uint (b :: u8) < 256"
  using uint_bounded [of b] by simp

lemma le_int_Cons_concat: "le_int (b # bs) = concat_bit 8 (uint b) (le_int bs)"
  by (simp add: concat_bit_eq push_bit_eq_mult take_bit_int_eq_self uint_byte_less)

lemma bit_le_int: "i < length bs \<Longrightarrow> j < 8 \<Longrightarrow> bit (le_int bs) (8 * i + j) = bit (bs ! i) j"
proof (induction bs arbitrary: i)
  case (Cons b bs)
  then show ?case unfolding le_int_Cons_concat bit_concat_bit_iff by (cases i) (auto simp: bit_uint_iff)
qed simp

lemma scalar_bits_bytes:
  assumes "i \<le> length bs"
  shows "scalar_bits (8 * i) (le_int bs) = concat (map (\<lambda>i. map (bit (bs ! i)) (rev [0..<8])) (rev [0..<i]))"
  using assms
proof (induction i)
  case (Suc i)
  have "[0..<8 * Suc i] = [0..<8 * i] @ map (\<lambda>j. 8 * i + j) [0..<8]"
    using upt_add_eq_append [of 0 "8 * i" 8] map_add_upt [of "8 * i" 8] by (simp add: add.commute)
  then have "scalar_bits (8 * Suc i) (le_int bs) = map (\<lambda>j. bit (le_int bs) (8 * i + j)) (rev [0..<8]) @ scalar_bits (8 * i) (le_int bs)"
    by (simp only: scalar_bits_def rev_append map_append rev_map map_map comp_def)
  moreover have "map (\<lambda>j. bit (le_int bs) (8 * i + j)) (rev [0..<8]) = map (bit (bs ! i)) (rev [0..<8])"
    using Suc.prems by (intro map_cong refl) (auto simp: bit_le_int)
  ultimately show ?case using Suc by simp
qed (simp add: scalar_bits_def)

lemma le_int_append: "le_int (xs @ ys) = le_int xs + 2 ^ (8 * length xs) * le_int ys"
  by (induction xs) (simp_all add: power_add algebra_simps)

lemma le_int_less: "le_int bs < 2 ^ (8 * length bs)"
proof (induction bs)
  case (Cons b bs)
  then have "uint b + 256 * le_int bs < 256 * 2 ^ (8 * length bs)" using uint_byte_less [of b] by linarith
  then show ?case by (simp add: power_add)
qed simp

lemma le_int_short: "length bs \<le> n \<Longrightarrow> le_int bs < 2 ^ (8 * n)"
  by (rule order_less_le_trans [OF le_int_less]) (rule power_increasing, simp_all)

lemma le_int_take: "le_int (take n bs) = take_bit (8 * n) (le_int bs)"
proof (cases "n \<le> length bs")
  case True
  have "le_int bs = le_int (take n bs) + 2 ^ (8 * n) * le_int (drop n bs)"
    using le_int_append [of "take n bs" "drop n bs"] True by simp
  moreover have "le_int (take n bs) < 2 ^ (8 * n)" using le_int_less [of "take n bs"] True by simp
  ultimately show ?thesis by (simp add: take_bit_eq_mod)
next
  case False
  then show ?thesis using take_bit_int_eq_self [OF _ le_int_short, of bs n] by simp
qed

lemma le_int_drop: "le_int (drop n bs) = drop_bit (8 * n) (le_int bs)"
proof (cases "n \<le> length bs")
  case True
  have "le_int bs = le_int (take n bs) + 2 ^ (8 * n) * le_int (drop n bs)"
    using le_int_append [of "take n bs" "drop n bs"] True by simp
  moreover have "le_int (take n bs) < 2 ^ (8 * n)" using le_int_less [of "take n bs"] True by simp
  ultimately show ?thesis by (simp add: drop_bit_eq_div)
next
  case False
  then show ?thesis using div_pos_pos_trivial [OF _ le_int_short, of bs n] by (simp add: drop_bit_eq_div)
qed

lemma bit_le_int_Cons: "bit (le_int (b # bs)) n = (if n < 8 then bit b n else bit (le_int bs) (n - 8))"
  unfolding le_int_Cons_concat bit_concat_bit_iff by (auto simp: bit_uint_iff)

lemma bit_read_le: "bit (foldr (\<lambda>b w. push_bit 8 w OR ucast b) bs (0 :: 'a :: len word)) n \<longleftrightarrow> n < LENGTH('a) \<and> bit (le_int bs) n"
proof (induction bs arbitrary: n)
  case (Cons b bs)
  have "\<not> bit b n" if "\<not> n < 8" using that bit_imp_le_length [of b n] by auto
  then show ?case unfolding bit_le_int_Cons foldr.simps comp_def bit_or_iff bit_push_bit_iff bit_ucast_iff Cons.IH
    by (cases "n < 8") auto
qed simp

text \<open>A number is its slices of a fixed width put together.\<close>

lemma take_bit_slice: "take_bit (m + n) v = take_bit m v + 2 ^ m * take_bit n (drop_bit m (v :: int))"
proof -
  have "take_bit (m + n) v = concat_bit m v (take_bit n (drop_bit m v))"
    by (rule bit_eqI) (auto simp: bit_concat_bit_iff bit_take_bit_iff bit_drop_bit_eq)
  then show ?thesis by (simp add: concat_bit_eq push_bit_eq_mult)
qed

lemma take_bit_slices5:
  "take_bit 51 v + 2 ^ 51 * take_bit 51 (drop_bit 51 v) + 2 ^ 102 * take_bit 51 (drop_bit 102 v) +
    2 ^ 153 * take_bit 51 (drop_bit 153 v) + 2 ^ 204 * take_bit 51 (drop_bit 204 v) = take_bit 255 (v :: int)"
  using take_bit_slice [of 51 51 v] take_bit_slice [of 102 51 v] take_bit_slice [of 153 51 v] take_bit_slice [of 204 51 v] by simp

lemma take_bit_slices4:
  "take_bit 64 v + 2 ^ 64 * (take_bit 64 (drop_bit 64 v) + 2 ^ 64 * (take_bit 64 (drop_bit 128 v) + 2 ^ 64 * take_bit 64 (drop_bit 192 v))) =
    take_bit 256 (v :: int)"
  using take_bit_slice [of 64 64 v] take_bit_slice [of 128 64 v] take_bit_slice [of 192 64 v] by (simp add: algebra_simps)

lemma bit_clamped: "bit (clamped k) n \<longleftrightarrow> 3 \<le> n \<and> n < 254 \<and> bit k n \<or> n = 254"
proof -
  define x where "x = push_bit 3 (drop_bit 3 (take_bit 254 k))"
  have x: "bit x n \<longleftrightarrow> 3 \<le> n \<and> n < 254 \<and> bit k n" for n
    by (auto simp: x_def bit_push_bit_iff bit_drop_bit_eq bit_take_bit_iff)
  have "take_bit 254 x = x" by (rule bit_eqI) (auto simp: bit_take_bit_iff x)
  moreover have "clamped k = x + 2 ^ 254"
    by (simp add: clamped_def x_def push_bit_eq_mult drop_bit_eq_div take_bit_eq_mod)
  ultimately have c: "clamped k = concat_bit 254 x 1" by (simp add: concat_bit_eq push_bit_eq_mult)
  show ?thesis unfolding c bit_concat_bit_iff x bit_1_iff by (cases "n < 254") auto
qed

lemma bit_le_int_iff: "bit (le_int bs) n \<longleftrightarrow> n < 8 * length bs \<and> bit (bs ! (n div 8)) (n mod 8)"
proof (cases "n < 8 * length bs")
  case True
  then show ?thesis using bit_le_int [of "n div 8" bs "n mod 8"] by simp
next
  case False
  have "take_bit (8 * length bs) (le_int bs) = le_int bs" using le_int_take [of "length bs" bs] by simp
  then show ?thesis using False by (metis bit_take_bit_iff)
qed


subsection \<open>A leading zero\<close>

text \<open>
  A pair of points that is another one up to factors. A step keeps the pair so, which is why a zero bit taken before
  the scalar proper does not change the point that the ladder ends with.
\<close>

fun scaled :: "int \<Rightarrow> int \<Rightarrow> (int \<times> int) \<times> (int \<times> int) \<Rightarrow> (int \<times> int) \<times> (int \<times> int) \<Rightarrow> bool" where
  "scaled c d ((x2, z2), (x3, z3)) ((y2, w2), (y3, w3)) \<longleftrightarrow>
     x2 mod p25519 = c * y2 mod p25519 \<and> z2 mod p25519 = c * w2 mod p25519 \<and>
     x3 mod p25519 = d * y3 mod p25519 \<and> z3 mod p25519 = d * w3 mod p25519"

lemma scaled_swap: "scaled (w ^ a) (w ^ b) s t \<Longrightarrow> scaled (w ^ (if r then b else a)) (w ^ (if r then a else b)) (swap_if r s) (swap_if r t)"
  by (cases s; cases t; cases r) (auto simp: swap_if_def)

lemma ladder_step_mod:
  assumes "x2 mod p25519 = y2 mod p25519" "z2 mod p25519 = w2 mod p25519" "x3 mod p25519 = y3 mod p25519" "z3 mod p25519 = w3 mod p25519"
  shows "ladder_step u ((x2, z2), (x3, z3)) = ladder_step u ((y2, w2), (y3, w3))"
  unfolding ladder_step.simps Let_def
  by (intro arg_cong2 [where f = Pair] mod_mult_cong mod_add_cong mod_diff_cong assms refl)

lemma scaled_step:
  assumes "scaled c d s t"
  shows "scaled (c ^ 4) ((c * d) ^ 2) (ladder_step u s) (ladder_step u t)"
proof -
  obtain x2 z2 x3 z3 y2 w2 y3 w3 where st: "s = ((x2, z2), (x3, z3))" "t = ((y2, w2), (y3, w3))" by (metis surj_pair)
  have s: "ladder_step u s = ladder_step u ((c * y2, c * w2), (d * y3, d * w3))"
    using assms unfolding st by (intro ladder_step_mod) simp_all
  have m: "c * (x mod p25519) mod p25519 = c * x mod p25519" for c x by (rule mod_mult_right_eq)
  show ?thesis unfolding s unfolding st ladder_step.simps Let_def scaled.simps m mod_mod_trivial
    by (intro conjI arg_cong [where f = "\<lambda>x. x mod p25519"]) algebra+
qed

lemma scaled_ladder:
  assumes "scaled (w ^ a) (w ^ b) s t"
  shows "\<exists>a b. scaled (w ^ a) (w ^ b) (ladder u bs s) (ladder u bs t)"
  using assms
proof (induction bs arbitrary: a b s t)
  case (Cons r bs)
  obtain a1 b1 where "scaled (w ^ a1) (w ^ b1) (swap_if r s) (swap_if r t)" using scaled_swap [OF Cons.prems] ..
  from scaled_step [OF this, of u]
  have "scaled (w ^ (a1 * 4)) (w ^ ((a1 + b1) * 2)) (ladder_step u (swap_if r s)) (ladder_step u (swap_if r t))"
    by (simp only: power_mult power_add)
  from Cons.IH [OF scaled_swap [OF this, of r]] show ?case by simp
qed auto

lemma mod_power_cong: "x mod p25519 = y mod p25519 \<Longrightarrow> x ^ n mod p25519 = y ^ n mod p25519"
  by (metis power_mod)

lemma x25519_leading_zero:
  assumes w: "(4 * u) ^ nat (p25519 - 1) mod p25519 = 1" and "\<not> bit k 255"
  shows "x25519 256 k u = x25519 255 k u"
proof -
  define n where "n = nat (p25519 - 2)"
  have n: "nat (p25519 - 1) = Suc n" by (simp add: n_def p25519_def nat_diff_distrib)
  have "[0..<256] = [0..<255] @ [255]" using upt_Suc [of 0 255] by simp
  then have b: "scalar_bits 256 k = False # scalar_bits 255 k" using assms(2) by (simp add: scalar_bits_def)
  have "scaled ((4 * u) ^ 0) ((4 * u) ^ 1) (ladder_step u ((1, 0), (u, 1))) ((1, 0), (u, 1))"
    by (simp add: Let_def algebra_simps)
  from scaled_ladder [OF this, of u "scalar_bits 255 k"] obtain a c
    where s: "scaled ((4 * u) ^ a) c (ladder u (scalar_bits 256 k) ((1, 0), (u, 1))) (ladder u (scalar_bits 255 k) ((1, 0), (u, 1)))"
    unfolding b by (auto simp: swap_if_def simp del: ladder_step.simps)
  obtain x z P y v Q where e: "ladder u (scalar_bits 256 k) ((1, 0), (u, 1)) = ((x, z), P)"
    "ladder u (scalar_bits 255 k) ((1, 0), (u, 1)) = ((y, v), Q)" by (metis surj_pair)
  have xz: "x mod p25519 = (4 * u) ^ a * y mod p25519" "z mod p25519 = (4 * u) ^ a * v mod p25519"
    using s unfolding e by (cases P; cases Q; simp)+
  have "x * z ^ n mod p25519 = ((4 * u) ^ a * y) * ((4 * u) ^ a * v) ^ n mod p25519"
    by (intro mod_mult_cong mod_power_cong xz)
  also have "((4 * u) ^ a * y) * ((4 * u) ^ a * v) ^ n = ((4 * u) ^ Suc n) ^ a * (y * v ^ n)"
    by (simp add: power_mult_distrib power_mult [symmetric] power_add [symmetric] algebra_simps)
  also have "\<dots> mod p25519 = y * v ^ n mod p25519"
    using w [unfolded n] by (metis mod_mult_left_eq mult_1 power_mod power_one)
  finally show ?thesis by (simp add: x25519_def e n_def)
qed

subsection \<open>Products of limbs\<close>

text \<open>Five limbs times five limbs, with what is above \<open>R ^ 5\<close> folded back.\<close>

lemma limb_product:
  fixes R :: int
  assumes "R ^ 5 = P + 19"
  shows "(a0 + R * a1 + R ^ 2 * a2 + R ^ 3 * a3 + R ^ 4 * a4) * (b0 + R * b1 + R ^ 2 * b2 + R ^ 3 * b3 + R ^ 4 * b4) =
    (a0 * b0 + 19 * a4 * b1 + 19 * a3 * b2 + 19 * a2 * b3 + 19 * a1 * b4) +
    R * (a1 * b0 + a0 * b1 + 19 * a4 * b2 + 19 * a3 * b3 + 19 * a2 * b4) +
    R ^ 2 * (a2 * b0 + a1 * b1 + a0 * b2 + 19 * a4 * b3 + 19 * a3 * b4) +
    R ^ 3 * (a3 * b0 + a2 * b1 + a1 * b2 + a0 * b3 + 19 * a4 * b4) +
    R ^ 4 * (a4 * b0 + a3 * b1 + a2 * b2 + a1 * b3 + a0 * b4) +
    P * ((a4 * b1 + a3 * b2 + a2 * b3 + a1 * b4) + R * (a4 * b2 + a3 * b3 + a2 * b4) + R ^ 2 * (a4 * b3 + a3 * b4) + R ^ 3 * (a4 * b4))"
proof -
  have P: "P = R ^ 5 - 19" using assms by simp
  show ?thesis unfolding P by (simp add: algebra_simps eval_nat_numeral)
qed

subsection \<open>A field of limbs\<close>

text \<open>
  \<open>val\<close> is the integer of an element; \<open>tight\<close> holds of what a multiplication leaves and \<open>loose\<close> of what
  may be multiplied.
\<close>

locale limb_field =
  fixes val :: "'e \<Rightarrow> int" and tight loose :: "'e \<Rightarrow> bool" and mul :: "'e \<Rightarrow> 'e \<Rightarrow> 'e" and sqr :: "'e \<Rightarrow> 'e"
  assumes loose_tight: "tight a \<Longrightarrow> loose a"
    and mul_tight: "loose a \<Longrightarrow> loose b \<Longrightarrow> tight (mul a b)"
    and mul_val: "loose a \<Longrightarrow> loose b \<Longrightarrow> val (mul a b) mod p25519 = val a * val b mod p25519"
    and sqr_tight: "loose a \<Longrightarrow> tight (sqr a)"
    and sqr_val: "loose a \<Longrightarrow> val (sqr a) mod p25519 = val a * val a mod p25519"
begin

text \<open>An element that stands for a number, and one that stands for a power.\<close>

definition rep :: "'e \<Rightarrow> int \<Rightarrow> bool" where
  "rep a x \<longleftrightarrow> tight a \<and> val a mod p25519 = x mod p25519"

definition rep_loose :: "'e \<Rightarrow> int \<Rightarrow> bool" where
  "rep_loose a x \<longleftrightarrow> loose a \<and> val a mod p25519 = x mod p25519"

lemma rep_loose: "rep a x \<Longrightarrow> rep_loose a x"
  by (simp add: rep_def rep_loose_def loose_tight)

lemma rep_mod: "rep a (x mod p25519) = rep a x"
  by (simp add: rep_def)

lemma rep_val: "tight a \<Longrightarrow> rep a (val a)" "loose a \<Longrightarrow> rep_loose a (val a)"
  by (simp_all add: rep_def rep_loose_def)

lemma rep_mul: "rep_loose a x \<Longrightarrow> rep_loose b y \<Longrightarrow> rep (mul a b) (x * y)"
  unfolding rep_def rep_loose_def by (metis mul_tight mul_val mod_mult_cong)

lemma rep_sqr: "rep_loose a x \<Longrightarrow> rep (sqr a) (x * x)"
  unfolding rep_def rep_loose_def by (metis sqr_tight sqr_val mod_mult_cong)

lemma rep_power_mul: "rep_loose a (z ^ m) \<Longrightarrow> rep_loose b (z ^ n) \<Longrightarrow> m + n = k \<Longrightarrow> rep (mul a b) (z ^ k)"
  using rep_mul [of a "z ^ m" b "z ^ n"] by (auto simp: power_add)

lemma rep_power_sqr: "rep_loose a (z ^ m) \<Longrightarrow> rep (sqr a) (z ^ (2 * m))"
  using rep_sqr [of a "z ^ m"] by (simp add: power_add [symmetric] mult_2)

lemma rep_power_times:
  assumes "rep a (z ^ m)"
  shows "rep ((sqr ^^ n) a) (z ^ (2 ^ n * m))"
proof (induction n)
  case (Suc n)
  show ?case using rep_power_sqr [OF rep_loose [OF Suc]] by (simp add: mult.assoc)
qed (simp add: assms)

lemma rep_power_sqr_times:
  assumes "rep_loose a (z ^ m)" "2 ^ Suc n * m = k"
  shows "rep ((sqr ^^ n) (sqr a)) (z ^ k)"
proof -
  have "2 ^ n * (2 * m) = k" using assms(2) by simp
  then show ?thesis using rep_power_times [OF rep_power_sqr [OF assms(1)], of n] by simp
qed

end

subsection \<open>The step of the ladder\<close>

locale ladder_field = limb_field +
  fixes add sub :: "'a \<Rightarrow> 'a \<Rightarrow> 'a"
  assumes add_loose: "tight a \<Longrightarrow> tight b \<Longrightarrow> loose (add a b)"
    and add_val: "tight a \<Longrightarrow> tight b \<Longrightarrow> val (add a b) mod p25519 = (val a + val b) mod p25519"
    and sub_loose: "tight a \<Longrightarrow> tight b \<Longrightarrow> loose (sub a b)"
    and sub_val: "tight a \<Longrightarrow> tight b \<Longrightarrow> val (sub a b) mod p25519 = (val a - val b) mod p25519"
begin

lemma rep_add: "rep a x \<Longrightarrow> rep b y \<Longrightarrow> rep_loose (add a b) (x + y)"
  unfolding rep_def rep_loose_def by (metis add_loose add_val mod_add_cong)

lemma rep_sub: "rep a x \<Longrightarrow> rep b y \<Longrightarrow> rep_loose (sub a b) (x - y)"
  unfolding rep_def rep_loose_def by (metis sub_loose sub_val mod_diff_cong)

end

end
