(* ===== verification/Wg_Fiat_Field.thy ===== *)
theory Wg_Fiat_Field
  imports Wg_Fiat Wg_Curve_Ladder
begin

text \<open>
  The field arithmetic of \<open>curve25519-fiat32.h\<close> computes modulo the prime \<open>2 ^ 255 - 19\<close>, with the bounds on the
  limbs that the comments of the source state: sums and differences of elements are loose, products and squares of
  loose ones are elements again, and no sum of products wraps around in 64 bits.
\<close>

subsection \<open>Equations\<close>

lemmas fe_simps = fe_add_def fe_sub_def fe_carry_def fe_mul_products_def fe_sqr_products_def fe_freeze_def fe_cswap_def fe_ladder_step_def

subsection \<open>The value of an element\<close>

text \<open>Limb \<open>i\<close> has the weight of bit \<open>0, 26, 51, 77, 102, 128, 153, 179, 204, 230\<close>.\<close>

fun fe_val :: "fe \<Rightarrow> int" where
  "fe_val (h0, h1, h2, h3, h4, h5, h6, h7, h8, h9) =
     uint h0 + 2 ^ 26 * uint h1 + 2 ^ 51 * uint h2 + 2 ^ 77 * uint h3 + 2 ^ 102 * uint h4 +
     2 ^ 128 * uint h5 + 2 ^ 153 * uint h6 + 2 ^ 179 * uint h7 + 2 ^ 204 * uint h8 + 2 ^ 230 * uint h9"

text \<open>A bound for the limbs of 26 bits; those of 25 bits have half of it.\<close>

fun fe_below :: "int \<Rightarrow> fe \<Rightarrow> bool" where
  "fe_below n (h0, h1, h2, h3, h4, h5, h6, h7, h8, h9) \<longleftrightarrow>
     uint h0 < 2 * n \<and> uint h1 < n \<and> uint h2 < 2 * n \<and> uint h3 < n \<and> uint h4 < 2 * n \<and>
     uint h5 < n \<and> uint h6 < 2 * n \<and> uint h7 < n \<and> uint h8 < 2 * n \<and> uint h9 < n"

text \<open>The bounds that the comments of the source give: 1.125 and 3.375 times the size of a limb.\<close>

definition fe_tight :: "fe \<Rightarrow> bool" where
  "fe_tight = fe_below (9 * 2 ^ 22)"

definition fe_loose :: "fe \<Rightarrow> bool" where
  "fe_loose = fe_below (27 * 2 ^ 22)"

lemma fe_loose_tight: "fe_tight a \<Longrightarrow> fe_loose a"
  by (cases a) (auto simp: fe_tight_def fe_loose_def)

lemma fe_cases: obtains h0 h1 h2 h3 h4 h5 h6 h7 h8 h9 where "a = ((h0, h1, h2, h3, h4, h5, h6, h7, h8, h9) :: fe)"
  using that by (cases a rule: prod_cases7) (metis prod_cases4)

lemma fe_wide_cases: obtains h0 h1 h2 h3 h4 h5 h6 h7 h8 h9 where "a = ((h0, h1, h2, h3, h4, h5, h6, h7, h8, h9) :: fe_wide)"
  using that by (cases a rule: prod_cases7) (metis prod_cases4)

subsection \<open>Words as integers\<close>

lemma uint_u32: "0 \<le> uint (x :: u32)" "uint (x :: u32) < 2 ^ 32"
  using uint_bounded [of x] by simp_all

lemma uint_u32_add: "uint x + uint y < 2 ^ 32 \<Longrightarrow> uint (x + y :: u32) = uint x + uint y"
  by (simp add: uint_word_ariths(1) take_bit_int_eq_self)

lemma uint_u32_mult: "uint x * uint y < 2 ^ 32 \<Longrightarrow> uint (x * y :: u32) = uint x * uint y"
  by (simp add: uint_word_ariths(3) take_bit_int_eq_self)

lemma ucast_u32: "(ucast (x :: u32) :: u64) = of_int (uint x)"
  by (rule ucast_eq)

lemma uint_of_int: "0 \<le> k \<Longrightarrow> k < 2 ^ 64 \<Longrightarrow> uint (of_int k :: u64) = k"
  by (simp add: unsigned_of_int take_bit_int_eq_self)

lemma fold19_eq: "fold19 lo hi = lo + 19 * hi"
proof -
  have "push_bit 4 hi = 16 * hi" "push_bit 1 hi = 2 * hi" by (simp_all add: push_bit_eq_mult mult.commute)
  then show ?thesis by (simp add: fold19_def Let_def)
qed

subsection \<open>Sums and differences\<close>

lemma fe_add_correct:
  assumes "fe_tight a" "fe_tight b"
  shows "fe_loose (fe_add a b)" "fe_val (fe_add a b) = fe_val a + fe_val b"
proof -
  obtain a0 a1 a2 a3 a4 a5 a6 a7 a8 a9 where a: "a = (a0, a1, a2, a3, a4, a5, a6, a7, a8, a9)" by (rule fe_cases)
  obtain b0 b1 b2 b3 b4 b5 b6 b7 b8 b9 where b: "b = (b0, b1, b2, b3, b4, b5, b6, b7, b8, b9)" by (rule fe_cases)
  have "uint (a0 + b0) = uint a0 + uint b0" "uint (a1 + b1) = uint a1 + uint b1" "uint (a2 + b2) = uint a2 + uint b2"
    "uint (a3 + b3) = uint a3 + uint b3" "uint (a4 + b4) = uint a4 + uint b4" "uint (a5 + b5) = uint a5 + uint b5"
    "uint (a6 + b6) = uint a6 + uint b6" "uint (a7 + b7) = uint a7 + uint b7" "uint (a8 + b8) = uint a8 + uint b8"
    "uint (a9 + b9) = uint a9 + uint b9"
    using assms by (simp_all add: a b fe_tight_def uint_u32_add)
  then show "fe_loose (fe_add a b)" "fe_val (fe_add a b) = fe_val a + fe_val b"
    using assms by (simp_all add: a b fe_tight_def fe_loose_def fe_add_def algebra_simps)
qed

lemma uint_offset_sub32:
  assumes "uint a < 9 * 2 ^ 23" "uint b \<le> uint k" "uint k < 2 ^ 27"
  shows "uint (k + a - b :: u32) = uint k + uint a - uint b"
proof -
  have "uint (k + a) = uint k + uint a" using uint_u32_add [of k a] assms by simp
  moreover have "uint b \<le> uint k + uint a" using assms(2) uint_u32(1) [of a] by linarith
  ultimately show ?thesis using uint_sub_lem [of b "k + a"] by simp
qed

lemma fe_sub_correct:
  assumes "fe_tight a" "fe_tight b"
  shows "fe_loose (fe_sub a b)" "fe_val (fe_sub a b) mod p25519 = (fe_val a - fe_val b) mod p25519"
proof -
  obtain a0 a1 a2 a3 a4 a5 a6 a7 a8 a9 where a: "a = (a0, a1, a2, a3, a4, a5, a6, a7, a8, a9)" by (rule fe_cases)
  obtain b0 b1 b2 b3 b4 b5 b6 b7 b8 b9 where b: "b = (b0, b1, b2, b3, b4, b5, b6, b7, b8, b9)" by (rule fe_cases)
  note t = assms [unfolded a b fe_tight_def fe_below.simps]
  have v: "uint (0x7ffffda + a0 - b0) = 0x7ffffda + uint a0 - uint b0" "uint (0x3fffffe + a1 - b1) = 0x3fffffe + uint a1 - uint b1"
    "uint (0x7fffffe + a2 - b2) = 0x7fffffe + uint a2 - uint b2" "uint (0x3fffffe + a3 - b3) = 0x3fffffe + uint a3 - uint b3"
    "uint (0x7fffffe + a4 - b4) = 0x7fffffe + uint a4 - uint b4" "uint (0x3fffffe + a5 - b5) = 0x3fffffe + uint a5 - uint b5"
    "uint (0x7fffffe + a6 - b6) = 0x7fffffe + uint a6 - uint b6" "uint (0x3fffffe + a7 - b7) = 0x3fffffe + uint a7 - uint b7"
    "uint (0x7fffffe + a8 - b8) = 0x7fffffe + uint a8 - uint b8" "uint (0x3fffffe + a9 - b9) = 0x3fffffe + uint a9 - uint b9"
    using t uint_offset_sub32 [of a0 b0 "0x7ffffda"] uint_offset_sub32 [of a1 b1 "0x3fffffe"] uint_offset_sub32 [of a2 b2 "0x7fffffe"]
      uint_offset_sub32 [of a3 b3 "0x3fffffe"] uint_offset_sub32 [of a4 b4 "0x7fffffe"] uint_offset_sub32 [of a5 b5 "0x3fffffe"]
      uint_offset_sub32 [of a6 b6 "0x7fffffe"] uint_offset_sub32 [of a7 b7 "0x3fffffe"] uint_offset_sub32 [of a8 b8 "0x7fffffe"]
      uint_offset_sub32 [of a9 b9 "0x3fffffe"] by simp_all
  have l: "0x7fffffe + y - uint x < 226492416" "0x3fffffe + z - uint x < 113246208" if "y < 75497472" "z < 37748736" for y z and x :: u32
    using that uint_u32(1) [of x] by linarith+
  have l1: "0x7ffffda + y - uint x < 2 * (27 * 2 ^ 22)" "0x7fffffe + y - uint x < 2 * (27 * 2 ^ 22)" if "y < 75497472" for y and x :: u32
    using l(1) [OF that, of 0 x] by simp_all
  have l2: "0x3fffffe + y - uint x < 27 * 2 ^ 22" if "y < 37748736" for y and x :: u32
    using l(2) [OF _ that, of 0 x] by simp
  show "fe_loose (fe_sub a b)"
    unfolding a b fe_sub_def prod.case fe_loose_def fe_below.simps v by (intro conjI l1 l2) (use t in simp_all)
  have "fe_val (fe_sub a b) = fe_val a - fe_val b + p25519 * 2"
    unfolding a b fe_sub_def prod.case fe_val.simps v p25519_def by simp
  then show "fe_val (fe_sub a b) mod p25519 = (fe_val a - fe_val b) mod p25519" by (rule mod_p_eqI)
qed

subsection \<open>Products\<close>

text \<open>
  Ten limbs are five of an even and five of an odd index; with \<open>R\<close> the weight of two limbs and \<open>S\<close> that of one of 26
  bits, the product of two elements is four products of five limbs.
\<close>

lemma limb_product_ten:
  fixes R :: int
  assumes R: "R ^ 5 = P + 19" and S: "S * S = 2 * R"
  shows "\<exists>k. (a0 + R * a2 + R ^ 2 * a4 + R ^ 3 * a6 + R ^ 4 * a8 + S * (a1 + R * a3 + R ^ 2 * a5 + R ^ 3 * a7 + R ^ 4 * a9)) * (b0 + R * b2 + R ^ 2 * b4 + R ^ 3 * b6 + R ^ 4 * b8 + S * (b1 + R * b3 + R ^ 2 * b5 + R ^ 3 * b7 + R ^ 4 * b9)) =
    (a0 * b0 + 38 * (a1 * b9) + 19 * (a2 * b8) + 38 * (a3 * b7) + 19 * (a4 * b6) + 38 * (a5 * b5) + 19 * (a6 * b4) + 38 * (a7 * b3) + 19 * (a8 * b2) + 38 * (a9 * b1)) +
      S * (a0 * b1 + a1 * b0 + 19 * (a2 * b9) + 19 * (a3 * b8) + 19 * (a4 * b7) + 19 * (a5 * b6) + 19 * (a6 * b5) + 19 * (a7 * b4) + 19 * (a8 * b3) + 19 * (a9 * b2)) +
      R * (a0 * b2 + 2 * (a1 * b1) + a2 * b0 + 38 * (a3 * b9) + 19 * (a4 * b8) + 38 * (a5 * b7) + 19 * (a6 * b6) + 38 * (a7 * b5) + 19 * (a8 * b4) + 38 * (a9 * b3)) +
      (R * S) * (a0 * b3 + a1 * b2 + a2 * b1 + a3 * b0 + 19 * (a4 * b9) + 19 * (a5 * b8) + 19 * (a6 * b7) + 19 * (a7 * b6) + 19 * (a8 * b5) + 19 * (a9 * b4)) +
      R ^ 2 * (a0 * b4 + 2 * (a1 * b3) + a2 * b2 + 2 * (a3 * b1) + a4 * b0 + 38 * (a5 * b9) + 19 * (a6 * b8) + 38 * (a7 * b7) + 19 * (a8 * b6) + 38 * (a9 * b5)) +
      (R ^ 2 * S) * (a0 * b5 + a1 * b4 + a2 * b3 + a3 * b2 + a4 * b1 + a5 * b0 + 19 * (a6 * b9) + 19 * (a7 * b8) + 19 * (a8 * b7) + 19 * (a9 * b6)) +
      R ^ 3 * (a0 * b6 + 2 * (a1 * b5) + a2 * b4 + 2 * (a3 * b3) + a4 * b2 + 2 * (a5 * b1) + a6 * b0 + 38 * (a7 * b9) + 19 * (a8 * b8) + 38 * (a9 * b7)) +
      (R ^ 3 * S) * (a0 * b7 + a1 * b6 + a2 * b5 + a3 * b4 + a4 * b3 + a5 * b2 + a6 * b1 + a7 * b0 + 19 * (a8 * b9) + 19 * (a9 * b8)) +
      R ^ 4 * (a0 * b8 + 2 * (a1 * b7) + a2 * b6 + 2 * (a3 * b5) + a4 * b4 + 2 * (a5 * b3) + a6 * b2 + 2 * (a7 * b1) + a8 * b0 + 38 * (a9 * b9)) +
      (R ^ 4 * S) * (a0 * b9 + a1 * b8 + a2 * b7 + a3 * b6 + a4 * b5 + a5 * b4 + a6 * b3 + a7 * b2 + a8 * b1 + a9 * b0) + P * k"
proof -
  let ?e = "a0 + R * a2 + R ^ 2 * a4 + R ^ 3 * a6 + R ^ 4 * a8" and ?o = "a1 + R * a3 + R ^ 2 * a5 + R ^ 3 * a7 + R ^ 4 * a9" and ?f = "b0 + R * b2 + R ^ 2 * b4 + R ^ 3 * b6 + R ^ 4 * b8" and ?q = "b1 + R * b3 + R ^ 2 * b5 + R ^ 3 * b7 + R ^ 4 * b9"
  obtain k1 k2 k3 k4 where k:
    "?e * ?f = (a0 * b0 + 19 * a8 * b2 + 19 * a6 * b4 + 19 * a4 * b6 + 19 * a2 * b8) +
      R * (a2 * b0 + a0 * b2 + 19 * a8 * b4 + 19 * a6 * b6 + 19 * a4 * b8) +
      R ^ 2 * (a4 * b0 + a2 * b2 + a0 * b4 + 19 * a8 * b6 + 19 * a6 * b8) +
      R ^ 3 * (a6 * b0 + a4 * b2 + a2 * b4 + a0 * b6 + 19 * a8 * b8) +
      R ^ 4 * (a8 * b0 + a6 * b2 + a4 * b4 + a2 * b6 + a0 * b8) + P * k1"
    "?o * ?q = (a1 * b1 + 19 * a9 * b3 + 19 * a7 * b5 + 19 * a5 * b7 + 19 * a3 * b9) +
      R * (a3 * b1 + a1 * b3 + 19 * a9 * b5 + 19 * a7 * b7 + 19 * a5 * b9) +
      R ^ 2 * (a5 * b1 + a3 * b3 + a1 * b5 + 19 * a9 * b7 + 19 * a7 * b9) +
      R ^ 3 * (a7 * b1 + a5 * b3 + a3 * b5 + a1 * b7 + 19 * a9 * b9) +
      R ^ 4 * (a9 * b1 + a7 * b3 + a5 * b5 + a3 * b7 + a1 * b9) + P * k2"
    "?e * ?q = (a0 * b1 + 19 * a8 * b3 + 19 * a6 * b5 + 19 * a4 * b7 + 19 * a2 * b9) +
      R * (a2 * b1 + a0 * b3 + 19 * a8 * b5 + 19 * a6 * b7 + 19 * a4 * b9) +
      R ^ 2 * (a4 * b1 + a2 * b3 + a0 * b5 + 19 * a8 * b7 + 19 * a6 * b9) +
      R ^ 3 * (a6 * b1 + a4 * b3 + a2 * b5 + a0 * b7 + 19 * a8 * b9) +
      R ^ 4 * (a8 * b1 + a6 * b3 + a4 * b5 + a2 * b7 + a0 * b9) + P * k3"
    "?o * ?f = (a1 * b0 + 19 * a9 * b2 + 19 * a7 * b4 + 19 * a5 * b6 + 19 * a3 * b8) +
      R * (a3 * b0 + a1 * b2 + 19 * a9 * b4 + 19 * a7 * b6 + 19 * a5 * b8) +
      R ^ 2 * (a5 * b0 + a3 * b2 + a1 * b4 + 19 * a9 * b6 + 19 * a7 * b8) +
      R ^ 3 * (a7 * b0 + a5 * b2 + a3 * b4 + a1 * b6 + 19 * a9 * b8) +
      R ^ 4 * (a9 * b0 + a7 * b2 + a5 * b4 + a3 * b6 + a1 * b8) + P * k4"
    using limb_product [OF R, of a0 a2 a4 a6 a8 b0 b2 b4 b6 b8] limb_product [OF R, of a1 a3 a5 a7 a9 b1 b3 b5 b7 b9]
      limb_product [OF R, of a0 a2 a4 a6 a8 b1 b3 b5 b7 b9] limb_product [OF R, of a1 a3 a5 a7 a9 b0 b2 b4 b6 b8] by blast
  have "(?e + S * ?o) * (?f + S * ?q) = ?e * ?f + 2 * R * (?o * ?q) + S * (?e * ?q + ?o * ?f)"
    using S by algebra
  also have "\<dots> = (a0 * b0 + 38 * (a1 * b9) + 19 * (a2 * b8) + 38 * (a3 * b7) + 19 * (a4 * b6) + 38 * (a5 * b5) + 19 * (a6 * b4) + 38 * (a7 * b3) + 19 * (a8 * b2) + 38 * (a9 * b1)) +
      S * (a0 * b1 + a1 * b0 + 19 * (a2 * b9) + 19 * (a3 * b8) + 19 * (a4 * b7) + 19 * (a5 * b6) + 19 * (a6 * b5) + 19 * (a7 * b4) + 19 * (a8 * b3) + 19 * (a9 * b2)) +
      R * (a0 * b2 + 2 * (a1 * b1) + a2 * b0 + 38 * (a3 * b9) + 19 * (a4 * b8) + 38 * (a5 * b7) + 19 * (a6 * b6) + 38 * (a7 * b5) + 19 * (a8 * b4) + 38 * (a9 * b3)) +
      (R * S) * (a0 * b3 + a1 * b2 + a2 * b1 + a3 * b0 + 19 * (a4 * b9) + 19 * (a5 * b8) + 19 * (a6 * b7) + 19 * (a7 * b6) + 19 * (a8 * b5) + 19 * (a9 * b4)) +
      R ^ 2 * (a0 * b4 + 2 * (a1 * b3) + a2 * b2 + 2 * (a3 * b1) + a4 * b0 + 38 * (a5 * b9) + 19 * (a6 * b8) + 38 * (a7 * b7) + 19 * (a8 * b6) + 38 * (a9 * b5)) +
      (R ^ 2 * S) * (a0 * b5 + a1 * b4 + a2 * b3 + a3 * b2 + a4 * b1 + a5 * b0 + 19 * (a6 * b9) + 19 * (a7 * b8) + 19 * (a8 * b7) + 19 * (a9 * b6)) +
      R ^ 3 * (a0 * b6 + 2 * (a1 * b5) + a2 * b4 + 2 * (a3 * b3) + a4 * b2 + 2 * (a5 * b1) + a6 * b0 + 38 * (a7 * b9) + 19 * (a8 * b8) + 38 * (a9 * b7)) +
      (R ^ 3 * S) * (a0 * b7 + a1 * b6 + a2 * b5 + a3 * b4 + a4 * b3 + a5 * b2 + a6 * b1 + a7 * b0 + 19 * (a8 * b9) + 19 * (a9 * b8)) +
      R ^ 4 * (a0 * b8 + 2 * (a1 * b7) + a2 * b6 + 2 * (a3 * b5) + a4 * b4 + 2 * (a5 * b3) + a6 * b2 + 2 * (a7 * b1) + a8 * b0 + 38 * (a9 * b9)) +
      (R ^ 4 * S) * (a0 * b9 + a1 * b8 + a2 * b7 + a3 * b6 + a4 * b5 + a5 * b4 + a6 * b3 + a7 * b2 + a8 * b1 + a9 * b0) + P * (k1 + 2 * R * k2 + S * (k3 + k4) + 2 * (a9 * b1 + a7 * b3 + a5 * b5 + a3 * b7 + a1 * b9))"
    unfolding k using R by algebra
  finally show ?thesis by blast
qed

fun fe_wide_val :: "fe_wide \<Rightarrow> int" where
  "fe_wide_val (t0, t1, t2, t3, t4, t5, t6, t7, t8, t9) = uint t0 + 2 ^ 26 * uint t1 + 2 ^ 51 * uint t2 + 2 ^ 77 * uint t3 + 2 ^ 102 * uint t4 + 2 ^ 128 * uint t5 + 2 ^ 153 * uint t6 + 2 ^ 179 * uint t7 + 2 ^ 204 * uint t8 + 2 ^ 230 * uint t9"

lemma limb_product_255:
  "(a0 + 2 ^ 26 * a1 + 2 ^ 51 * a2 + 2 ^ 77 * a3 + 2 ^ 102 * a4 + 2 ^ 128 * a5 + 2 ^ 153 * a6 + 2 ^ 179 * a7 + 2 ^ 204 * a8 + 2 ^ 230 * a9) * (b0 + 2 ^ 26 * b1 + 2 ^ 51 * b2 + 2 ^ 77 * b3 + 2 ^ 102 * b4 + 2 ^ 128 * b5 + 2 ^ 153 * b6 + 2 ^ 179 * b7 + 2 ^ 204 * b8 + 2 ^ 230 * b9) mod p25519 =
    ((a0 * b0 + 38 * (a1 * b9) + 19 * (a2 * b8) + 38 * (a3 * b7) + 19 * (a4 * b6) + 38 * (a5 * b5) + 19 * (a6 * b4) + 38 * (a7 * b3) + 19 * (a8 * b2) + 38 * (a9 * b1)) +
      2 ^ 26 * (a0 * b1 + a1 * b0 + 19 * (a2 * b9) + 19 * (a3 * b8) + 19 * (a4 * b7) + 19 * (a5 * b6) + 19 * (a6 * b5) + 19 * (a7 * b4) + 19 * (a8 * b3) + 19 * (a9 * b2)) +
      2 ^ 51 * (a0 * b2 + 2 * (a1 * b1) + a2 * b0 + 38 * (a3 * b9) + 19 * (a4 * b8) + 38 * (a5 * b7) + 19 * (a6 * b6) + 38 * (a7 * b5) + 19 * (a8 * b4) + 38 * (a9 * b3)) +
      2 ^ 77 * (a0 * b3 + a1 * b2 + a2 * b1 + a3 * b0 + 19 * (a4 * b9) + 19 * (a5 * b8) + 19 * (a6 * b7) + 19 * (a7 * b6) + 19 * (a8 * b5) + 19 * (a9 * b4)) +
      2 ^ 102 * (a0 * b4 + 2 * (a1 * b3) + a2 * b2 + 2 * (a3 * b1) + a4 * b0 + 38 * (a5 * b9) + 19 * (a6 * b8) + 38 * (a7 * b7) + 19 * (a8 * b6) + 38 * (a9 * b5)) +
      2 ^ 128 * (a0 * b5 + a1 * b4 + a2 * b3 + a3 * b2 + a4 * b1 + a5 * b0 + 19 * (a6 * b9) + 19 * (a7 * b8) + 19 * (a8 * b7) + 19 * (a9 * b6)) +
      2 ^ 153 * (a0 * b6 + 2 * (a1 * b5) + a2 * b4 + 2 * (a3 * b3) + a4 * b2 + 2 * (a5 * b1) + a6 * b0 + 38 * (a7 * b9) + 19 * (a8 * b8) + 38 * (a9 * b7)) +
      2 ^ 179 * (a0 * b7 + a1 * b6 + a2 * b5 + a3 * b4 + a4 * b3 + a5 * b2 + a6 * b1 + a7 * b0 + 19 * (a8 * b9) + 19 * (a9 * b8)) +
      2 ^ 204 * (a0 * b8 + 2 * (a1 * b7) + a2 * b6 + 2 * (a3 * b5) + a4 * b4 + 2 * (a5 * b3) + a6 * b2 + 2 * (a7 * b1) + a8 * b0 + 38 * (a9 * b9)) +
      2 ^ 230 * (a0 * b9 + a1 * b8 + a2 * b7 + a3 * b6 + a4 * b5 + a5 * b4 + a6 * b3 + a7 * b2 + a8 * b1 + a9 * b0)) mod p25519"
proof -
  have R: "(2 ^ 51) ^ 5 = p25519 + 19" unfolding p25519_def by simp
  have S: "(2 ^ 26) * (2 ^ 26) = 2 * (2 ^ 51 :: int)" by simp
  have n: "((2::int) ^ 51) ^ 2 = 2 ^ 102" "((2::int) ^ 51) ^ 3 = 2 ^ 153" "((2::int) ^ 51) ^ 4 = 2 ^ 204"
    "(2::int) ^ 51 * 2 ^ 26 = 2 ^ 77" "(2::int) ^ 102 * 2 ^ 26 = 2 ^ 128" "(2::int) ^ 153 * 2 ^ 26 = 2 ^ 179" "(2::int) ^ 204 * 2 ^ 26 = 2 ^ 230"
    by simp_all
  obtain k where k: "(a0 + 2 ^ 51 * a2 + 2 ^ 102 * a4 + 2 ^ 153 * a6 + 2 ^ 204 * a8 + 2 ^ 26 * (a1 + 2 ^ 51 * a3 + 2 ^ 102 * a5 + 2 ^ 153 * a7 + 2 ^ 204 * a9)) * (b0 + 2 ^ 51 * b2 + 2 ^ 102 * b4 + 2 ^ 153 * b6 + 2 ^ 204 * b8 + 2 ^ 26 * (b1 + 2 ^ 51 * b3 + 2 ^ 102 * b5 + 2 ^ 153 * b7 + 2 ^ 204 * b9)) = (a0 * b0 + 38 * (a1 * b9) + 19 * (a2 * b8) + 38 * (a3 * b7) + 19 * (a4 * b6) + 38 * (a5 * b5) + 19 * (a6 * b4) + 38 * (a7 * b3) + 19 * (a8 * b2) + 38 * (a9 * b1)) +
      2 ^ 26 * (a0 * b1 + a1 * b0 + 19 * (a2 * b9) + 19 * (a3 * b8) + 19 * (a4 * b7) + 19 * (a5 * b6) + 19 * (a6 * b5) + 19 * (a7 * b4) + 19 * (a8 * b3) + 19 * (a9 * b2)) +
      2 ^ 51 * (a0 * b2 + 2 * (a1 * b1) + a2 * b0 + 38 * (a3 * b9) + 19 * (a4 * b8) + 38 * (a5 * b7) + 19 * (a6 * b6) + 38 * (a7 * b5) + 19 * (a8 * b4) + 38 * (a9 * b3)) +
      2 ^ 77 * (a0 * b3 + a1 * b2 + a2 * b1 + a3 * b0 + 19 * (a4 * b9) + 19 * (a5 * b8) + 19 * (a6 * b7) + 19 * (a7 * b6) + 19 * (a8 * b5) + 19 * (a9 * b4)) +
      2 ^ 102 * (a0 * b4 + 2 * (a1 * b3) + a2 * b2 + 2 * (a3 * b1) + a4 * b0 + 38 * (a5 * b9) + 19 * (a6 * b8) + 38 * (a7 * b7) + 19 * (a8 * b6) + 38 * (a9 * b5)) +
      2 ^ 128 * (a0 * b5 + a1 * b4 + a2 * b3 + a3 * b2 + a4 * b1 + a5 * b0 + 19 * (a6 * b9) + 19 * (a7 * b8) + 19 * (a8 * b7) + 19 * (a9 * b6)) +
      2 ^ 153 * (a0 * b6 + 2 * (a1 * b5) + a2 * b4 + 2 * (a3 * b3) + a4 * b2 + 2 * (a5 * b1) + a6 * b0 + 38 * (a7 * b9) + 19 * (a8 * b8) + 38 * (a9 * b7)) +
      2 ^ 179 * (a0 * b7 + a1 * b6 + a2 * b5 + a3 * b4 + a4 * b3 + a5 * b2 + a6 * b1 + a7 * b0 + 19 * (a8 * b9) + 19 * (a9 * b8)) +
      2 ^ 204 * (a0 * b8 + 2 * (a1 * b7) + a2 * b6 + 2 * (a3 * b5) + a4 * b4 + 2 * (a5 * b3) + a6 * b2 + 2 * (a7 * b1) + a8 * b0 + 38 * (a9 * b9)) +
      2 ^ 230 * (a0 * b9 + a1 * b8 + a2 * b7 + a3 * b6 + a4 * b5 + a5 * b4 + a6 * b3 + a7 * b2 + a8 * b1 + a9 * b0) + p25519 * k"
    using limb_product_ten [OF R S, of a0 a2 a4 a6 a8 a1 a3 a5 a7 a9 b0 b2 b4 b6 b8 b1 b3 b5 b7 b9, unfolded n] by blast
  have "a0 + 2 ^ 26 * a1 + 2 ^ 51 * a2 + 2 ^ 77 * a3 + 2 ^ 102 * a4 + 2 ^ 128 * a5 + 2 ^ 153 * a6 + 2 ^ 179 * a7 + 2 ^ 204 * a8 + 2 ^ 230 * a9 = a0 + 2 ^ 51 * a2 + 2 ^ 102 * a4 + 2 ^ 153 * a6 + 2 ^ 204 * a8 + 2 ^ 26 * (a1 + 2 ^ 51 * a3 + 2 ^ 102 * a5 + 2 ^ 153 * a7 + 2 ^ 204 * a9)" "b0 + 2 ^ 26 * b1 + 2 ^ 51 * b2 + 2 ^ 77 * b3 + 2 ^ 102 * b4 + 2 ^ 128 * b5 + 2 ^ 153 * b6 + 2 ^ 179 * b7 + 2 ^ 204 * b8 + 2 ^ 230 * b9 = b0 + 2 ^ 51 * b2 + 2 ^ 102 * b4 + 2 ^ 153 * b6 + 2 ^ 204 * b8 + 2 ^ 26 * (b1 + 2 ^ 51 * b3 + 2 ^ 102 * b5 + 2 ^ 153 * b7 + 2 ^ 204 * b9)" by simp_all
  then show ?thesis using k mod_p_eqI by metis
qed

lemma fe_loose_products:
  assumes "fe_loose (a0, a1, a2, a3, a4, a5, a6, a7, a8, a9)" "fe_loose (b0, b1, b2, b3, b4, b5, b6, b7, b8, b9)" "x \<in> {a0, a1, a2, a3, a4, a5, a6, a7, a8, a9}" "y \<in> {b0, b1, b2, b3, b4, b5, b6, b7, b8, b9}"
  shows "0 \<le> uint x * uint y \<and> uint x * uint y \<le> 51298814505517056"
proof -
  have "uint x < 226492416" "uint y < 226492416" using assms by (auto simp: fe_loose_def)
  then have "uint x * uint y \<le> 226492416 * 226492416" by (intro mult_mono) simp_all
  then show ?thesis by simp
qed

lemma uint_doubled: "uint x < 226492416 \<Longrightarrow> uint (2 * x :: u32) = 2 * uint x" "uint x < 226492416 \<Longrightarrow> uint (4 * x :: u32) = 4 * uint x"
  using uint_u32_mult [of 2 x] uint_u32_mult [of 4 x] by simp_all

lemma uint_limb_sum: "t = of_int c \<Longrightarrow> 0 \<le> c \<Longrightarrow> c < 2 ^ 63 + 2 ^ 62 \<Longrightarrow> uint (t :: u64) = c \<and> uint t < 2 ^ 63 + 2 ^ 62"
  using uint_of_int [of c] by simp

lemma fe_mul_products_val:
  assumes l: "fe_loose (a0, a1, a2, a3, a4, a5, a6, a7, a8, a9)" "fe_loose (b0, b1, b2, b3, b4, b5, b6, b7, b8, b9)" and t: "fe_mul_products (a0, a1, a2, a3, a4, a5, a6, a7, a8, a9) (b0, b1, b2, b3, b4, b5, b6, b7, b8, b9) = (t0, t1, t2, t3, t4, t5, t6, t7, t8, t9)"
  shows "fe_wide_val (t0, t1, t2, t3, t4, t5, t6, t7, t8, t9) mod p25519 = fe_val (a0, a1, a2, a3, a4, a5, a6, a7, a8, a9) * fe_val (b0, b1, b2, b3, b4, b5, b6, b7, b8, b9) mod p25519"
    "uint t0 < 2 ^ 63 + 2 ^ 62" "uint t1 < 2 ^ 63 + 2 ^ 62" "uint t2 < 2 ^ 63 + 2 ^ 62" "uint t3 < 2 ^ 63 + 2 ^ 62" "uint t4 < 2 ^ 63 + 2 ^ 62" "uint t5 < 2 ^ 63 + 2 ^ 62" "uint t6 < 2 ^ 63 + 2 ^ 62" "uint t7 < 2 ^ 63 + 2 ^ 62" "uint t8 < 2 ^ 63 + 2 ^ 62" "uint t9 < 2 ^ 63 + 2 ^ 62"
proof -
  note p = fe_loose_products [OF l]
  have d: "uint (2 * b1) = 2 * uint b1" "uint (2 * b9) = 2 * uint b9"
    using l(2) by (simp_all add: fe_loose_def uint_doubled)
  note e = t [symmetric, unfolded fe_mul_products_def prod.case Let_def prod.inject fold19_eq ucast_u32 d]
  have v0: "uint t0 = uint a0 * uint b0 + 38 * (uint a1 * uint b9) + 19 * (uint a2 * uint b8) + 38 * (uint a3 * uint b7) + 19 * (uint a4 * uint b6) + 38 * (uint a5 * uint b5) + 19 * (uint a6 * uint b4) + 38 * (uint a7 * uint b3) + 19 * (uint a8 * uint b2) + 38 * (uint a9 * uint b1) \<and> uint t0 < 2 ^ 63 + 2 ^ 62"
    by (rule uint_limb_sum, (use e in \<open>simp add: algebra_simps\<close>), insert p [of a0 b0] p [of a1 b9] p [of a2 b8] p [of a3 b7] p [of a4 b6] p [of a5 b5] p [of a6 b4] p [of a7 b3] p [of a8 b2] p [of a9 b1], simp_all)
  have v1: "uint t1 = uint a0 * uint b1 + uint a1 * uint b0 + 19 * (uint a2 * uint b9) + 19 * (uint a3 * uint b8) + 19 * (uint a4 * uint b7) + 19 * (uint a5 * uint b6) + 19 * (uint a6 * uint b5) + 19 * (uint a7 * uint b4) + 19 * (uint a8 * uint b3) + 19 * (uint a9 * uint b2) \<and> uint t1 < 2 ^ 63 + 2 ^ 62"
    by (rule uint_limb_sum, (use e in \<open>simp add: algebra_simps\<close>), insert p [of a0 b1] p [of a1 b0] p [of a2 b9] p [of a3 b8] p [of a4 b7] p [of a5 b6] p [of a6 b5] p [of a7 b4] p [of a8 b3] p [of a9 b2], simp_all)
  have v2: "uint t2 = uint a0 * uint b2 + 2 * (uint a1 * uint b1) + uint a2 * uint b0 + 38 * (uint a3 * uint b9) + 19 * (uint a4 * uint b8) + 38 * (uint a5 * uint b7) + 19 * (uint a6 * uint b6) + 38 * (uint a7 * uint b5) + 19 * (uint a8 * uint b4) + 38 * (uint a9 * uint b3) \<and> uint t2 < 2 ^ 63 + 2 ^ 62"
    by (rule uint_limb_sum, (use e in \<open>simp add: algebra_simps\<close>), insert p [of a0 b2] p [of a1 b1] p [of a2 b0] p [of a3 b9] p [of a4 b8] p [of a5 b7] p [of a6 b6] p [of a7 b5] p [of a8 b4] p [of a9 b3], simp_all)
  have v3: "uint t3 = uint a0 * uint b3 + uint a1 * uint b2 + uint a2 * uint b1 + uint a3 * uint b0 + 19 * (uint a4 * uint b9) + 19 * (uint a5 * uint b8) + 19 * (uint a6 * uint b7) + 19 * (uint a7 * uint b6) + 19 * (uint a8 * uint b5) + 19 * (uint a9 * uint b4) \<and> uint t3 < 2 ^ 63 + 2 ^ 62"
    by (rule uint_limb_sum, (use e in \<open>simp add: algebra_simps\<close>), insert p [of a0 b3] p [of a1 b2] p [of a2 b1] p [of a3 b0] p [of a4 b9] p [of a5 b8] p [of a6 b7] p [of a7 b6] p [of a8 b5] p [of a9 b4], simp_all)
  have v4: "uint t4 = uint a0 * uint b4 + 2 * (uint a1 * uint b3) + uint a2 * uint b2 + 2 * (uint a3 * uint b1) + uint a4 * uint b0 + 38 * (uint a5 * uint b9) + 19 * (uint a6 * uint b8) + 38 * (uint a7 * uint b7) + 19 * (uint a8 * uint b6) + 38 * (uint a9 * uint b5) \<and> uint t4 < 2 ^ 63 + 2 ^ 62"
    by (rule uint_limb_sum, (use e in \<open>simp add: algebra_simps\<close>), insert p [of a0 b4] p [of a1 b3] p [of a2 b2] p [of a3 b1] p [of a4 b0] p [of a5 b9] p [of a6 b8] p [of a7 b7] p [of a8 b6] p [of a9 b5], simp_all)
  have v5: "uint t5 = uint a0 * uint b5 + uint a1 * uint b4 + uint a2 * uint b3 + uint a3 * uint b2 + uint a4 * uint b1 + uint a5 * uint b0 + 19 * (uint a6 * uint b9) + 19 * (uint a7 * uint b8) + 19 * (uint a8 * uint b7) + 19 * (uint a9 * uint b6) \<and> uint t5 < 2 ^ 63 + 2 ^ 62"
    by (rule uint_limb_sum, (use e in \<open>simp add: algebra_simps\<close>), insert p [of a0 b5] p [of a1 b4] p [of a2 b3] p [of a3 b2] p [of a4 b1] p [of a5 b0] p [of a6 b9] p [of a7 b8] p [of a8 b7] p [of a9 b6], simp_all)
  have v6: "uint t6 = uint a0 * uint b6 + 2 * (uint a1 * uint b5) + uint a2 * uint b4 + 2 * (uint a3 * uint b3) + uint a4 * uint b2 + 2 * (uint a5 * uint b1) + uint a6 * uint b0 + 38 * (uint a7 * uint b9) + 19 * (uint a8 * uint b8) + 38 * (uint a9 * uint b7) \<and> uint t6 < 2 ^ 63 + 2 ^ 62"
    by (rule uint_limb_sum, (use e in \<open>simp add: algebra_simps\<close>), insert p [of a0 b6] p [of a1 b5] p [of a2 b4] p [of a3 b3] p [of a4 b2] p [of a5 b1] p [of a6 b0] p [of a7 b9] p [of a8 b8] p [of a9 b7], simp_all)
  have v7: "uint t7 = uint a0 * uint b7 + uint a1 * uint b6 + uint a2 * uint b5 + uint a3 * uint b4 + uint a4 * uint b3 + uint a5 * uint b2 + uint a6 * uint b1 + uint a7 * uint b0 + 19 * (uint a8 * uint b9) + 19 * (uint a9 * uint b8) \<and> uint t7 < 2 ^ 63 + 2 ^ 62"
    by (rule uint_limb_sum, (use e in \<open>simp add: algebra_simps\<close>), insert p [of a0 b7] p [of a1 b6] p [of a2 b5] p [of a3 b4] p [of a4 b3] p [of a5 b2] p [of a6 b1] p [of a7 b0] p [of a8 b9] p [of a9 b8], simp_all)
  have v8: "uint t8 = uint a0 * uint b8 + 2 * (uint a1 * uint b7) + uint a2 * uint b6 + 2 * (uint a3 * uint b5) + uint a4 * uint b4 + 2 * (uint a5 * uint b3) + uint a6 * uint b2 + 2 * (uint a7 * uint b1) + uint a8 * uint b0 + 38 * (uint a9 * uint b9) \<and> uint t8 < 2 ^ 63 + 2 ^ 62"
    by (rule uint_limb_sum, (use e in \<open>simp add: algebra_simps\<close>), insert p [of a0 b8] p [of a1 b7] p [of a2 b6] p [of a3 b5] p [of a4 b4] p [of a5 b3] p [of a6 b2] p [of a7 b1] p [of a8 b0] p [of a9 b9], simp_all)
  have v9: "uint t9 = uint a0 * uint b9 + uint a1 * uint b8 + uint a2 * uint b7 + uint a3 * uint b6 + uint a4 * uint b5 + uint a5 * uint b4 + uint a6 * uint b3 + uint a7 * uint b2 + uint a8 * uint b1 + uint a9 * uint b0 \<and> uint t9 < 2 ^ 63 + 2 ^ 62"
    by (rule uint_limb_sum, (use e in \<open>simp add: algebra_simps\<close>), insert p [of a0 b9] p [of a1 b8] p [of a2 b7] p [of a3 b6] p [of a4 b5] p [of a5 b4] p [of a6 b3] p [of a7 b2] p [of a8 b1] p [of a9 b0], simp_all)
  show "uint t0 < 2 ^ 63 + 2 ^ 62" "uint t1 < 2 ^ 63 + 2 ^ 62" "uint t2 < 2 ^ 63 + 2 ^ 62" "uint t3 < 2 ^ 63 + 2 ^ 62" "uint t4 < 2 ^ 63 + 2 ^ 62" "uint t5 < 2 ^ 63 + 2 ^ 62" "uint t6 < 2 ^ 63 + 2 ^ 62" "uint t7 < 2 ^ 63 + 2 ^ 62" "uint t8 < 2 ^ 63 + 2 ^ 62" "uint t9 < 2 ^ 63 + 2 ^ 62"
    using v0 v1 v2 v3 v4 v5 v6 v7 v8 v9 by simp_all
  show "fe_wide_val (t0, t1, t2, t3, t4, t5, t6, t7, t8, t9) mod p25519 = fe_val (a0, a1, a2, a3, a4, a5, a6, a7, a8, a9) * fe_val (b0, b1, b2, b3, b4, b5, b6, b7, b8, b9) mod p25519"
    unfolding fe_wide_val.simps fe_val.simps limb_product_255 unfolding v0 [THEN conjunct1] v1 [THEN conjunct1] v2 [THEN conjunct1] v3 [THEN conjunct1] v4 [THEN conjunct1] v5 [THEN conjunct1] v6 [THEN conjunct1] v7 [THEN conjunct1] v8 [THEN conjunct1] v9 [THEN conjunct1] ..
qed

lemma fe_sqr_products_val:
  assumes l: "fe_loose (a0, a1, a2, a3, a4, a5, a6, a7, a8, a9)" and t: "fe_sqr_products (a0, a1, a2, a3, a4, a5, a6, a7, a8, a9) = (t0, t1, t2, t3, t4, t5, t6, t7, t8, t9)"
  shows "fe_wide_val (t0, t1, t2, t3, t4, t5, t6, t7, t8, t9) mod p25519 = fe_val (a0, a1, a2, a3, a4, a5, a6, a7, a8, a9) * fe_val (a0, a1, a2, a3, a4, a5, a6, a7, a8, a9) mod p25519"
    "uint t0 < 2 ^ 63 + 2 ^ 62" "uint t1 < 2 ^ 63 + 2 ^ 62" "uint t2 < 2 ^ 63 + 2 ^ 62" "uint t3 < 2 ^ 63 + 2 ^ 62" "uint t4 < 2 ^ 63 + 2 ^ 62" "uint t5 < 2 ^ 63 + 2 ^ 62" "uint t6 < 2 ^ 63 + 2 ^ 62" "uint t7 < 2 ^ 63 + 2 ^ 62" "uint t8 < 2 ^ 63 + 2 ^ 62" "uint t9 < 2 ^ 63 + 2 ^ 62"
proof -
  note p = fe_loose_products [OF l l]
  have d: "uint (2 * a0) = 2 * uint a0" "uint (4 * a1) = 4 * uint a1" "uint (2 * a1) = 2 * uint a1" "uint (2 * a5) = 2 * uint a5"
    "uint (4 * a7) = 4 * uint a7" "uint (2 * a8) = 2 * uint a8" "uint (2 * a9) = 2 * uint a9"
    using l by (simp_all add: fe_loose_def uint_doubled)
  note e = t [symmetric, unfolded fe_sqr_products_def prod.case Let_def prod.inject fold19_eq ucast_u32 d]
  have v0: "uint t0 = (uint a0 * uint a0) + 76 * (uint a1 * uint a9) + 38 * (uint a2 * uint a8) + 76 * (uint a3 * uint a7) + 38 * (uint a4 * uint a6) + 38 * (uint a5 * uint a5) \<and> uint t0 < 2 ^ 63 + 2 ^ 62"
    by (rule uint_limb_sum, (use e in \<open>simp add: algebra_simps\<close>), insert p [of a0 a0] p [of a1 a9] p [of a2 a8] p [of a3 a7] p [of a4 a6] p [of a5 a5], simp_all)
  have v1: "uint t1 = 2 * (uint a0 * uint a1) + 38 * (uint a2 * uint a9) + 38 * (uint a3 * uint a8) + 38 * (uint a4 * uint a7) + 38 * (uint a5 * uint a6) \<and> uint t1 < 2 ^ 63 + 2 ^ 62"
    by (rule uint_limb_sum, (use e in \<open>simp add: algebra_simps\<close>), insert p [of a0 a1] p [of a2 a9] p [of a3 a8] p [of a4 a7] p [of a5 a6], simp_all)
  have v2: "uint t2 = 2 * (uint a0 * uint a2) + 2 * (uint a1 * uint a1) + 76 * (uint a3 * uint a9) + 38 * (uint a4 * uint a8) + 76 * (uint a5 * uint a7) + 19 * (uint a6 * uint a6) \<and> uint t2 < 2 ^ 63 + 2 ^ 62"
    by (rule uint_limb_sum, (use e in \<open>simp add: algebra_simps\<close>), insert p [of a0 a2] p [of a1 a1] p [of a3 a9] p [of a4 a8] p [of a5 a7] p [of a6 a6], simp_all)
  have v3: "uint t3 = 2 * (uint a0 * uint a3) + 2 * (uint a1 * uint a2) + 38 * (uint a4 * uint a9) + 38 * (uint a5 * uint a8) + 38 * (uint a6 * uint a7) \<and> uint t3 < 2 ^ 63 + 2 ^ 62"
    by (rule uint_limb_sum, (use e in \<open>simp add: algebra_simps\<close>), insert p [of a0 a3] p [of a1 a2] p [of a4 a9] p [of a5 a8] p [of a6 a7], simp_all)
  have v4: "uint t4 = 2 * (uint a0 * uint a4) + 4 * (uint a1 * uint a3) + (uint a2 * uint a2) + 76 * (uint a5 * uint a9) + 38 * (uint a6 * uint a8) + 38 * (uint a7 * uint a7) \<and> uint t4 < 2 ^ 63 + 2 ^ 62"
    by (rule uint_limb_sum, (use e in \<open>simp add: algebra_simps\<close>), insert p [of a0 a4] p [of a1 a3] p [of a2 a2] p [of a5 a9] p [of a6 a8] p [of a7 a7], simp_all)
  have v5: "uint t5 = 2 * (uint a0 * uint a5) + 2 * (uint a1 * uint a4) + 2 * (uint a2 * uint a3) + 38 * (uint a6 * uint a9) + 38 * (uint a7 * uint a8) \<and> uint t5 < 2 ^ 63 + 2 ^ 62"
    by (rule uint_limb_sum, (use e in \<open>simp add: algebra_simps\<close>), insert p [of a0 a5] p [of a1 a4] p [of a2 a3] p [of a6 a9] p [of a7 a8], simp_all)
  have v6: "uint t6 = 2 * (uint a0 * uint a6) + 4 * (uint a1 * uint a5) + 2 * (uint a2 * uint a4) + 2 * (uint a3 * uint a3) + 76 * (uint a7 * uint a9) + 19 * (uint a8 * uint a8) \<and> uint t6 < 2 ^ 63 + 2 ^ 62"
    by (rule uint_limb_sum, (use e in \<open>simp add: algebra_simps\<close>), insert p [of a0 a6] p [of a1 a5] p [of a2 a4] p [of a3 a3] p [of a7 a9] p [of a8 a8], simp_all)
  have v7: "uint t7 = 2 * (uint a0 * uint a7) + 2 * (uint a1 * uint a6) + 2 * (uint a2 * uint a5) + 2 * (uint a3 * uint a4) + 38 * (uint a8 * uint a9) \<and> uint t7 < 2 ^ 63 + 2 ^ 62"
    by (rule uint_limb_sum, (use e in \<open>simp add: algebra_simps\<close>), insert p [of a0 a7] p [of a1 a6] p [of a2 a5] p [of a3 a4] p [of a8 a9], simp_all)
  have v8: "uint t8 = 2 * (uint a0 * uint a8) + 4 * (uint a1 * uint a7) + 2 * (uint a2 * uint a6) + 4 * (uint a3 * uint a5) + (uint a4 * uint a4) + 38 * (uint a9 * uint a9) \<and> uint t8 < 2 ^ 63 + 2 ^ 62"
    by (rule uint_limb_sum, (use e in \<open>simp add: algebra_simps\<close>), insert p [of a0 a8] p [of a1 a7] p [of a2 a6] p [of a3 a5] p [of a4 a4] p [of a9 a9], simp_all)
  have v9: "uint t9 = 2 * (uint a0 * uint a9) + 2 * (uint a1 * uint a8) + 2 * (uint a2 * uint a7) + 2 * (uint a3 * uint a6) + 2 * (uint a4 * uint a5) \<and> uint t9 < 2 ^ 63 + 2 ^ 62"
    by (rule uint_limb_sum, (use e in \<open>simp add: algebra_simps\<close>), insert p [of a0 a9] p [of a1 a8] p [of a2 a7] p [of a3 a6] p [of a4 a5], simp_all)
  show "uint t0 < 2 ^ 63 + 2 ^ 62" "uint t1 < 2 ^ 63 + 2 ^ 62" "uint t2 < 2 ^ 63 + 2 ^ 62" "uint t3 < 2 ^ 63 + 2 ^ 62" "uint t4 < 2 ^ 63 + 2 ^ 62" "uint t5 < 2 ^ 63 + 2 ^ 62" "uint t6 < 2 ^ 63 + 2 ^ 62" "uint t7 < 2 ^ 63 + 2 ^ 62" "uint t8 < 2 ^ 63 + 2 ^ 62" "uint t9 < 2 ^ 63 + 2 ^ 62"
    using v0 v1 v2 v3 v4 v5 v6 v7 v8 v9 by simp_all
  show "fe_wide_val (t0, t1, t2, t3, t4, t5, t6, t7, t8, t9) mod p25519 = fe_val (a0, a1, a2, a3, a4, a5, a6, a7, a8, a9) * fe_val (a0, a1, a2, a3, a4, a5, a6, a7, a8, a9) mod p25519"
    unfolding fe_wide_val.simps fe_val.simps limb_product_255 unfolding v0 [THEN conjunct1] v1 [THEN conjunct1] v2 [THEN conjunct1] v3 [THEN conjunct1] v4 [THEN conjunct1] v5 [THEN conjunct1] v6 [THEN conjunct1] v7 [THEN conjunct1] v8 [THEN conjunct1] v9 [THEN conjunct1]
    by (rule arg_cong [where f = "\<lambda>x. x mod p25519"]) (simp add: algebra_simps)
qed

subsection \<open>Carries\<close>

lemma masks: "(0x3ffffff :: u32) = mask 26" "(0x1ffffff :: u32) = mask 25"
  by (simp_all add: mask_eq_exp_minus_1)

lemma uint_low: "n \<le> 32 \<Longrightarrow> uint ((ucast (x :: u64) :: u32) AND mask n) = uint x mod 2 ^ n"
  unfolding take_bit_eq_mod [symmetric]
  by (rule bit_eqI) (auto simp: bit_uint_iff bit_and_iff bit_ucast_iff bit_mask_iff bit_take_bit_iff)

lemma uint_low_u32: "uint (x AND mask n :: u32) = uint x mod 2 ^ n"
  unfolding take_bit_eq_mod [symmetric] take_bit_eq_mask [symmetric] by (rule unsigned_take_bit_eq)

lemma uint_low26: "uint ((ucast (x :: u64) :: u32) AND 0x3ffffff) = uint x mod 2 ^ 26"
  unfolding masks by (rule uint_low) simp

lemma uint_low25: "uint ((ucast (x :: u64) :: u32) AND 0x1ffffff) = uint x mod 2 ^ 25"
  unfolding masks by (rule uint_low) simp

lemma uint_low25_u32: "uint (x AND 0x1ffffff :: u32) = uint x mod 2 ^ 25"
  unfolding masks by (rule uint_low_u32)

lemma uint_shift: "uint (drop_bit n x) = uint (x :: 'a :: len word) div 2 ^ n"
  unfolding drop_bit_eq_div [symmetric] by (rule bit_eqI) (auto simp: bit_uint_iff bit_drop_bit_eq dest: bit_imp_le_length)

lemma carry_limb:
  assumes "uint c < 2 ^ 63 + 2 ^ 62" "n = 25 \<or> n = 26"
  shows "uint (drop_bit n s + c :: u64) = uint s div 2 ^ n + uint c" "0 \<le> uint s div 2 ^ n" "uint s div 2 ^ n < 2 ^ 39"
proof -
  show d: "0 \<le> uint s div 2 ^ n" "uint s div 2 ^ n < 2 ^ 39"
    using assms(2) uint_bounded [of s] by (auto simp: pos_imp_zdiv_nonneg_iff div_less_iff_less_mult)
  have "uint (drop_bit n s) = uint s div 2 ^ n" by (rule uint_shift)
  then show "uint (drop_bit n s + c) = uint s div 2 ^ n + uint c"
    using d assms(1) by (simp add: uint_word_ariths(1) take_bit_int_eq_self)
qed

lemma carry_telescope_ten:
  fixes c0 :: int
  assumes "c0 = 2 ^ 26 * q0 + r0" "q0 + c1 = 2 ^ 25 * q1 + r1" "q1 + c2 = 2 ^ 26 * q2 + r2" "q2 + c3 = 2 ^ 25 * q3 + r3" "q3 + c4 = 2 ^ 26 * q4 + r4" "q4 + c5 = 2 ^ 25 * q5 + r5" "q5 + c6 = 2 ^ 26 * q6 + r6" "q6 + c7 = 2 ^ 25 * q7 + r7" "q7 + c8 = 2 ^ 26 * q8 + r8" "q8 + c9 = 2 ^ 25 * q9 + r9" "r0 + 19 * q9 = 2 ^ 26 * e0 + v0" "e0 + r1 = 2 ^ 25 * e1 + v1"
  shows "v0 + 2 ^ 26 * v1 + 2 ^ 51 * (e1 + r2) + 2 ^ 77 * r3 + 2 ^ 102 * r4 + 2 ^ 128 * r5 + 2 ^ 153 * r6 + 2 ^ 179 * r7 + 2 ^ 204 * r8 + 2 ^ 230 * r9 = c0 + 2 ^ 26 * c1 + 2 ^ 51 * c2 + 2 ^ 77 * c3 + 2 ^ 102 * c4 + 2 ^ 128 * c5 + 2 ^ 153 * c6 + 2 ^ 179 * c7 + 2 ^ 204 * c8 + 2 ^ 230 * c9 + p25519 * (- q9)"
proof -
  have "r0 = c0 - 2 ^ 26 * q0" "r1 = q0 + c1 - 2 ^ 25 * q1" "r2 = q1 + c2 - 2 ^ 26 * q2" "r3 = q2 + c3 - 2 ^ 25 * q3" "r4 = q3 + c4 - 2 ^ 26 * q4" "r5 = q4 + c5 - 2 ^ 25 * q5" "r6 = q5 + c6 - 2 ^ 26 * q6" "r7 = q6 + c7 - 2 ^ 25 * q7" "r8 = q7 + c8 - 2 ^ 26 * q8" "r9 = q8 + c9 - 2 ^ 25 * q9" "v0 = r0 + 19 * q9 - 2 ^ 26 * e0" "v1 = e0 + r1 - 2 ^ 25 * e1"
    using assms by linarith+
  then show ?thesis by (simp add: p25519_def algebra_simps)
qed

text \<open>The carry out of the last limb goes into the first, with a factor of 19, and two limbs further.\<close>

lemma top_carry_words:
  assumes t0: "t0 = ucast ((ucast (c0 :: u64) :: u32) AND 0x3ffffff) + 0x13 * drop_bit 25 (s9 :: u64)" and q: "q = uint s9 div 2 ^ 25"
    and t1: "t1 = (ucast (drop_bit 26 t0) :: u32) + ((ucast (s1 :: u64) :: u32) AND 0x1ffffff)"
  shows "uint t0 = uint c0 mod 2 ^ 26 + 19 * q" "uint t1 = uint t0 div 2 ^ 26 + uint s1 mod 2 ^ 25" "uint t1 < 2 ^ 26"
    "uint (drop_bit 25 t1 + ((ucast (s2 :: u64) :: u32) AND 0x3ffffff)) = uint t1 div 2 ^ 25 + uint s2 mod 2 ^ 26"
proof -
  have q': "0 \<le> q" "q < 2 ^ 39" using carry_limb(2,3) [of 0 25 s9] by (simp_all add: q)
  have m: "uint c0 mod 2 ^ 26 < 2 ^ 26" "uint s1 mod 2 ^ 25 < 2 ^ 25" "uint s2 mod 2 ^ 26 < 2 ^ 26" by simp_all
  have d: "uint (drop_bit 25 s9) = q" unfolding q by (rule uint_shift)
  have "t0 = of_int (uint c0 mod 2 ^ 26 + 19 * q)"
    unfolding t0 ucast_u32 uint_low26 by (simp add: d [symmetric])
  then show a: "uint t0 = uint c0 mod 2 ^ 26 + 19 * q" using uint_of_int [of "uint c0 mod 2 ^ 26 + 19 * q"] q' m by simp
  then have b: "uint t0 div 2 ^ 26 < 2 ^ 18" "0 \<le> uint t0 div 2 ^ 26" using q' m by (simp_all add: div_less_iff_less_mult pos_imp_zdiv_nonneg_iff)
  have "uint (ucast (drop_bit 26 t0) :: u32) = uint t0 div 2 ^ 26"
    using b by (simp only: unsigned_ucast_eq uint_shift) (simp add: take_bit_int_eq_self)
  then show c: "uint t1 = uint t0 div 2 ^ 26 + uint s1 mod 2 ^ 25"
    unfolding t1 using uint_u32_add [of "ucast (drop_bit 26 t0)" "(ucast s1 :: u32) AND 0x1ffffff"] b m by (simp add: uint_low25)
  then show "uint t1 < 2 ^ 26" using b m by simp
  then have f: "uint t1 div 2 ^ 25 < 2" by (simp add: div_less_iff_less_mult)
  have "uint (drop_bit 25 t1) = uint t1 div 2 ^ 25" by (rule uint_shift)
  then show "uint (drop_bit 25 t1 + ((ucast s2 :: u32) AND 0x3ffffff)) = uint t1 div 2 ^ 25 + uint s2 mod 2 ^ 26"
    using uint_u32_add [of "drop_bit 25 t1" "(ucast s2 :: u32) AND 0x3ffffff"] f m by (simp add: uint_low26)
qed

lemma fe_carry_val:
  assumes c: "uint c0 < 2 ^ 63 + 2 ^ 62" "uint c1 < 2 ^ 63 + 2 ^ 62" "uint c2 < 2 ^ 63 + 2 ^ 62" "uint c3 < 2 ^ 63 + 2 ^ 62" "uint c4 < 2 ^ 63 + 2 ^ 62" "uint c5 < 2 ^ 63 + 2 ^ 62" "uint c6 < 2 ^ 63 + 2 ^ 62" "uint c7 < 2 ^ 63 + 2 ^ 62" "uint c8 < 2 ^ 63 + 2 ^ 62" "uint c9 < 2 ^ 63 + 2 ^ 62"
  shows "fe_tight (fe_carry (c0, c1, c2, c3, c4, c5, c6, c7, c8, c9))" "fe_val (fe_carry (c0, c1, c2, c3, c4, c5, c6, c7, c8, c9)) mod p25519 = fe_wide_val (c0, c1, c2, c3, c4, c5, c6, c7, c8, c9) mod p25519"
proof -
  define s1 s2 s3 s4 s5 s6 s7 s8 s9 where s: "s1 = drop_bit 26 c0 + c1" "s2 = drop_bit 25 s1 + c2" "s3 = drop_bit 26 s2 + c3" "s4 = drop_bit 25 s3 + c4" "s5 = drop_bit 26 s4 + c5" "s6 = drop_bit 25 s5 + c6" "s7 = drop_bit 26 s6 + c7" "s8 = drop_bit 25 s7 + c8" "s9 = drop_bit 26 s8 + c9"
  have v: "uint s1 = uint c0 div 2 ^ 26 + uint c1" "uint s2 = uint s1 div 2 ^ 25 + uint c2" "uint s3 = uint s2 div 2 ^ 26 + uint c3" "uint s4 = uint s3 div 2 ^ 25 + uint c4" "uint s5 = uint s4 div 2 ^ 26 + uint c5" "uint s6 = uint s5 div 2 ^ 25 + uint c6" "uint s7 = uint s6 div 2 ^ 26 + uint c7" "uint s8 = uint s7 div 2 ^ 25 + uint c8" "uint s9 = uint s8 div 2 ^ 26 + uint c9"
    unfolding s by (rule carry_limb(1); use c in simp)+
  define q where "q = uint s9 div 2 ^ 25"
  define t0 where "t0 = ucast ((ucast c0 :: u32) AND 0x3ffffff) + 0x13 * drop_bit 25 s9"
  define t1 where "t1 = (ucast (drop_bit 26 t0) :: u32) + ((ucast s1 :: u32) AND 0x1ffffff)"
  note t = top_carry_words [OF t0_def q_def t1_def]
  have e: "fe_carry (c0, c1, c2, c3, c4, c5, c6, c7, c8, c9) = ((ucast t0 :: u32) AND 0x3ffffff, t1 AND 0x1ffffff, drop_bit 25 t1 + ((ucast s2 :: u32) AND 0x3ffffff), (ucast s3 :: u32) AND 0x1ffffff, (ucast s4 :: u32) AND 0x3ffffff, (ucast s5 :: u32) AND 0x1ffffff, (ucast s6 :: u32) AND 0x3ffffff, (ucast s7 :: u32) AND 0x1ffffff, (ucast s8 :: u32) AND 0x3ffffff, (ucast s9 :: u32) AND 0x1ffffff)"
    unfolding fe_carry_def prod.case Let_def s t0_def t1_def ..
  have u: "uint ((ucast t0 :: u32) AND 0x3ffffff) = uint t0 mod 2 ^ 26" "uint (t1 AND 0x1ffffff) = uint t1 mod 2 ^ 25" "uint (drop_bit 25 t1 + ((ucast s2 :: u32) AND 0x3ffffff)) = uint t1 div 2 ^ 25 + uint s2 mod 2 ^ 26" "uint ((ucast s3 :: u32) AND 0x1ffffff) = uint s3 mod 2 ^ 25" "uint ((ucast s4 :: u32) AND 0x3ffffff) = uint s4 mod 2 ^ 26" "uint ((ucast s5 :: u32) AND 0x1ffffff) = uint s5 mod 2 ^ 25" "uint ((ucast s6 :: u32) AND 0x3ffffff) = uint s6 mod 2 ^ 26" "uint ((ucast s7 :: u32) AND 0x1ffffff) = uint s7 mod 2 ^ 25" "uint ((ucast s8 :: u32) AND 0x3ffffff) = uint s8 mod 2 ^ 26" "uint ((ucast s9 :: u32) AND 0x1ffffff) = uint s9 mod 2 ^ 25"
    by (rule uint_low26 uint_low25 uint_low25_u32 t(4))+
  have b: "uint t1 div 2 ^ 25 < 2" using t(3) by (simp add: div_less_iff_less_mult)
  have m: "x mod 2 ^ 26 < 2 * (9 * 2 ^ 22)" "x mod 2 ^ 25 < 9 * 2 ^ 22" "uint t1 div 2 ^ 25 + x mod 2 ^ 26 < 2 * (9 * 2 ^ 22)" for x :: int
    using pos_mod_bound [of "2 ^ 26" x] pos_mod_bound [of "2 ^ 25" x] b by simp_all
  show "fe_tight (fe_carry (c0, c1, c2, c3, c4, c5, c6, c7, c8, c9))" unfolding e fe_tight_def fe_below.simps u by (intro conjI m)
  have "uint c0 = 2 ^ 26 * (uint c0 div 2 ^ 26) + uint c0 mod 2 ^ 26" "uint c0 div 2 ^ 26 + uint c1 = 2 ^ 25 * (uint s1 div 2 ^ 25) + uint s1 mod 2 ^ 25" "uint s1 div 2 ^ 25 + uint c2 = 2 ^ 26 * (uint s2 div 2 ^ 26) + uint s2 mod 2 ^ 26" "uint s2 div 2 ^ 26 + uint c3 = 2 ^ 25 * (uint s3 div 2 ^ 25) + uint s3 mod 2 ^ 25" "uint s3 div 2 ^ 25 + uint c4 = 2 ^ 26 * (uint s4 div 2 ^ 26) + uint s4 mod 2 ^ 26" "uint s4 div 2 ^ 26 + uint c5 = 2 ^ 25 * (uint s5 div 2 ^ 25) + uint s5 mod 2 ^ 25" "uint s5 div 2 ^ 25 + uint c6 = 2 ^ 26 * (uint s6 div 2 ^ 26) + uint s6 mod 2 ^ 26" "uint s6 div 2 ^ 26 + uint c7 = 2 ^ 25 * (uint s7 div 2 ^ 25) + uint s7 mod 2 ^ 25" "uint s7 div 2 ^ 25 + uint c8 = 2 ^ 26 * (uint s8 div 2 ^ 26) + uint s8 mod 2 ^ 26" "uint s8 div 2 ^ 26 + uint c9 = 2 ^ 25 * q + uint s9 mod 2 ^ 25" "uint c0 mod 2 ^ 26 + 19 * q = 2 ^ 26 * (uint t0 div 2 ^ 26) + uint t0 mod 2 ^ 26" "uint t0 div 2 ^ 26 + uint s1 mod 2 ^ 25 = 2 ^ 25 * (uint t1 div 2 ^ 25) + uint t1 mod 2 ^ 25"
    unfolding v [symmetric] t(2) [symmetric] t(1) [symmetric] unfolding q_def by simp_all
  from carry_telescope_ten [OF this]
  show "fe_val (fe_carry (c0, c1, c2, c3, c4, c5, c6, c7, c8, c9)) mod p25519 = fe_wide_val (c0, c1, c2, c3, c4, c5, c6, c7, c8, c9) mod p25519"
    unfolding e fe_val.simps fe_wide_val.simps u by (rule mod_p_eqI)
qed

subsection \<open>The field\<close>

lemma fe_mul_correct:
  assumes "fe_loose a" "fe_loose b"
  shows "fe_tight (fe_mul a b)" "fe_val (fe_mul a b) mod p25519 = fe_val a * fe_val b mod p25519"
proof -
  obtain a0 a1 a2 a3 a4 a5 a6 a7 a8 a9 where a: "a = (a0, a1, a2, a3, a4, a5, a6, a7, a8, a9)" by (rule fe_cases)
  obtain b0 b1 b2 b3 b4 b5 b6 b7 b8 b9 where b: "b = (b0, b1, b2, b3, b4, b5, b6, b7, b8, b9)" by (rule fe_cases)
  obtain t0 t1 t2 t3 t4 t5 t6 t7 t8 t9 where t: "fe_mul_products a b = (t0, t1, t2, t3, t4, t5, t6, t7, t8, t9)" by (rule fe_wide_cases)
  note p = fe_mul_products_val [OF assms [unfolded a b] t [unfolded a b]]
  note c = fe_carry_val [OF p(2-)]
  show "fe_tight (fe_mul a b)" unfolding fe_mul_def t by (rule c(1))
  show "fe_val (fe_mul a b) mod p25519 = fe_val a * fe_val b mod p25519" unfolding fe_mul_def t c(2) p(1) unfolding a b ..
qed

lemma fe_sq_correct:
  assumes "fe_loose a"
  shows "fe_tight (fe_sq a)" "fe_val (fe_sq a) mod p25519 = fe_val a * fe_val a mod p25519"
proof -
  obtain a0 a1 a2 a3 a4 a5 a6 a7 a8 a9 where a: "a = (a0, a1, a2, a3, a4, a5, a6, a7, a8, a9)" by (rule fe_cases)
  obtain t0 t1 t2 t3 t4 t5 t6 t7 t8 t9 where t: "fe_sqr_products a = (t0, t1, t2, t3, t4, t5, t6, t7, t8, t9)" by (rule fe_wide_cases)
  note p = fe_sqr_products_val [OF assms [unfolded a] t [unfolded a]]
  note c = fe_carry_val [OF p(2-)]
  show "fe_tight (fe_sq a)" unfolding fe_sq_def t by (rule c(1))
  show "fe_val (fe_sq a) mod p25519 = fe_val a * fe_val a mod p25519" unfolding fe_sq_def t c(2) p(1) unfolding a ..
qed

lemma fe_mul121666_correct:
  assumes "fe_loose a"
  shows "fe_tight (fe_mul121666 a)" "fe_val (fe_mul121666 a) mod p25519 = fe_val a * 121666 mod p25519"
proof -
  have "fe_loose (121666, 0, 0, 0, 0, 0, 0, 0, 0, 0)" by (simp add: fe_loose_def)
  from fe_mul_correct [OF assms this]
  show "fe_tight (fe_mul121666 a)" "fe_val (fe_mul121666 a) mod p25519 = fe_val a * 121666 mod p25519"
    by (simp_all add: fe_mul_def fe_mul121666_def)
qed

interpretation fiat: ladder_field fe_val fe_tight fe_loose fe_mul fe_sq fe_add fe_sub
  by unfold_locales (simp_all add: fe_loose_tight fe_mul_correct fe_sq_correct fe_add_correct fe_sub_correct)

end
