(* ===== verification/Wg_Fiat_Ladder.thy ===== *)
theory Wg_Fiat_Ladder
  imports Wg_Fiat_Field
begin

text \<open>
  The inversion and the ladder of \<open>curve25519-fiat32.h\<close>: the inversion raises to the power \<open>2 ^ 255 - 21\<close>, and the
  loop, which puts off every second swap, takes the steps of the ladder of RFC 7748 over the 255 bits of the scalar.
\<close>

subsection \<open>Inversion\<close>

lemma fe_loose_invert_rep:
  assumes "fe_tight z" and n: "n = 2 ^ 255 - 21"
  shows "fiat.rep (fe_loose_invert z) (fe_val z ^ n)"
proof -
  define x where "x = fe_val z"
  have z: "fiat.rep_loose z (x ^ 1)" using assms fiat.rep_loose [OF fiat.rep_val(1)] by (simp add: x_def)
  note t = fiat.rep_power_sqr_times and s = fiat.rep_power_sqr and m = fiat.rep_power_mul and l = fiat.rep_loose
  define a0 where a0: "a0 = fe_sq z"
  have ra0: "fiat.rep a0 (x ^ 2)" unfolding a0 using s [OF z] by simp
  define b0 where b0: "b0 = fe_mul z ((fe_sq ^^ (2 - 1)) (fe_sq a0))"
  have rb0: "fiat.rep b0 (x ^ 9)" unfolding b0 by (rule m [OF z l [OF t [OF l [OF ra0]]]]) simp_all
  define a1 where a1: "a1 = fe_mul a0 b0"
  have ra1: "fiat.rep a1 (x ^ 11)" unfolding a1 by (rule m [OF l [OF ra0] l [OF rb0]]) simp
  define b1 where b1: "b1 = fe_mul b0 (fe_sq a1)"
  have rb1: "fiat.rep b1 (x ^ (2 ^ 5 - 1))" unfolding b1 by (rule m [OF l [OF rb0] l [OF s [OF l [OF ra1]]]]) simp
  define b2 where b2: "b2 = fe_mul ((fe_sq ^^ (5 - 1)) (fe_sq b1)) b1"
  have rb2: "fiat.rep b2 (x ^ (2 ^ 10 - 1))" unfolding b2 by (rule m [OF l [OF t [OF l [OF rb1]]] l [OF rb1]]) simp_all
  define c0 where c0: "c0 = fe_mul ((fe_sq ^^ (10 - 1)) (fe_sq b2)) b2"
  have rc0: "fiat.rep c0 (x ^ (2 ^ 20 - 1))" unfolding c0 by (rule m [OF l [OF t [OF l [OF rb2]]] l [OF rb2]]) simp_all
  define t1 where t1: "t1 = fe_mul ((fe_sq ^^ (20 - 1)) (fe_sq c0)) c0"
  have rt1: "fiat.rep t1 (x ^ (2 ^ 40 - 1))" unfolding t1 by (rule m [OF l [OF t [OF l [OF rc0]]] l [OF rc0]]) simp_all
  define b3 where b3: "b3 = fe_mul ((fe_sq ^^ (10 - 1)) (fe_sq t1)) b2"
  have rb3: "fiat.rep b3 (x ^ (2 ^ 50 - 1))" unfolding b3 by (rule m [OF l [OF t [OF l [OF rt1]]] l [OF rb2]]) simp_all
  define c1 where c1: "c1 = fe_mul ((fe_sq ^^ (50 - 1)) (fe_sq b3)) b3"
  have rc1: "fiat.rep c1 (x ^ (2 ^ 100 - 1))" unfolding c1 by (rule m [OF l [OF t [OF l [OF rb3]]] l [OF rb3]]) simp_all
  define t2 where t2: "t2 = fe_mul ((fe_sq ^^ (100 - 1)) (fe_sq c1)) c1"
  have rt2: "fiat.rep t2 (x ^ (2 ^ 200 - 1))" unfolding t2 by (rule m [OF l [OF t [OF l [OF rc1]]] l [OF rc1]]) simp_all
  define t3 where t3: "t3 = fe_mul ((fe_sq ^^ (50 - 1)) (fe_sq t2)) b3"
  have rt3: "fiat.rep t3 (x ^ (2 ^ 250 - 1))" unfolding t3 by (rule m [OF l [OF t [OF l [OF rt2]]] l [OF rb3]]) simp_all
  have "fiat.rep (fe_mul ((fe_sq ^^ (5 - 1)) (fe_sq t3)) a1) (x ^ n)"
    unfolding n by (rule m [OF l [OF t [OF l [OF rt3]]] l [OF ra1]]) simp_all
  moreover have "fe_loose_invert z = fe_mul ((fe_sq ^^ (5 - 1)) (fe_sq t3)) a1"
    unfolding fe_loose_invert_def Let_def t3 t2 c1 b3 t1 c0 b2 b1 a1 b0 a0 ..
  ultimately show ?thesis by (simp only: x_def)
qed

subsection \<open>The ladder\<close>

lemma fe_cswap_limb_eq: "fe_cswap_limb 0 f g = (f, g)" "fe_cswap_limb (- 1) f g = (g, f)"
  by (simp_all add: fe_cswap_limb_def Let_def xor.assoc [symmetric] xor.commute [of g] xor.assoc [of f])

lemma fe_cswap_eq: "fe_cswap f g 0 = (f, g)" "fe_cswap f g 1 = (g, f)"
proof -
  obtain f0 f1 f2 f3 f4 f5 f6 f7 f8 f9 where f: "f = (f0, f1, f2, f3, f4, f5, f6, f7, f8, f9)" by (rule fe_cases)
  obtain g0 g1 g2 g3 g4 g5 g6 g7 g8 g9 where g: "g = (g0, g1, g2, g3, g4, g5, g6, g7, g8, g9)" by (rule fe_cases)
  show "fe_cswap f g 0 = (f, g)" "fe_cswap f g 1 = (g, f)"
    unfolding f g fe_cswap_def prod.case Let_def by (simp_all add: fe_cswap_limb_eq)
qed

lemma fe_points_cswap_eq: "fe_points_cswap s (of_bool b) = swap_if b s"
proof -
  obtain x2 z2 x3 z3 where "s = ((x2, z2), (x3, z3))" by (metis surj_pair)
  then show ?thesis by (cases b) (simp_all add: swap_if_def fe_cswap_eq)
qed

fun fe_rep_pair :: "fe_points \<Rightarrow> (int \<times> int) \<times> (int \<times> int) \<Rightarrow> bool" where
  "fe_rep_pair ((x2, z2), (x3, z3)) ((X2, Z2), (X3, Z3)) \<longleftrightarrow>
     fiat.rep x2 X2 \<and> fiat.rep z2 Z2 \<and> fiat.rep x3 X3 \<and> fiat.rep z3 Z3"

lemma fe_rep_pair_swap: "fe_rep_pair s S \<Longrightarrow> fe_rep_pair (swap_if b s) (swap_if b S)"
proof -
  obtain x2 z2 x3 z3 X2 Z2 X3 Z3 where "s = ((x2, z2), (x3, z3))" "S = ((X2, Z2), (X3, Z3))" by (metis surj_pair)
  then show "fe_rep_pair s S \<Longrightarrow> ?thesis" by (simp add: swap_if_def)
qed

text \<open>The step multiplies by 121666 and adds \<open>bb\<close>, which is the same as by 121665 and \<open>aa\<close>.\<close>

lemma fe_mul121666_rep: "fiat.rep_loose a x \<Longrightarrow> fiat.rep (fe_mul121666 a) (x * 121666)"
  unfolding fiat.rep_loose_def fiat.rep_def using fe_mul121666_correct by (metis mod_mult_cong)

lemma fe_ladder_step_rep:
  assumes "fe_rep_pair s S" "fiat.rep x1 u"
  shows "fe_rep_pair (fe_ladder_step x1 s) (ladder_step u S)"
proof -
  obtain x2 z2 x3 z3 X2 Z2 X3 Z3 where e: "s = ((x2, z2), (x3, z3))" "S = ((X2, Z2), (X3, Z3))" by (metis surj_pair)
  have r: "fiat.rep x2 X2" "fiat.rep z2 Z2" "fiat.rep x3 X3" "fiat.rep z3 Z3" using assms(1) by (simp_all add: e)
  note l = fiat.rep_loose
  note a = fiat.rep_add [OF r(1,2)] and b = fiat.rep_sub [OF r(1,2)] and c = fiat.rep_add [OF r(3,4)] and d = fiat.rep_sub [OF r(3,4)]
  note da = fiat.rep_mul [OF d a] and cb = fiat.rep_mul [OF c b]
  note x3 = fiat.rep_sqr [OF fiat.rep_add [OF da cb]]
    and z3 = fiat.rep_mul [OF l [OF assms(2)] l [OF fiat.rep_sqr [OF fiat.rep_sub [OF da cb]]]]
  note aa = fiat.rep_sqr [OF a] and bb = fiat.rep_sqr [OF b]
  note ee = fiat.rep_sub [OF aa bb]
  note x2 = fiat.rep_mul [OF l [OF aa] l [OF bb]] and z2 = fiat.rep_mul [OF ee fiat.rep_add [OF bb fe_mul121666_rep [OF ee]]]
  show ?thesis unfolding e fe_ladder_step_def prod.case ladder_step.simps Let_def
    using x2 z2 x3 z3 by (simp add: fiat.rep_mod algebra_simps)
qed

lemma fe_scalar_bit:
  assumes "pos < 8 * length e"
  shows "1 AND ucast (drop_bit (pos mod 8) (e ! (pos div 8))) = (of_bool (bit (le_int e) pos) :: u32)"
proof -
  have "bit (ucast (drop_bit (pos mod 8) (e ! (pos div 8))) :: u32) 0 = bit (e ! (pos div 8)) (pos mod 8)"
    by (simp add: bit_ucast_iff bit_drop_bit_eq del: bit_0)
  moreover have "1 AND x = (of_bool (bit x 0) :: u32)" for x by (simp add: and_one_eq one_and_eq mod_2_eq_odd bit_0)
  ultimately show ?thesis using assms by (simp add: bit_le_int_iff del: bit_0)
qed

lemma of_bool_xor: "of_bool a XOR of_bool b = (of_bool (a \<noteq> b) :: u32)"
  by (cases a; cases b) simp_all

lemma swap_if_twice: "swap_if (c \<noteq> b) s = swap_if b (swap_if c s)" "swap_if b (swap_if b s) = s"
  by (auto simp: swap_if_def)

text \<open>
  The loop swaps once between two steps, by the exclusive or of their bits; what it holds is the state of the ladder
  up to the swap that is still to be made.
\<close>

lemma fe_ladder_rep:
  assumes "fe_rep_pair (swap_if c s) S" "fiat.rep x1 u" "n \<le> 8 * length e"
  shows "\<exists>d t. fe_ladder e x1 n s (of_bool c) = (t, of_bool d) \<and> fe_rep_pair (swap_if d t) (ladder u (scalar_bits n (le_int e)) S)"
  using assms(1,3)
proof (induction n arbitrary: c s S)
  case (Suc n)
  define b where "b = bit (le_int e) n"
  have bits: "scalar_bits (Suc n) (le_int e) = b # scalar_bits n (le_int e)" by (simp add: scalar_bits_def b_def)
  have "fe_rep_pair (swap_if (c \<noteq> b) s) (swap_if b S)" unfolding swap_if_twice by (rule fe_rep_pair_swap [OF Suc.prems(1)])
  from fe_rep_pair_swap [OF fe_ladder_step_rep [OF this assms(2)], of b]
  have r: "fe_rep_pair (swap_if b (fe_ladder_step x1 (swap_if (c \<noteq> b) s))) (swap_if b (ladder_step u (swap_if b S)))" .
  have "n < 8 * length e" using Suc.prems(2) by simp
  then have "fe_ladder e x1 (Suc n) s (of_bool c) = fe_ladder e x1 n (fe_ladder_step x1 (swap_if (c \<noteq> b) s)) (of_bool b)"
    by (simp add: fe_scalar_bit Let_def of_bool_xor fe_points_cswap_eq b_def)
  then show ?case using Suc.IH [OF r] Suc.prems(2) by (simp add: bits)
qed (auto simp: scalar_bits_def)

end
