(* ===== verification/Wg_Fiat_Format.thy ===== *)
theory Wg_Fiat_Format
  imports Wg_Fiat_Field
begin

text \<open>
  Reading and writing an element of \<open>curve25519-fiat32.h\<close>: \<open>fe_frombytes\<close> takes the 255 low bits of 32 bytes,
  \<open>fe_freeze\<close> subtracts the prime and adds it again when that borrowed, and \<open>fe_tobytes\<close> writes the result.
\<close>

subsection \<open>Reading an element\<close>

lemma bit_get_unaligned_le32: "bit (get_unaligned_le32 (drop k s)) n \<longleftrightarrow> n < 32 \<and> bit (le_int s) (8 * k + n)"
  by (simp add: get_unaligned_le32_def bit_read_le le_int_take le_int_drop bit_take_bit_iff bit_drop_bit_eq)

lemma bit_get_unaligned_le32_0: "bit (get_unaligned_le32 s) n \<longleftrightarrow> n < 32 \<and> bit (le_int s) n"
  using bit_get_unaligned_le32 [of 0 s n] by simp

text \<open>The ten slices of a number, and the number again.\<close>

lemma take_bit_slices10:
  "take_bit 26 v + 2 ^ 26 * take_bit 25 (drop_bit 26 v) + 2 ^ 51 * take_bit 26 (drop_bit 51 v) + 2 ^ 77 * take_bit 25 (drop_bit 77 v) +
    2 ^ 102 * take_bit 26 (drop_bit 102 v) + 2 ^ 128 * take_bit 25 (drop_bit 128 v) + 2 ^ 153 * take_bit 26 (drop_bit 153 v) +
    2 ^ 179 * take_bit 25 (drop_bit 179 v) + 2 ^ 204 * take_bit 26 (drop_bit 204 v) + 2 ^ 230 * take_bit 25 (drop_bit 230 v) = take_bit 255 (v :: int)"
  using take_bit_slice [of 26 25 v] take_bit_slice [of 51 26 v] take_bit_slice [of 77 25 v] take_bit_slice [of 102 26 v] take_bit_slice [of 128 25 v]
    take_bit_slice [of 153 26 v] take_bit_slice [of 179 25 v] take_bit_slice [of 204 26 v] take_bit_slice [of 230 25 v] by simp

lemma fe_frombytes_correct: "fe_tight (fe_frombytes s)" "fe_val (fe_frombytes s) = take_bit 255 (le_int s)"
proof -
  define r where "r n = get_unaligned_le32 (drop n s)" for n
  note rb = bit_get_unaligned_le32 [of _ s, folded r_def]
  let ?s = "\<lambda>n k. take_bit n (drop_bit k (le_int s))"
  note bits = rb bit_uint_iff bit_or_iff bit_and_iff bit_mask_iff bit_push_bit_iff bit_drop_bit_eq bit_take_bit_iff
  have limbs: "uint (r 0 AND mask 26) = ?s 26 0" "uint (drop_bit 26 (r 0) OR push_bit 6 (r 4 AND mask 19)) = ?s 25 26"
    "uint (drop_bit 19 (r 4) OR push_bit 13 (r 8 AND mask 13)) = ?s 26 51" "uint (drop_bit 13 (r 8) OR push_bit 19 (r 12 AND mask 6)) = ?s 25 77"
    "uint (drop_bit 6 (r 12)) = ?s 26 102" "uint (r 16 AND mask 25) = ?s 25 128"
    "uint (drop_bit 25 (r 16) OR push_bit 7 (r 20 AND mask 19)) = ?s 26 153" "uint (drop_bit 19 (r 20) OR push_bit 13 (r 24 AND mask 12)) = ?s 25 179"
    "uint (drop_bit 12 (r 24) OR push_bit 20 (r 28 AND mask 6)) = ?s 26 204" "uint (drop_bit 6 (r 28) AND mask 25) = ?s 25 230"
    by (rule bit_eqI, auto simp: bits)+
  have e: "fe_frombytes s = (r 0 AND mask 26, drop_bit 26 (r 0) OR push_bit 6 (r 4 AND mask 19), drop_bit 19 (r 4) OR push_bit 13 (r 8 AND mask 13),
      drop_bit 13 (r 8) OR push_bit 19 (r 12 AND mask 6), drop_bit 6 (r 12), r 16 AND mask 25, drop_bit 25 (r 16) OR push_bit 7 (r 20 AND mask 19),
      drop_bit 19 (r 20) OR push_bit 13 (r 24 AND mask 12), drop_bit 12 (r 24) OR push_bit 20 (r 28 AND mask 6), drop_bit 6 (r 28) AND mask 25)"
    by (simp add: fe_frombytes_def r_def Let_def)
  have m: "?s 26 k < 2 * (9 * 2 ^ 22)" "?s 25 k < 9 * 2 ^ 22" for k
    using take_bit_int_less_exp [of 26 "drop_bit k (le_int s)"] take_bit_int_less_exp [of 25 "drop_bit k (le_int s)"] by simp_all
  show "fe_tight (fe_frombytes s)" unfolding e fe_tight_def fe_below.simps limbs by (intro conjI m)
  show "fe_val (fe_frombytes s) = take_bit 255 (le_int s)"
    unfolding e fe_val.simps limbs using take_bit_slices10 [of "le_int s"] by (simp only: drop_bit_0 id_apply)
qed

subsection \<open>The canonical form\<close>

lemma div_power_less:
  assumes "x < 2 ^ n * (k :: int)"
  shows "x div 2 ^ n < k"
proof -
  have "2 ^ n * (x div 2 ^ n) + x mod 2 ^ n = x" "0 \<le> x mod 2 ^ n" by simp_all
  then have "2 ^ n * (x div 2 ^ n) < 2 ^ n * k" using assms by linarith
  then show ?thesis by simp
qed

lemma sub_words:
  fixes a b :: u32 and c :: u8
  assumes n: "n = 25 \<or> n = 26" and c: "uint c \<le> 1" and b: "uint b < 2 ^ n" and a: "uint a - uint b - uint c < 2 ^ n"
    and l: "l = (a - b - ucast c) AND mask n" and k: "k = (ucast (drop_bit 31 (a - b - ucast c)) :: u8)"
  shows "uint a - uint b - uint c = uint l - 2 ^ n * uint k" "uint l < 2 ^ n" "uint k \<le> 1"
proof -
  define d where "d = uint a - uint b - uint c"
  have "- (2 ^ n) \<le> d" unfolding d_def using b c uint_u32(1) [of a] by linarith
  moreover have "2 ^ n \<le> (2 ^ 26 :: int)" using n by auto
  ultimately have d: "- (2 ^ n) \<le> d" "d < 2 ^ n" "- (2 ^ 26) \<le> d" "d < 2 ^ 26" using a by (simp_all add: d_def)
  have c8: "uint (ucast c :: u32) = uint c" using c by (simp add: unsigned_ucast_eq take_bit_int_eq_self)
  have "a - b - ucast c = of_int d" by (simp add: d_def c8 [symmetric])
  then have x: "uint (a - b - ucast c) = d mod 2 ^ 32" by (simp only: uint_word_of_int) simp
  have dv: "(2::int) ^ n dvd 2 ^ 32" using n by (intro le_imp_power_dvd) auto
  have "uint l = d mod 2 ^ 32 mod 2 ^ n" unfolding l uint_low_u32 x ..
  then have ul: "uint l = d mod 2 ^ n" by (simp only: mod_mod_cancel [OF dv])
  have uk: "uint k = (if d < 0 then 1 else 0)"
  proof (cases "d < 0")
    case True
    have "d mod 2 ^ 32 = d + 2 ^ 32" by (rule int_mod_pos_eq [where q = "- 1"]) (use d True in simp_all)
    moreover have "(d + 2 ^ 32) div 2 ^ 31 = 1" by (rule int_div_pos_eq [where r = "d + 2 ^ 31"]) (use d True in simp_all)
    ultimately have "uint (drop_bit 31 (a - b - ucast c)) = 1" unfolding uint_shift x by simp
    then show ?thesis using True by (simp add: k unsigned_ucast_eq)
  next
    case False
    then have "d mod 2 ^ 32 div 2 ^ 31 = 0" using d by simp
    then have "uint (drop_bit 31 (a - b - ucast c)) = 0" unfolding uint_shift x by simp
    then show ?thesis using False by (simp add: k unsigned_ucast_eq)
  qed
  show "uint k \<le> 1" "uint l < 2 ^ n" unfolding uk ul by simp_all
  show "uint a - uint b - uint c = uint l - 2 ^ n * uint k"
  proof (cases "d < 0")
    case True
    have "d mod 2 ^ n = d + 2 ^ n" by (rule int_mod_pos_eq [where q = "- 1"]) (use d True in simp_all)
    then show ?thesis using True by (simp add: ul uk d_def)
  next
    case False
    then show ?thesis using d by (simp add: ul uk d_def)
  qed
qed

lemma add_words:
  fixes a b :: u32 and c :: u8
  assumes n: "n = 25 \<or> n = 26" and c: "uint c \<le> 1" and ab: "uint a < 2 ^ n" "uint b < 2 ^ n"
    and l: "l = (a + b + ucast c) AND mask n" and k: "k = (ucast (drop_bit n (a + b + ucast c) AND 1) :: u8)"
  shows "uint a + uint b + uint c = uint l + 2 ^ n * uint k" "uint l < 2 ^ n" "uint k \<le> 1"
proof -
  have p: "2 ^ n \<le> (2 ^ 26 :: int)" using n by auto
  have c8: "uint (ucast c :: u32) = uint c" using c by (simp add: unsigned_ucast_eq take_bit_int_eq_self)
  have "uint (a + b) = uint a + uint b" using ab p by (intro uint_u32_add) simp
  then have x: "uint (a + b + ucast c) = uint a + uint b + uint c"
    using uint_u32_add [of "a + b" "ucast c"] ab p c by (simp add: c8)
  let ?x = "uint a + uint b + uint c"
  have ul: "uint l = ?x mod 2 ^ n" unfolding l uint_low_u32 x ..
  have "?x < 2 * 2 ^ n" using ab c by linarith
  then have "?x div 2 ^ n < 2" by (intro div_power_less) simp
  moreover have "0 \<le> ?x div 2 ^ n" by (simp add: pos_imp_zdiv_nonneg_iff)
  ultimately have q: "0 \<le> ?x div 2 ^ n" "?x div 2 ^ n < 2" by simp_all
  have "x AND 1 = x mod 2" for x :: int by (simp add: and_one_eq)
  then have "uint (drop_bit n (a + b + ucast c) AND 1) = ?x div 2 ^ n"
    using q by (simp only: uint_and uint_shift x unsigned_1) simp
  then have uk: "uint k = ?x div 2 ^ n" using q by (simp add: k unsigned_ucast_eq take_bit_int_eq_self)
  show "uint l < 2 ^ n" "uint k \<le> 1" unfolding ul uk using q by simp_all
  show "?x = uint l + 2 ^ n * uint k" unfolding ul uk by simp
qed

lemma subborrow_u26_words:
  assumes "subborrow_u26 c a b = (l, k)" "uint c \<le> 1" "uint b < 2 ^ 26" "uint a - uint b - uint c < 2 ^ 26"
  shows "uint a - uint b - uint c = uint l - 2 ^ 26 * uint k \<and> uint l < 2 ^ 26 \<and> uint k \<le> 1"
proof -
  have lk: "l = (a - b - ucast c) AND mask 26" "k = ucast (drop_bit 31 (a - b - ucast c))"
    using assms(1) by (simp_all only: subborrow_u26_def Let_def prod.inject)
  show ?thesis using sub_words [OF _ assms(2-4) lk] by blast
qed

lemma subborrow_u25_words:
  assumes "subborrow_u25 c a b = (l, k)" "uint c \<le> 1" "uint b < 2 ^ 25" "uint a - uint b - uint c < 2 ^ 25"
  shows "uint a - uint b - uint c = uint l - 2 ^ 25 * uint k \<and> uint l < 2 ^ 25 \<and> uint k \<le> 1"
proof -
  have lk: "l = (a - b - ucast c) AND mask 25" "k = ucast (drop_bit 31 (a - b - ucast c))"
    using assms(1) by (simp_all only: subborrow_u25_def Let_def prod.inject)
  show ?thesis using sub_words [OF _ assms(2-4) lk] by blast
qed

lemma addcarryx_u26_words:
  assumes "addcarryx_u26 c a b = (l, k)" "uint c \<le> 1" "uint a < 2 ^ 26" "uint b < 2 ^ 26"
  shows "uint a + uint b + uint c = uint l + 2 ^ 26 * uint k \<and> uint l < 2 ^ 26 \<and> uint k \<le> 1"
proof -
  have lk: "l = (a + b + ucast c) AND mask 26" "k = ucast (drop_bit 26 (a + b + ucast c) AND 1)"
    using assms(1) by (simp_all only: addcarryx_u26_def Let_def prod.inject)
  show ?thesis using add_words [OF _ assms(2-4) lk] by blast
qed

lemma addcarryx_u25_words:
  assumes "addcarryx_u25 c a b = (l, k)" "uint c \<le> 1" "uint a < 2 ^ 25" "uint b < 2 ^ 25"
  shows "uint a + uint b + uint c = uint l + 2 ^ 25 * uint k \<and> uint l < 2 ^ 25 \<and> uint k \<le> 1"
proof -
  have lk: "l = (a + b + ucast c) AND mask 25" "k = ucast (drop_bit 25 (a + b + ucast c) AND 1)"
    using assms(1) by (simp_all only: addcarryx_u25_def Let_def prod.inject)
  show ?thesis using add_words [OF _ assms(2-4) lk] by blast
qed

text \<open>The two chains of \<open>fe_freeze\<close>, each as what it does to the value.\<close>

abbreviation fe_reduced :: "fe \<Rightarrow> bool" where
  "fe_reduced \<equiv> fe_below (2 ^ 25)"

lemma borrow_chain:
  assumes "fe_tight (h0, h1, h2, h3, h4, h5, h6, h7, h8, h9)" and c: "subborrow_u26 0 h0 0x3ffffed = (l0, b0)" "subborrow_u25 b0 h1 0x1ffffff = (l1, b1)" "subborrow_u26 b1 h2 0x3ffffff = (l2, b2)" "subborrow_u25 b2 h3 0x1ffffff = (l3, b3)" "subborrow_u26 b3 h4 0x3ffffff = (l4, b4)" "subborrow_u25 b4 h5 0x1ffffff = (l5, b5)" "subborrow_u26 b5 h6 0x3ffffff = (l6, b6)" "subborrow_u25 b6 h7 0x1ffffff = (l7, b7)" "subborrow_u26 b7 h8 0x3ffffff = (l8, b8)" "subborrow_u25 b8 h9 0x1ffffff = (l9, b9)"
  shows "fe_val (l0, l1, l2, l3, l4, l5, l6, l7, l8, l9) - 2 ^ 255 * uint b9 = fe_val (h0, h1, h2, h3, h4, h5, h6, h7, h8, h9) - p25519" "fe_reduced (l0, l1, l2, l3, l4, l5, l6, l7, l8, l9)" "uint b9 \<le> 1"
proof -
  have nn: "0 \<le> uint c" for c :: u8 by simp
  have g: "x - k - uint c < 67108864" "y - k' - uint c < 33554432" if "x < 75497472" "8388608 \<le> k" "y < 37748736" "4194304 \<le> k'"
    for x y k k' and c :: u8
    using that nn [of c] by linarith+
  have t: "uint h0 < 9 * 2 ^ 23" "uint h1 < 9 * 2 ^ 22" "uint h2 < 9 * 2 ^ 23" "uint h3 < 9 * 2 ^ 22" "uint h4 < 9 * 2 ^ 23" "uint h5 < 9 * 2 ^ 22" "uint h6 < 9 * 2 ^ 23" "uint h7 < 9 * 2 ^ 22" "uint h8 < 9 * 2 ^ 23" "uint h9 < 9 * 2 ^ 22" using assms(1) by (simp_all add: fe_tight_def)
  have v0: "uint h0 - 0x3ffffed - uint (0 :: u8) = uint l0 - 2 ^ 26 * uint b0 \<and> uint l0 < 2 ^ 26 \<and> uint b0 \<le> 1"
    using subborrow_u26_words [OF c(1)] g(1) [of "uint h0" "0x3ffffed" "uint h1" "4194304" "0"] t(1) t by simp
  have v1: "uint h1 - 0x1ffffff - uint b0 = uint l1 - 2 ^ 25 * uint b1 \<and> uint l1 < 2 ^ 25 \<and> uint b1 \<le> 1"
    using subborrow_u25_words [OF c(2)] g(2) [of "uint h0" "8388608" "uint h1" "0x1ffffff" "b0"] t(2) t v0 by simp
  have v2: "uint h2 - 0x3ffffff - uint b1 = uint l2 - 2 ^ 26 * uint b2 \<and> uint l2 < 2 ^ 26 \<and> uint b2 \<le> 1"
    using subborrow_u26_words [OF c(3)] g(1) [of "uint h2" "0x3ffffff" "uint h1" "4194304" "b1"] t(3) t v1 by simp
  have v3: "uint h3 - 0x1ffffff - uint b2 = uint l3 - 2 ^ 25 * uint b3 \<and> uint l3 < 2 ^ 25 \<and> uint b3 \<le> 1"
    using subborrow_u25_words [OF c(4)] g(2) [of "uint h0" "8388608" "uint h3" "0x1ffffff" "b2"] t(4) t v2 by simp
  have v4: "uint h4 - 0x3ffffff - uint b3 = uint l4 - 2 ^ 26 * uint b4 \<and> uint l4 < 2 ^ 26 \<and> uint b4 \<le> 1"
    using subborrow_u26_words [OF c(5)] g(1) [of "uint h4" "0x3ffffff" "uint h1" "4194304" "b3"] t(5) t v3 by simp
  have v5: "uint h5 - 0x1ffffff - uint b4 = uint l5 - 2 ^ 25 * uint b5 \<and> uint l5 < 2 ^ 25 \<and> uint b5 \<le> 1"
    using subborrow_u25_words [OF c(6)] g(2) [of "uint h0" "8388608" "uint h5" "0x1ffffff" "b4"] t(6) t v4 by simp
  have v6: "uint h6 - 0x3ffffff - uint b5 = uint l6 - 2 ^ 26 * uint b6 \<and> uint l6 < 2 ^ 26 \<and> uint b6 \<le> 1"
    using subborrow_u26_words [OF c(7)] g(1) [of "uint h6" "0x3ffffff" "uint h1" "4194304" "b5"] t(7) t v5 by simp
  have v7: "uint h7 - 0x1ffffff - uint b6 = uint l7 - 2 ^ 25 * uint b7 \<and> uint l7 < 2 ^ 25 \<and> uint b7 \<le> 1"
    using subborrow_u25_words [OF c(8)] g(2) [of "uint h0" "8388608" "uint h7" "0x1ffffff" "b6"] t(8) t v6 by simp
  have v8: "uint h8 - 0x3ffffff - uint b7 = uint l8 - 2 ^ 26 * uint b8 \<and> uint l8 < 2 ^ 26 \<and> uint b8 \<le> 1"
    using subborrow_u26_words [OF c(9)] g(1) [of "uint h8" "0x3ffffff" "uint h1" "4194304" "b7"] t(9) t v7 by simp
  have v9: "uint h9 - 0x1ffffff - uint b8 = uint l9 - 2 ^ 25 * uint b9 \<and> uint l9 < 2 ^ 25 \<and> uint b9 \<le> 1"
    using subborrow_u25_words [OF c(10)] g(2) [of "uint h0" "8388608" "uint h9" "0x1ffffff" "b8"] t(10) t v8 by simp
  show "fe_reduced (l0, l1, l2, l3, l4, l5, l6, l7, l8, l9)" "uint b9 \<le> 1" using v0 v1 v2 v3 v4 v5 v6 v7 v8 v9 by simp_all
  show "fe_val (l0, l1, l2, l3, l4, l5, l6, l7, l8, l9) - 2 ^ 255 * uint b9 = fe_val (h0, h1, h2, h3, h4, h5, h6, h7, h8, h9) - p25519"
    unfolding fe_val.simps p25519_def using v0 v1 v2 v3 v4 v5 v6 v7 v8 v9 by simp
qed

lemma carry_chain:
  assumes "fe_reduced (l0, l1, l2, l3, l4, l5, l6, l7, l8, l9)" and c: "addcarryx_u26 0 l0 (m AND 0x3ffffed) = (o0, c0)" "addcarryx_u25 c0 l1 (m AND 0x1ffffff) = (o1, c1)" "addcarryx_u26 c1 l2 (m AND 0x3ffffff) = (o2, c2)" "addcarryx_u25 c2 l3 (m AND 0x1ffffff) = (o3, c3)" "addcarryx_u26 c3 l4 (m AND 0x3ffffff) = (o4, c4)" "addcarryx_u25 c4 l5 (m AND 0x1ffffff) = (o5, c5)" "addcarryx_u26 c5 l6 (m AND 0x3ffffff) = (o6, c6)" "addcarryx_u25 c6 l7 (m AND 0x1ffffff) = (o7, c7)" "addcarryx_u26 c7 l8 (m AND 0x3ffffff) = (o8, c8)" "addcarryx_u25 c8 l9 (m AND 0x1ffffff) = (o9, c9)"
    and m: "m = 0 \<or> m = 0xffffffff"
  shows "fe_val (o0, o1, o2, o3, o4, o5, o6, o7, o8, o9) + 2 ^ 255 * uint c9 = fe_val (l0, l1, l2, l3, l4, l5, l6, l7, l8, l9) + (if m = 0 then 0 else p25519)" "fe_reduced (o0, o1, o2, o3, o4, o5, o6, o7, o8, o9)" "uint c9 \<le> 1"
proof -
  have t: "uint l0 < 2 ^ 26" "uint l1 < 2 ^ 25" "uint l2 < 2 ^ 26" "uint l3 < 2 ^ 25" "uint l4 < 2 ^ 26" "uint l5 < 2 ^ 25" "uint l6 < 2 ^ 26" "uint l7 < 2 ^ 25" "uint l8 < 2 ^ 26" "uint l9 < 2 ^ 25" using assms(1) by simp_all
  have b: "uint (m AND 0x3ffffed) < 2 ^ 26" "uint (m AND 0x3ffffff) < 2 ^ 26" "uint (m AND 0x1ffffff) < 2 ^ 25" using m by auto
  have w0: "uint l0 + uint (m AND 0x3ffffed) + uint (0 :: u8) = uint o0 + 2 ^ 26 * uint c0 \<and> uint o0 < 2 ^ 26 \<and> uint c0 \<le> 1"
    using addcarryx_u26_words [OF c(1)] t(1) b  by simp
  have w1: "uint l1 + uint (m AND 0x1ffffff) + uint c0 = uint o1 + 2 ^ 25 * uint c1 \<and> uint o1 < 2 ^ 25 \<and> uint c1 \<le> 1"
    using addcarryx_u25_words [OF c(2)] t(2) b w0 by simp
  have w2: "uint l2 + uint (m AND 0x3ffffff) + uint c1 = uint o2 + 2 ^ 26 * uint c2 \<and> uint o2 < 2 ^ 26 \<and> uint c2 \<le> 1"
    using addcarryx_u26_words [OF c(3)] t(3) b w1 by simp
  have w3: "uint l3 + uint (m AND 0x1ffffff) + uint c2 = uint o3 + 2 ^ 25 * uint c3 \<and> uint o3 < 2 ^ 25 \<and> uint c3 \<le> 1"
    using addcarryx_u25_words [OF c(4)] t(4) b w2 by simp
  have w4: "uint l4 + uint (m AND 0x3ffffff) + uint c3 = uint o4 + 2 ^ 26 * uint c4 \<and> uint o4 < 2 ^ 26 \<and> uint c4 \<le> 1"
    using addcarryx_u26_words [OF c(5)] t(5) b w3 by simp
  have w5: "uint l5 + uint (m AND 0x1ffffff) + uint c4 = uint o5 + 2 ^ 25 * uint c5 \<and> uint o5 < 2 ^ 25 \<and> uint c5 \<le> 1"
    using addcarryx_u25_words [OF c(6)] t(6) b w4 by simp
  have w6: "uint l6 + uint (m AND 0x3ffffff) + uint c5 = uint o6 + 2 ^ 26 * uint c6 \<and> uint o6 < 2 ^ 26 \<and> uint c6 \<le> 1"
    using addcarryx_u26_words [OF c(7)] t(7) b w5 by simp
  have w7: "uint l7 + uint (m AND 0x1ffffff) + uint c6 = uint o7 + 2 ^ 25 * uint c7 \<and> uint o7 < 2 ^ 25 \<and> uint c7 \<le> 1"
    using addcarryx_u25_words [OF c(8)] t(8) b w6 by simp
  have w8: "uint l8 + uint (m AND 0x3ffffff) + uint c7 = uint o8 + 2 ^ 26 * uint c8 \<and> uint o8 < 2 ^ 26 \<and> uint c8 \<le> 1"
    using addcarryx_u26_words [OF c(9)] t(9) b w7 by simp
  have w9: "uint l9 + uint (m AND 0x1ffffff) + uint c8 = uint o9 + 2 ^ 25 * uint c9 \<and> uint o9 < 2 ^ 25 \<and> uint c9 \<le> 1"
    using addcarryx_u25_words [OF c(10)] t(10) b w8 by simp
  show "fe_reduced (o0, o1, o2, o3, o4, o5, o6, o7, o8, o9)" "uint c9 \<le> 1" using w0 w1 w2 w3 w4 w5 w6 w7 w8 w9 by simp_all
  show "fe_val (o0, o1, o2, o3, o4, o5, o6, o7, o8, o9) + 2 ^ 255 * uint c9 = fe_val (l0, l1, l2, l3, l4, l5, l6, l7, l8, l9) + (if m = 0 then 0 else p25519)"
    unfolding fe_val.simps using w0 w1 w2 w3 w4 w5 w6 w7 w8 w9 m by (elim disjE) (simp_all add: p25519_def)
qed

lemma u8_zero_iff: "(ucast (b :: u8) :: u32) = 0 \<longleftrightarrow> b = 0"
proof -
  have "uint (ucast b :: u32) = uint b" using uint_byte_less [of b] by (simp add: unsigned_ucast_eq take_bit_int_eq_self)
  then show ?thesis by (metis uint_0_iff)
qed

lemma u8_one: "b \<noteq> 0 \<Longrightarrow> uint (b :: u8) \<le> 1 \<Longrightarrow> uint b = 1"
proof -
  assume "b \<noteq> 0" "uint b \<le> 1"
  moreover from \<open>b \<noteq> 0\<close> have "uint b \<noteq> 0" by (simp only: uint_0_iff not_False_eq_True)
  moreover have "0 \<le> uint b" by simp
  ultimately show "uint b = 1" by linarith
qed

lemma fe_val_reduced: "fe_reduced x \<Longrightarrow> 0 \<le> fe_val x \<and> fe_val x < 2 ^ 255"
  by (rule fe_cases [of x]) simp

lemma fe_val_tight: "fe_tight x \<Longrightarrow> 0 \<le> fe_val x \<and> fe_val x < 2 * p25519"
  by (rule fe_cases [of x]) (simp add: fe_tight_def p25519_def)

text \<open>What a last carry, which is dropped, can be.\<close>

lemma freeze_carry:
  fixes v c l :: int
  assumes "v + 2 ^ 255 * c = l" "0 \<le> v" "v < 2 ^ 255"
  shows "0 \<le> l \<Longrightarrow> l < 2 ^ 255 \<Longrightarrow> v = l" "2 ^ 255 \<le> l \<Longrightarrow> c \<le> 1 \<Longrightarrow> v = l - 2 ^ 255"
proof -
  have "l div 2 ^ 255 = c" by (rule int_div_pos_eq [where r = v]) (use assms in simp_all)
  then show "0 \<le> l \<Longrightarrow> l < 2 ^ 255 \<Longrightarrow> v = l" using assms(1) by simp
  assume l: "2 ^ 255 \<le> l" "c \<le> 1"
  then have "\<not> c \<le> 0" using assms mult_left_mono [of c 0 "2 ^ 255"] by linarith
  then have "c = 1" using l(2) by linarith
  then show "v = l - 2 ^ 255" using assms(1) by simp
qed

lemma fe_freeze_val:
  assumes "fe_tight h"
  shows "fe_reduced (fe_freeze h)" "fe_val (fe_freeze h) = fe_val h mod p25519"
proof -
  obtain h0 h1 h2 h3 h4 h5 h6 h7 h8 h9 where h: "h = (h0, h1, h2, h3, h4, h5, h6, h7, h8, h9)" by (rule fe_cases)
  obtain l0 b0 where s0: "subborrow_u26 0 h0 0x3ffffed = (l0, b0)" by (rule prod.exhaust)
  obtain l1 b1 where s1: "subborrow_u25 b0 h1 0x1ffffff = (l1, b1)" by (rule prod.exhaust)
  obtain l2 b2 where s2: "subborrow_u26 b1 h2 0x3ffffff = (l2, b2)" by (rule prod.exhaust)
  obtain l3 b3 where s3: "subborrow_u25 b2 h3 0x1ffffff = (l3, b3)" by (rule prod.exhaust)
  obtain l4 b4 where s4: "subborrow_u26 b3 h4 0x3ffffff = (l4, b4)" by (rule prod.exhaust)
  obtain l5 b5 where s5: "subborrow_u25 b4 h5 0x1ffffff = (l5, b5)" by (rule prod.exhaust)
  obtain l6 b6 where s6: "subborrow_u26 b5 h6 0x3ffffff = (l6, b6)" by (rule prod.exhaust)
  obtain l7 b7 where s7: "subborrow_u25 b6 h7 0x1ffffff = (l7, b7)" by (rule prod.exhaust)
  obtain l8 b8 where s8: "subborrow_u26 b7 h8 0x3ffffff = (l8, b8)" by (rule prod.exhaust)
  obtain l9 b9 where s9: "subborrow_u25 b8 h9 0x1ffffff = (l9, b9)" by (rule prod.exhaust)
  define m where "m = cmovznz32 (ucast b9) 0 0xffffffff"
  obtain o0 c0 where a0: "addcarryx_u26 0 l0 (m AND 0x3ffffed) = (o0, c0)" by (rule prod.exhaust)
  obtain o1 c1 where a1: "addcarryx_u25 c0 l1 (m AND 0x1ffffff) = (o1, c1)" by (rule prod.exhaust)
  obtain o2 c2 where a2: "addcarryx_u26 c1 l2 (m AND 0x3ffffff) = (o2, c2)" by (rule prod.exhaust)
  obtain o3 c3 where a3: "addcarryx_u25 c2 l3 (m AND 0x1ffffff) = (o3, c3)" by (rule prod.exhaust)
  obtain o4 c4 where a4: "addcarryx_u26 c3 l4 (m AND 0x3ffffff) = (o4, c4)" by (rule prod.exhaust)
  obtain o5 c5 where a5: "addcarryx_u25 c4 l5 (m AND 0x1ffffff) = (o5, c5)" by (rule prod.exhaust)
  obtain o6 c6 where a6: "addcarryx_u26 c5 l6 (m AND 0x3ffffff) = (o6, c6)" by (rule prod.exhaust)
  obtain o7 c7 where a7: "addcarryx_u25 c6 l7 (m AND 0x1ffffff) = (o7, c7)" by (rule prod.exhaust)
  obtain o8 c8 where a8: "addcarryx_u26 c7 l8 (m AND 0x3ffffff) = (o8, c8)" by (rule prod.exhaust)
  obtain o9 c9 where a9: "addcarryx_u25 c8 l9 (m AND 0x1ffffff) = (o9, c9)" by (rule prod.exhaust)
  note b = borrow_chain [OF assms [unfolded h] s0 s1 s2 s3 s4 s5 s6 s7 s8 s9]
  have m: "m = (if b9 = 0 then 0 else 0xffffffff)"
  proof -
    have "(ucast b9 :: u32) = 0 \<longleftrightarrow> b9 = 0" by (rule u8_zero_iff)
    then show ?thesis by (simp add: m_def cmovznz32_def)
  qed
  then have "m = 0 \<or> m = 0xffffffff" by simp
  note c = carry_chain [OF b(2) a0 a1 a2 a3 a4 a5 a6 a7 a8 a9 this]
  have e: "fe_freeze h = (o0, o1, o2, o3, o4, o5, o6, o7, o8, o9)"
    unfolding h fe_freeze_def prod.case by (simp only: Let_def prod.case s0 s1 s2 s3 s4 s5 s6 s7 s8 s9 m_def [symmetric] a0 a1 a2 a3 a4 a5 a6 a7 a8 a9)
  show "fe_reduced (fe_freeze h)" unfolding e by (rule c(2))
  have l: "0 \<le> fe_val x \<and> fe_val x < 2 ^ 255" if "fe_reduced x" for x using fe_val_reduced [OF that] .
  have hv: "0 \<le> fe_val h" "fe_val h < 2 * p25519" using fe_val_tight [OF assms] by simp_all
  show "fe_val (fe_freeze h) = fe_val h mod p25519"
  proof (cases "b9 = 0")
    case True
    then have "fe_val (l0, l1, l2, l3, l4, l5, l6, l7, l8, l9) = fe_val h - p25519" using b(1) h by simp
    moreover have "fe_val (o0, o1, o2, o3, o4, o5, o6, o7, o8, o9) + 2 ^ 255 * uint c9 = fe_val (l0, l1, l2, l3, l4, l5, l6, l7, l8, l9)" using c(1) m True by simp
    ultimately have "fe_val (o0, o1, o2, o3, o4, o5, o6, o7, o8, o9) = fe_val h - p25519" "0 \<le> fe_val h - p25519"
      using freeze_carry(1) [of "fe_val (o0, o1, o2, o3, o4, o5, o6, o7, o8, o9)" "uint c9" "fe_val (l0, l1, l2, l3, l4, l5, l6, l7, l8, l9)"] l [OF b(2)] l [OF c(2)] by simp_all
    moreover have "fe_val h mod p25519 = fe_val h - p25519"
      by (rule int_mod_pos_eq [where q = 1]) (use hv calculation(2) in simp_all)
    ultimately show ?thesis unfolding e by simp
  next
    case False
    then have "uint b9 = 1" using b(3) by (simp add: u8_one)
    then have "fe_val (l0, l1, l2, l3, l4, l5, l6, l7, l8, l9) = fe_val h - p25519 + 2 ^ 255" using b(1) h by simp
    moreover have "fe_val (o0, o1, o2, o3, o4, o5, o6, o7, o8, o9) + 2 ^ 255 * uint c9 = fe_val (l0, l1, l2, l3, l4, l5, l6, l7, l8, l9) + p25519" using c(1) m False by simp
    moreover have "fe_val h < p25519" using l [OF b(2)] calculation(1) by simp
    ultimately have "fe_val (o0, o1, o2, o3, o4, o5, o6, o7, o8, o9) = fe_val h"
      using freeze_carry(2) [of "fe_val (o0, o1, o2, o3, o4, o5, o6, o7, o8, o9)" "uint c9" "fe_val h + 2 ^ 255"] l [OF c(2)] c(3) hv(1) by simp
    then show ?thesis unfolding e using hv \<open>fe_val h < p25519\<close> by simp
  qed
qed

subsection \<open>Writing an element\<close>

lemma le_int_of_bytes:
  assumes "\<And>i. i < length bs \<Longrightarrow> uint (bs ! i) = take_bit 8 (drop_bit (8 * i) v)"
  shows "le_int bs = take_bit (8 * length bs) v"
  using assms
proof (induction bs arbitrary: v)
  case (Cons b bs)
  have "le_int bs = take_bit (8 * length bs) (drop_bit 8 v)" using Cons.prems [of "Suc _"] by (intro Cons.IH) (auto simp: add.commute)
  moreover have "uint b = take_bit 8 v" using Cons.prems [of 0] by simp
  ultimately show ?case using take_bit_slice [of 8 "8 * length bs" v] by simp
qed simp

lemma le_int_of_bytes_map:
  assumes m: "map uint bs = map (\<lambda>i. take_bit 8 (drop_bit (8 * i) v)) [0..<length bs]"
  shows "le_int bs = take_bit (8 * length bs) v"
proof (rule le_int_of_bytes)
  fix i assume "i < length bs"
  then show "uint (bs ! i) = take_bit 8 (drop_bit (8 * i) v)" using arg_cong [OF m, of "\<lambda>l. l ! i"] by simp
qed

lemma bit_uint_u32: "bit (uint x) n = bit (x :: u32) n"
  using bit_imp_le_length [of x n] by (auto simp: bit_uint_iff)

lemma bit_concat_if: "bit (concat_bit m k l) n = (if n < m then bit k n else bit l (n - m))"
  by (simp add: bit_concat_bit_iff)

lemma fe_val_concat:
  assumes "fe_reduced (h0, h1, h2, h3, h4, h5, h6, h7, h8, h9)"
  shows "fe_val (h0, h1, h2, h3, h4, h5, h6, h7, h8, h9) = concat_bit 26 (uint h0) (concat_bit 25 (uint h1) (concat_bit 26 (uint h2) (concat_bit 25 (uint h3) (concat_bit 26 (uint h4) (concat_bit 25 (uint h5) (concat_bit 26 (uint h6) (concat_bit 25 (uint h7) (concat_bit 26 (uint h8) (uint h9)))))))))"
proof -
  have t: "take_bit 26 (uint x) = uint x" if "uint x < 2 ^ 26" for x :: u32 using that by (simp add: take_bit_int_eq_self)
  have t': "take_bit 25 (uint x) = uint x" if "uint x < 2 ^ 25" for x :: u32 using that by (simp add: take_bit_int_eq_self)
  show ?thesis using assms t t' by (simp add: concat_bit_eq push_bit_eq_mult algebra_simps)
qed

lemma fe_limb_bits:
  assumes "uint (x :: u32) < 2 ^ k"
  shows "bit x n \<Longrightarrow> n < k"
proof -
  assume "bit x n"
  moreover have "take_bit k (uint x) = uint x" using assms by (simp add: take_bit_int_eq_self)
  ultimately show "n < k" by (metis bit_take_bit_iff bit_uint_u32)
qed

lemma fe_byte:
  assumes "\<And>j. j < 8 \<Longrightarrow> bit (x :: u32) j = bit v (m + j)"
  shows "uint (ucast x :: u8) = take_bit 8 (drop_bit m v)"
  by (rule bit_eqI) (use assms in \<open>auto simp: bit_uint_iff bit_ucast_iff bit_take_bit_iff bit_drop_bit_eq\<close>)

lemma fe_tobytes_store:
  assumes r: "fe_reduced (h0, h1, h2, h3, h4, h5, h6, h7, h8, h9)"
  shows "le_int (map ucast [h0, drop_bit 8 h0, drop_bit 16 h0, drop_bit 24 h0 OR push_bit 2 h1, drop_bit 6 h1, drop_bit 14 h1, drop_bit 22 h1 OR push_bit 3 h2, drop_bit 5 h2, drop_bit 13 h2, drop_bit 21 h2 OR push_bit 5 h3, drop_bit 3 h3, drop_bit 11 h3, drop_bit 19 h3 OR push_bit 6 h4, drop_bit 2 h4, drop_bit 10 h4, drop_bit 18 h4, h5, drop_bit 8 h5, drop_bit 16 h5, drop_bit 24 h5 OR push_bit 1 h6, drop_bit 7 h6, drop_bit 15 h6, drop_bit 23 h6 OR push_bit 3 h7, drop_bit 5 h7, drop_bit 13 h7, drop_bit 21 h7 OR push_bit 4 h8, drop_bit 4 h8, drop_bit 12 h8, drop_bit 20 h8 OR push_bit 6 h9, drop_bit 2 h9, drop_bit 10 h9, drop_bit 18 h9]) = fe_val (h0, h1, h2, h3, h4, h5, h6, h7, h8, h9)"
proof -
  define bs :: bytes where "bs = map ucast [h0, drop_bit 8 h0, drop_bit 16 h0, drop_bit 24 h0 OR push_bit 2 h1, drop_bit 6 h1, drop_bit 14 h1, drop_bit 22 h1 OR push_bit 3 h2, drop_bit 5 h2, drop_bit 13 h2, drop_bit 21 h2 OR push_bit 5 h3, drop_bit 3 h3, drop_bit 11 h3, drop_bit 19 h3 OR push_bit 6 h4, drop_bit 2 h4, drop_bit 10 h4, drop_bit 18 h4, h5, drop_bit 8 h5, drop_bit 16 h5, drop_bit 24 h5 OR push_bit 1 h6, drop_bit 7 h6, drop_bit 15 h6, drop_bit 23 h6 OR push_bit 3 h7, drop_bit 5 h7, drop_bit 13 h7, drop_bit 21 h7 OR push_bit 4 h8, drop_bit 4 h8, drop_bit 12 h8, drop_bit 20 h8 OR push_bit 6 h9, drop_bit 2 h9, drop_bit 10 h9, drop_bit 18 h9]"
  define v where "v = fe_val (h0, h1, h2, h3, h4, h5, h6, h7, h8, h9)"
  have q: "uint h0 < 2 ^ 26" "uint h1 < 2 ^ 25" "uint h2 < 2 ^ 26" "uint h3 < 2 ^ 25" "uint h4 < 2 ^ 26" "uint h5 < 2 ^ 25" "uint h6 < 2 ^ 26" "uint h7 < 2 ^ 25" "uint h8 < 2 ^ 26" "uint h9 < 2 ^ 25" using r by simp_all
  note f = fe_limb_bits [OF q(1)] fe_limb_bits [OF q(2)] fe_limb_bits [OF q(3)] fe_limb_bits [OF q(4)] fe_limb_bits [OF q(5)] fe_limb_bits [OF q(6)] fe_limb_bits [OF q(7)] fe_limb_bits [OF q(8)] fe_limb_bits [OF q(9)] fe_limb_bits [OF q(10)]
  have b: "bit v n = bit (concat_bit 26 (uint h0) (concat_bit 25 (uint h1) (concat_bit 26 (uint h2) (concat_bit 25 (uint h3) (concat_bit 26 (uint h4) (concat_bit 25 (uint h5) (concat_bit 26 (uint h6) (concat_bit 25 (uint h7) (concat_bit 26 (uint h8) (uint h9)))))))))) n" for n unfolding v_def fe_val_concat [OF r] ..
  have y: "uint (ucast (h0) :: u8) = take_bit 8 (drop_bit 0 v)"
    "uint (ucast (drop_bit 8 h0) :: u8) = take_bit 8 (drop_bit 8 v)"
    "uint (ucast (drop_bit 16 h0) :: u8) = take_bit 8 (drop_bit 16 v)"
    "uint (ucast (drop_bit 24 h0 OR push_bit 2 h1) :: u8) = take_bit 8 (drop_bit 24 v)"
    "uint (ucast (drop_bit 6 h1) :: u8) = take_bit 8 (drop_bit 32 v)"
    "uint (ucast (drop_bit 14 h1) :: u8) = take_bit 8 (drop_bit 40 v)"
    "uint (ucast (drop_bit 22 h1 OR push_bit 3 h2) :: u8) = take_bit 8 (drop_bit 48 v)"
    "uint (ucast (drop_bit 5 h2) :: u8) = take_bit 8 (drop_bit 56 v)"
    "uint (ucast (drop_bit 13 h2) :: u8) = take_bit 8 (drop_bit 64 v)"
    "uint (ucast (drop_bit 21 h2 OR push_bit 5 h3) :: u8) = take_bit 8 (drop_bit 72 v)"
    "uint (ucast (drop_bit 3 h3) :: u8) = take_bit 8 (drop_bit 80 v)"
    "uint (ucast (drop_bit 11 h3) :: u8) = take_bit 8 (drop_bit 88 v)"
    "uint (ucast (drop_bit 19 h3 OR push_bit 6 h4) :: u8) = take_bit 8 (drop_bit 96 v)"
    "uint (ucast (drop_bit 2 h4) :: u8) = take_bit 8 (drop_bit 104 v)"
    "uint (ucast (drop_bit 10 h4) :: u8) = take_bit 8 (drop_bit 112 v)"
    "uint (ucast (drop_bit 18 h4) :: u8) = take_bit 8 (drop_bit 120 v)"
    "uint (ucast (h5) :: u8) = take_bit 8 (drop_bit 128 v)"
    "uint (ucast (drop_bit 8 h5) :: u8) = take_bit 8 (drop_bit 136 v)"
    "uint (ucast (drop_bit 16 h5) :: u8) = take_bit 8 (drop_bit 144 v)"
    "uint (ucast (drop_bit 24 h5 OR push_bit 1 h6) :: u8) = take_bit 8 (drop_bit 152 v)"
    "uint (ucast (drop_bit 7 h6) :: u8) = take_bit 8 (drop_bit 160 v)"
    "uint (ucast (drop_bit 15 h6) :: u8) = take_bit 8 (drop_bit 168 v)"
    "uint (ucast (drop_bit 23 h6 OR push_bit 3 h7) :: u8) = take_bit 8 (drop_bit 176 v)"
    "uint (ucast (drop_bit 5 h7) :: u8) = take_bit 8 (drop_bit 184 v)"
    "uint (ucast (drop_bit 13 h7) :: u8) = take_bit 8 (drop_bit 192 v)"
    "uint (ucast (drop_bit 21 h7 OR push_bit 4 h8) :: u8) = take_bit 8 (drop_bit 200 v)"
    "uint (ucast (drop_bit 4 h8) :: u8) = take_bit 8 (drop_bit 208 v)"
    "uint (ucast (drop_bit 12 h8) :: u8) = take_bit 8 (drop_bit 216 v)"
    "uint (ucast (drop_bit 20 h8 OR push_bit 6 h9) :: u8) = take_bit 8 (drop_bit 224 v)"
    "uint (ucast (drop_bit 2 h9) :: u8) = take_bit 8 (drop_bit 232 v)"
    "uint (ucast (drop_bit 10 h9) :: u8) = take_bit 8 (drop_bit 240 v)"
    "uint (ucast (drop_bit 18 h9) :: u8) = take_bit 8 (drop_bit 248 v)"
    by (rule fe_byte, (simp only: bit_or_iff bit_push_bit_iff bit_drop_bit_eq)?, (auto simp: b bit_concat_if bit_uint_u32 dest: f)[1])+
  have u: "[0..<32] = [0, 1, 2, 3, 4, 5, 6, 7, 8, 9, 10, 11, 12, 13, 14, 15, 16, 17, 18, 19, 20, 21, 22, 23, 24, 25, 26, 27, 28, 29, 30, 31 :: nat]"
    by (simp add: upt_rec)
  have "map uint bs = map (\<lambda>i. take_bit 8 (drop_bit (8 * i) v)) [0..<32]" unfolding u bs_def list.map y by simp
  moreover have "length bs = 32" by (simp add: bs_def)
  ultimately have "le_int bs = take_bit 256 v" using le_int_of_bytes_map [of bs v] by simp
  also have "\<dots> = v" using fe_val_reduced [OF r] by (simp add: v_def take_bit_int_eq_self)
  finally show ?thesis by (simp only: bs_def v_def)
qed

end
