(* ===== verification/Wg_Curve_Field.thy ===== *)
theory Wg_Curve_Field
  imports Wg_Curve Wg_Curve_Ladder
begin

text \<open>
  The field arithmetic of \<open>curve25519-hacl64.h\<close> computes modulo the prime \<open>2 ^ 255 - 19\<close>. An element stands
  for the integer that its limbs make (\<^term>\<open>felem_val\<close>). The lemmas say, for each operation, how large its limbs may
  be so that no sum or product wraps around, how large the limbs of its result are, and what the result stands for.
\<close>

subsection \<open>Words as integers\<close>

lemma uint_u64_add: "uint x + uint y < 2 ^ 64 \<Longrightarrow> uint (x + y :: u64) = uint x + uint y"
  by (simp add: uint_word_ariths(1) take_bit_int_eq_self)

lemma uint_u64_mult: "uint x * uint y < 2 ^ 64 \<Longrightarrow> uint (x * y :: u64) = uint x * uint y"
  by (simp add: uint_word_ariths(3) take_bit_int_eq_self)

lemma uint_u128_add: "uint x + uint y < 2 ^ 128 \<Longrightarrow> uint (x + y :: u128) = uint x + uint y"
  by (simp add: uint_word_ariths(1) take_bit_int_eq_self)

lemma uint_u64: "0 \<le> uint (x :: u64)" "uint (x :: u64) < 2 ^ 64"
  using uint_bounded [of x] by simp_all

lemma uint_wide: "uint (ucast (x :: u64) :: u128) = uint x"
  by (simp add: unsigned_ucast_eq take_bit_int_eq_self uint_u64 order_less_trans [OF uint_u64(2)])

lemma uint_narrow: "uint (x :: u128) < 2 ^ 64 \<Longrightarrow> uint (ucast x :: u64) = uint x"
  by (simp add: unsigned_ucast_eq take_bit_int_eq_self)

lemma uint_narrow_mod: "uint (ucast (x :: u128) :: u64) = uint x mod 2 ^ 64"
  by (simp add: unsigned_ucast_eq take_bit_eq_mod)

lemma uint_product: "uint (ucast (x :: u64) * ucast (y :: u64) :: u128) = uint x * uint y"
proof -
  have "uint x * uint y \<le> (2 ^ 64 - 1) * (2 ^ 64 - 1)"
    using uint_u64 [of x] uint_u64 [of y] by (intro mult_mono) simp_all
  also have "\<dots> < (2::int) ^ 128" by simp
  finally show ?thesis by (simp add: uint_word_ariths(3) uint_wide take_bit_int_eq_self)
qed

lemma mask51_eq: "mask51 = mask 51"
  by (simp add: mask51_def mask_eq_exp_minus_1)

lemma uint_mask51: "uint (x AND mask51) = uint x mod 2 ^ 51"
  unfolding mask51_eq take_bit_eq_mask [symmetric] by (simp only: unsigned_take_bit_eq) (rule take_bit_eq_mod)

lemma uint_shift51: "uint (drop_bit 51 x :: u64) = uint x div 2 ^ 51"
  by (simp add: drop_bit_eq_div uint_div)

lemma uint_shift51_wide: "uint (drop_bit 51 x :: u128) = uint x div 2 ^ 51"
  by (simp add: drop_bit_eq_div uint_div)

lemma uint_mask51_wide: "uint (x AND 0x7ffffffffffff :: u128) = uint x mod 2 ^ 51"
proof -
  have m: "(0x7ffffffffffff :: u128) = mask 51" by (simp add: mask_eq_exp_minus_1)
  show ?thesis unfolding m take_bit_eq_mask [symmetric] by (simp only: unsigned_take_bit_eq) (rule take_bit_eq_mod)
qed

subsection \<open>The value of an element\<close>

fun felem_val :: "felem \<Rightarrow> int" where
  "felem_val (a0, a1, a2, a3, a4) = uint a0 + 2 ^ 51 * uint a1 + 2 ^ 102 * uint a2 + 2 ^ 153 * uint a3 + 2 ^ 204 * uint a4"

fun wide_val :: "wide \<Rightarrow> int" where
  "wide_val (t0, t1, t2, t3, t4) = uint t0 + 2 ^ 51 * uint t1 + 2 ^ 102 * uint t2 + 2 ^ 153 * uint t3 + 2 ^ 204 * uint t4"

fun limbs_below :: "int \<Rightarrow> felem \<Rightarrow> bool" where
  "limbs_below n (a0, a1, a2, a3, a4) = (uint a0 < n \<and> uint a1 < n \<and> uint a2 < n \<and> uint a3 < n \<and> uint a4 < n)"

text \<open>What a multiplication leaves, what a sum or a scalar multiple may be, and what may be multiplied.\<close>

definition tight :: "felem \<Rightarrow> bool" where
  "tight = limbs_below (2 ^ 51 + 2 ^ 13)"

definition medium :: "felem \<Rightarrow> bool" where
  "medium = limbs_below (2 ^ 52)"

definition loose :: "felem \<Rightarrow> bool" where
  "loose = limbs_below (2 ^ 54 + 2 ^ 51 + 2 ^ 13)"

lemma limbs_below_mono: "limbs_below n a \<Longrightarrow> n \<le> m \<Longrightarrow> limbs_below m a"
  by (cases a) auto

lemma bound_mono: "tight a \<Longrightarrow> medium a" "medium a \<Longrightarrow> loose a" "tight a \<Longrightarrow> loose a"
  by (auto simp: tight_def medium_def loose_def elim: limbs_below_mono)

subsection \<open>Products\<close>

lemma uint_19: "uint x < 2 ^ 59 \<Longrightarrow> uint (19 * x :: u64) = 19 * uint x"
  using uint_u64_mult [of 19 x] by simp

lemma uint_sum5:
  assumes "uint a + uint b + uint c + uint d + uint e < 2 ^ 128"
  shows "uint (0 + a + b + c + d + e :: u128) = uint a + uint b + uint c + uint d + uint e"
proof -
  have nn: "0 \<le> uint a" "0 \<le> uint b" "0 \<le> uint c" "0 \<le> uint d" "0 \<le> uint e" by simp_all
  have 1: "uint (a + b) = uint a + uint b" using assms nn by (intro uint_u128_add) linarith
  have 2: "uint (a + b + c) = uint a + uint b + uint c" using assms nn 1 uint_u128_add [of "a + b" c] by linarith
  have 3: "uint (a + b + c + d) = uint a + uint b + uint c + uint d" using assms nn 2 uint_u128_add [of "a + b + c" d] by linarith
  show ?thesis using assms nn 3 uint_u128_add [of "a + b + c + d" e] by simp
qed

lemma uint_dot5:
  assumes "uint x0 * uint y0 + uint x1 * uint y1 + uint x2 * uint y2 + uint x3 * uint y3 + uint x4 * uint y4 < 2 ^ 128"
  shows "uint (0 + ucast x0 * ucast y0 + ucast x1 * ucast y1 + ucast x2 * ucast y2 + ucast x3 * ucast y3 + ucast x4 * ucast y4 :: u128) =
    uint (x0 :: u64) * uint (y0 :: u64) + uint (x1 :: u64) * uint (y1 :: u64) + uint (x2 :: u64) * uint (y2 :: u64) +
    uint (x3 :: u64) * uint (y3 :: u64) + uint (x4 :: u64) * uint (y4 :: u64)"
  using uint_sum5 [of "ucast x0 * ucast y0" "ucast x1 * ucast y1" "ucast x2 * ucast y2" "ucast x3 * ucast y3" "ucast x4 * ucast y4"] assms
  by (simp only: uint_product)

lemma fmul_mul_shift_reduce_val:
  assumes "loose (a0, a1, a2, a3, a4)" "loose (b0, b1, b2, b3, b4)"
    and t: "fmul_mul_shift_reduce (0, 0, 0, 0, 0) (a0, a1, a2, a3, a4) (b0, b1, b2, b3, b4) = (t0, t1, t2, t3, t4)"
  shows "uint t0 = uint a0 * uint b0 + 19 * uint a4 * uint b1 + 19 * uint a3 * uint b2 + 19 * uint a2 * uint b3 + 19 * uint a1 * uint b4"
    "uint t1 = uint a1 * uint b0 + uint a0 * uint b1 + 19 * uint a4 * uint b2 + 19 * uint a3 * uint b3 + 19 * uint a2 * uint b4"
    "uint t2 = uint a2 * uint b0 + uint a1 * uint b1 + uint a0 * uint b2 + 19 * uint a4 * uint b3 + 19 * uint a3 * uint b4"
    "uint t3 = uint a3 * uint b0 + uint a2 * uint b1 + uint a1 * uint b2 + uint a0 * uint b3 + 19 * uint a4 * uint b4"
    "uint t4 = uint a4 * uint b0 + uint a3 * uint b1 + uint a2 * uint b2 + uint a1 * uint b3 + uint a0 * uint b4"
proof -
  have n: "uint (19 * a1) = 19 * uint a1" "uint (19 * a2) = 19 * uint a2" "uint (19 * a3) = 19 * uint a3" "uint (19 * a4) = 19 * uint a4"
    using assms(1) by (simp_all add: loose_def uint_19)
  have small: "uint (x :: u64) * uint (y :: u64) < 2 ^ 124" "19 * uint x * uint y < 2 ^ 124"
    if "uint x < 2 ^ 55" "uint y < 2 ^ 55" for x y
  proof -
    have "uint x * uint y \<le> 2 ^ 55 * 2 ^ 55" using that by (intro mult_mono) simp_all
    then show "uint x * uint y < 2 ^ 124" "19 * uint x * uint y < 2 ^ 124" by simp_all
  qed
  have a: "uint a0 < 2 ^ 55" "uint a1 < 2 ^ 55" "uint a2 < 2 ^ 55" "uint a3 < 2 ^ 55" "uint a4 < 2 ^ 55"
    using assms(1) by (simp_all add: loose_def)
  have b: "uint b0 < 2 ^ 55" "uint b1 < 2 ^ 55" "uint b2 < 2 ^ 55" "uint b3 < 2 ^ 55" "uint b4 < 2 ^ 55"
    using assms(2) by (simp_all add: loose_def)
  have ts: "t0 = 0 + ucast a0 * ucast b0 + ucast (19 * a4) * ucast b1 + ucast (19 * a3) * ucast b2 + ucast (19 * a2) * ucast b3 + ucast (19 * a1) * ucast b4"
    "t1 = 0 + ucast a1 * ucast b0 + ucast a0 * ucast b1 + ucast (19 * a4) * ucast b2 + ucast (19 * a3) * ucast b3 + ucast (19 * a2) * ucast b4"
    "t2 = 0 + ucast a2 * ucast b0 + ucast a1 * ucast b1 + ucast a0 * ucast b2 + ucast (19 * a4) * ucast b3 + ucast (19 * a3) * ucast b4"
    "t3 = 0 + ucast a3 * ucast b0 + ucast a2 * ucast b1 + ucast a1 * ucast b2 + ucast a0 * ucast b3 + ucast (19 * a4) * ucast b4"
    "t4 = 0 + ucast a4 * ucast b0 + ucast a3 * ucast b1 + ucast a2 * ucast b2 + ucast a1 * ucast b3 + ucast a0 * ucast b4"
    using t by (simp_all add: Let_def)
  show "uint t0 = uint a0 * uint b0 + 19 * uint a4 * uint b1 + 19 * uint a3 * uint b2 + 19 * uint a2 * uint b3 + 19 * uint a1 * uint b4"
    unfolding ts(1) by (rule uint_dot5 [of a0 b0 "19 * a4" b1 "19 * a3" b2 "19 * a2" b3 "19 * a1" b4, unfolded n])
      (use small(1) [OF a(1) b(1)] small(2) [OF a(5) b(2)] small(2) [OF a(4) b(3)] small(2) [OF a(3) b(4)] small(2) [OF a(2) b(5)] in simp)
  show "uint t1 = uint a1 * uint b0 + uint a0 * uint b1 + 19 * uint a4 * uint b2 + 19 * uint a3 * uint b3 + 19 * uint a2 * uint b4"
    unfolding ts(2) by (rule uint_dot5 [of a1 b0 a0 b1 "19 * a4" b2 "19 * a3" b3 "19 * a2" b4, unfolded n])
      (use small(1) [OF a(2) b(1)] small(1) [OF a(1) b(2)] small(2) [OF a(5) b(3)] small(2) [OF a(4) b(4)] small(2) [OF a(3) b(5)] in simp)
  show "uint t2 = uint a2 * uint b0 + uint a1 * uint b1 + uint a0 * uint b2 + 19 * uint a4 * uint b3 + 19 * uint a3 * uint b4"
    unfolding ts(3) by (rule uint_dot5 [of a2 b0 a1 b1 a0 b2 "19 * a4" b3 "19 * a3" b4, unfolded n])
      (use small(1) [OF a(3) b(1)] small(1) [OF a(2) b(2)] small(1) [OF a(1) b(3)] small(2) [OF a(5) b(4)] small(2) [OF a(4) b(5)] in simp)
  show "uint t3 = uint a3 * uint b0 + uint a2 * uint b1 + uint a1 * uint b2 + uint a0 * uint b3 + 19 * uint a4 * uint b4"
    unfolding ts(4) by (rule uint_dot5 [of a3 b0 a2 b1 a1 b2 a0 b3 "19 * a4" b4, unfolded n])
      (use small(1) [OF a(4) b(1)] small(1) [OF a(3) b(2)] small(1) [OF a(2) b(3)] small(1) [OF a(1) b(4)] small(2) [OF a(5) b(5)] in simp)
  show "uint t4 = uint a4 * uint b0 + uint a3 * uint b1 + uint a2 * uint b2 + uint a1 * uint b3 + uint a0 * uint b4"
    unfolding ts(5) by (rule uint_dot5 [of a4 b0 a3 b1 a2 b2 a1 b3 a0 b4, unfolded n])
      (use small(1) [OF a(5) b(1)] small(1) [OF a(4) b(2)] small(1) [OF a(3) b(3)] small(1) [OF a(2) b(4)] small(1) [OF a(1) b(5)] in simp)
qed

subsection \<open>Carries\<close>

lemma carry_wide_step_val:
  assumes "carry_wide_step t u = (r, s)" "uint u + uint t div 2 ^ 51 < 2 ^ 128"
  shows "uint r = uint t mod 2 ^ 51" "uint s = uint u + uint t div 2 ^ 51"
proof -
  have "(2::int) ^ 51 dvd 2 ^ 64" by (rule le_imp_power_dvd) simp
  then have "uint t mod 2 ^ 64 mod 2 ^ 51 = uint t mod 2 ^ 51" by (rule mod_mod_cancel)
  then show "uint r = uint t mod 2 ^ 51"
    using assms(1) by (auto simp only: carry_wide_step_def Let_def prod.inject uint_wide uint_mask51 uint_narrow_mod)
  show "uint s = uint u + uint t div 2 ^ 51"
    using assms uint_u128_add [of u "drop_bit 51 t"] by (auto simp only: carry_wide_step_def Let_def prod.inject uint_shift51_wide)
qed

lemma div_51_bound:
  assumes "0 \<le> x" "x < 2 ^ 51 * k"
  shows "0 \<le> x div 2 ^ 51 \<and> x div 2 ^ 51 < (k::int)"
proof -
  have "x = 2 ^ 51 * (x div 2 ^ 51) + x mod 2 ^ 51" "0 \<le> x mod 2 ^ 51" by simp_all
  with assms(2) have "x div 2 ^ 51 < k" by simp
  then show ?thesis using assms(1) by (simp add: pos_imp_zdiv_nonneg_iff)
qed

lemma shift_bound: "0 \<le> x \<Longrightarrow> x < 2 ^ 121 \<Longrightarrow> 0 \<le> x div 2 ^ 51 \<and> x div 2 ^ 51 < (2::int) ^ 70"
  by (rule div_51_bound) simp_all

lemma carry_telescope:
  fixes t0 :: int
  assumes "t0 = 2 ^ 51 * c0 + r0" "t1 + c0 = 2 ^ 51 * c1 + r1" "t2 + c1 = 2 ^ 51 * c2 + r2" "t3 + c2 = 2 ^ 51 * c3 + r3"
  shows "r0 + 2 ^ 51 * r1 + 2 ^ 102 * r2 + 2 ^ 153 * r3 + 2 ^ 204 * (t4 + c3) =
    t0 + 2 ^ 51 * t1 + 2 ^ 102 * t2 + 2 ^ 153 * t3 + 2 ^ 204 * t4"
proof -
  have "r0 = t0 - 2 ^ 51 * c0" "r1 = t1 + c0 - 2 ^ 51 * c1" "r2 = t2 + c1 - 2 ^ 51 * c2" "r3 = t3 + c2 - 2 ^ 51 * c3"
    using assms by linarith+
  then show ?thesis by (simp add: algebra_simps)
qed

lemma fproduct_carry_wide_val:
  assumes c: "fproduct_carry_wide (t0, t1, t2, t3, t4) = (r0, r1, r2, r3, r4)"
    and t: "uint t0 < 2 ^ 120" "uint t1 < 2 ^ 120" "uint t2 < 2 ^ 120" "uint t3 < 2 ^ 120" "uint t4 < 2 ^ 120"
  shows "wide_val (r0, r1, r2, r3, r4) = wide_val (t0, t1, t2, t3, t4)" "uint r4 \<le> uint t4 + 2 ^ 70"
    "uint r0 < 2 ^ 51" "uint r1 < 2 ^ 51" "uint r2 < 2 ^ 51" "uint r3 < 2 ^ 51"
proof -
  obtain s1 where s1: "carry_wide_step t0 t1 = (r0, s1)" using c by (auto simp: Let_def split: prod.splits)
  obtain s2 where s2: "carry_wide_step s1 t2 = (r1, s2)" using c s1 by (auto simp: Let_def split: prod.splits)
  obtain s3 where s3: "carry_wide_step s2 t3 = (r2, s3)" using c s1 s2 by (auto simp: Let_def split: prod.splits)
  have s4: "carry_wide_step s3 t4 = (r3, r4)" using c s1 s2 s3 by (auto simp: Let_def split: prod.splits)
  have b0: "0 \<le> uint t0 div 2 ^ 51 \<and> uint t0 div 2 ^ 51 < 2 ^ 70" by (rule shift_bound) (use t(1) in simp_all)
  have v1: "uint r0 = uint t0 mod 2 ^ 51" "uint s1 = uint t1 + uint t0 div 2 ^ 51"
    by (rule carry_wide_step_val [OF s1]; use b0 t(2) in simp)+
  have b1: "0 \<le> uint s1 div 2 ^ 51 \<and> uint s1 div 2 ^ 51 < 2 ^ 70" by (rule shift_bound) (use b0 v1(2) t(2) in simp_all)
  have v2: "uint r1 = uint s1 mod 2 ^ 51" "uint s2 = uint t2 + uint s1 div 2 ^ 51"
    by (rule carry_wide_step_val [OF s2]; use b1 t(3) in simp)+
  have b2: "0 \<le> uint s2 div 2 ^ 51 \<and> uint s2 div 2 ^ 51 < 2 ^ 70" by (rule shift_bound) (use b1 v2(2) t(3) in simp_all)
  have v3: "uint r2 = uint s2 mod 2 ^ 51" "uint s3 = uint t3 + uint s2 div 2 ^ 51"
    by (rule carry_wide_step_val [OF s3]; use b2 t(4) in simp)+
  have b3: "0 \<le> uint s3 div 2 ^ 51 \<and> uint s3 div 2 ^ 51 < 2 ^ 70" by (rule shift_bound) (use b2 v3(2) t(4) in simp_all)
  have v4: "uint r3 = uint s3 mod 2 ^ 51" "uint r4 = uint t4 + uint s3 div 2 ^ 51"
    by (rule carry_wide_step_val [OF s4]; use b3 t(5) in simp)+
  show "uint r0 < 2 ^ 51" "uint r1 < 2 ^ 51" "uint r2 < 2 ^ 51" "uint r3 < 2 ^ 51" unfolding v1 v2 v3 v4 by simp_all
  show "uint r4 \<le> uint t4 + 2 ^ 70" using v4 b3 by simp
  have "uint t0 = 2 ^ 51 * (uint t0 div 2 ^ 51) + uint r0" "uint t1 + uint t0 div 2 ^ 51 = 2 ^ 51 * (uint s1 div 2 ^ 51) + uint r1"
    "uint t2 + uint s1 div 2 ^ 51 = 2 ^ 51 * (uint s2 div 2 ^ 51) + uint r2" "uint t3 + uint s2 div 2 ^ 51 = 2 ^ 51 * (uint s3 div 2 ^ 51) + uint r3"
    unfolding v1(1) v2(1) v3(1) v4(1) v1(2) [symmetric] v2(2) [symmetric] v3(2) [symmetric] by simp_all
  from carry_telescope [OF this, of "uint t4"]
  show "wide_val (r0, r1, r2, r3, r4) = wide_val (t0, t1, t2, t3, t4)" unfolding wide_val.simps v4(2) .
qed

lemma wide_carry_top_val:
  assumes t: "uint t0 < 2 ^ 51" "uint t1 < 2 ^ 51" "uint t2 < 2 ^ 51" "uint t3 < 2 ^ 51" "19 * (uint t4 div 2 ^ 51) + 2 ^ 51 \<le> 2 ^ 64"
    and f: "fproduct_copy_from_wide (wide_carry_top (t0, t1, t2, t3, t4)) = (a0, a1, a2, a3, a4)"
  shows "uint a0 = uint t0 + 19 * (uint t4 div 2 ^ 51)" "uint a1 = uint t1" "uint a2 = uint t2" "uint a3 = uint t3" "uint a4 = uint t4 mod 2 ^ 51"
proof -
  let ?c = "uint t4 div 2 ^ 51"
  have c: "0 \<le> ?c" "?c < 2 ^ 64" using t(5) by (simp_all add: pos_imp_zdiv_nonneg_iff)
  have "uint (ucast (drop_bit 51 t4) :: u64) = ?c" using uint_narrow [of "drop_bit 51 t4"] c by (simp add: uint_shift51_wide)
  then have "uint (19 * ucast (ucast (drop_bit 51 t4) :: u64) :: u128) = 19 * ?c"
    using uint_product [of 19 "ucast (drop_bit 51 t4)"] by simp
  then have top: "uint (t0 + 19 * ucast (ucast (drop_bit 51 t4) :: u64) :: u128) = uint t0 + 19 * ?c"
    using uint_u128_add [of t0 "19 * ucast (ucast (drop_bit 51 t4) :: u64)"] t(1,5) by simp
  have a: "a0 = ucast (t0 + 19 * ucast (ucast (drop_bit 51 t4) :: u64))" "a1 = ucast t1" "a2 = ucast t2" "a3 = ucast t3"
    "a4 = ucast (t4 AND 0x7ffffffffffff)" using f by auto
  show "uint a0 = uint t0 + 19 * ?c" unfolding a(1) using t(1,5) top by (subst uint_narrow) simp_all
  show "uint a1 = uint t1" "uint a2 = uint t2" "uint a3 = uint t3" unfolding a using t by (simp_all add: uint_narrow)
  have "uint t4 mod 2 ^ 51 < 2 ^ 51" by simp
  then have "uint (t4 AND 0x7ffffffffffff) < 2 ^ 64" by (simp only: uint_mask51_wide) simp
  then show "uint a4 = uint t4 mod 2 ^ 51" unfolding a(5) by (simp only: uint_narrow uint_mask51_wide)
qed

text \<open>The multiple of the prime that a carry out of the top limb takes away.\<close>

lemma top_carry_val:
  assumes "a4 = t4 mod 2 ^ 51" "a0 = t0 + 19 * (t4 div 2 ^ 51)"
  shows "a0 + 2 ^ 51 * t1 + 2 ^ 102 * t2 + 2 ^ 153 * t3 + 2 ^ 204 * a4 =
    t0 + 2 ^ 51 * t1 + 2 ^ 102 * t2 + 2 ^ 153 * t3 + 2 ^ 204 * t4 + p25519 * (- (t4 div 2 ^ 51) :: int)"
proof -
  have "t4 = 2 ^ 51 * (t4 div 2 ^ 51) + a4" unfolding assms(1) by simp
  then show ?thesis unfolding assms(2) p25519_def by simp
qed

lemma carry_first_val:
  assumes "uint i1 < 2 ^ 51"
  shows "felem_val (carry_first (i0, i1, i2, i3, i4)) = felem_val (i0, i1, i2, i3, i4)"
    "uint i2 < 2 ^ 51 \<Longrightarrow> uint i3 < 2 ^ 51 \<Longrightarrow> uint i4 < 2 ^ 51 \<Longrightarrow> tight (carry_first (i0, i1, i2, i3, i4))"
proof -
  have d: "0 \<le> uint i0 div 2 ^ 51" "uint i0 div 2 ^ 51 < 2 ^ 13"
    using uint_u64 [of i0] div_51_bound [of "uint i0" "2 ^ 13"] by simp_all
  have 1: "uint (i1 + drop_bit 51 i0) = uint i1 + uint i0 div 2 ^ 51"
    using uint_u64_add [of i1 "drop_bit 51 i0"] assms d by (simp add: uint_shift51)
  have "uint i0 = 2 ^ 51 * (uint i0 div 2 ^ 51) + uint i0 mod 2 ^ 51" by simp
  then show "felem_val (carry_first (i0, i1, i2, i3, i4)) = felem_val (i0, i1, i2, i3, i4)"
    using 1 by (simp add: uint_mask51)
  have "uint i0 mod 2 ^ 51 < 2 ^ 51" by simp
  then show "uint i2 < 2 ^ 51 \<Longrightarrow> uint i3 < 2 ^ 51 \<Longrightarrow> uint i4 < 2 ^ 51 \<Longrightarrow> tight (carry_first (i0, i1, i2, i3, i4))"
    using 1 assms d by (simp add: tight_def uint_mask51)
qed

subsection \<open>Multiplication and squaring\<close>

text \<open>The carries that end a multiplication and a squaring.\<close>

lemma reduce_val:
  assumes t: "uint t0 < 2 ^ 120" "uint t1 < 2 ^ 120" "uint t2 < 2 ^ 120" "uint t3 < 2 ^ 120" "uint t4 \<le> 5 * ((2 ^ 54 + 2 ^ 51 + 2 ^ 13) * (2 ^ 54 + 2 ^ 51 + 2 ^ 13))"
  shows "tight (carry_first (fproduct_copy_from_wide (wide_carry_top (fproduct_carry_wide (t0, t1, t2, t3, t4)))))"
    "felem_val (carry_first (fproduct_copy_from_wide (wide_carry_top (fproduct_carry_wide (t0, t1, t2, t3, t4))))) mod p25519 =
      wide_val (t0, t1, t2, t3, t4) mod p25519"
proof -
  obtain r0 r1 r2 r3 r4 where r: "fproduct_carry_wide (t0, t1, t2, t3, t4) = (r0, r1, r2, r3, r4)" by (metis prod_cases5)
  have t4: "uint t4 < 2 ^ 120" using t(5) by simp
  note c = fproduct_carry_wide_val [OF r t(1-4) t4]
  obtain a0 a1 a2 a3 a4 where a: "fproduct_copy_from_wide (wide_carry_top (r0, r1, r2, r3, r4)) = (a0, a1, a2, a3, a4)" by (metis prod_cases5)
  have top: "19 * (uint r4 div 2 ^ 51) + 2 ^ 51 \<le> 2 ^ 64"
    using div_51_bound [of "uint r4" "2 ^ 64 div 20"] c(2) t(5) by simp
  note w = wide_carry_top_val [OF c(3-6) top a]
  have a1: "uint a1 < 2 ^ 51" "uint a2 < 2 ^ 51" "uint a3 < 2 ^ 51" "uint a4 < 2 ^ 51" using w c by simp_all
  show "tight (carry_first (fproduct_copy_from_wide (wide_carry_top (fproduct_carry_wide (t0, t1, t2, t3, t4)))))"
    unfolding r a by (rule carry_first_val(2) [OF a1])
  have "felem_val (a0, a1, a2, a3, a4) = wide_val (r0, r1, r2, r3, r4) + p25519 * (- (uint r4 div 2 ^ 51))"
    unfolding felem_val.simps wide_val.simps w(2-4) by (rule top_carry_val [OF w(5) w(1)])
  then have "felem_val (a0, a1, a2, a3, a4) mod p25519 = wide_val (r0, r1, r2, r3, r4) mod p25519" by (rule mod_p_eqI)
  then show "felem_val (carry_first (fproduct_copy_from_wide (wide_carry_top (fproduct_carry_wide (t0, t1, t2, t3, t4))))) mod p25519 =
      wide_val (t0, t1, t2, t3, t4) mod p25519"
    unfolding r a carry_first_val(1) [OF a1(1)] c(1) .
qed

lemma limb_product_51:
  "(a0 + 2 ^ 51 * a1 + 2 ^ 102 * a2 + 2 ^ 153 * a3 + 2 ^ 204 * a4) * (b0 + 2 ^ 51 * b1 + 2 ^ 102 * b2 + 2 ^ 153 * b3 + 2 ^ 204 * b4) mod p25519 =
    ((a0 * b0 + 19 * a4 * b1 + 19 * a3 * b2 + 19 * a2 * b3 + 19 * a1 * b4) +
    2 ^ 51 * (a1 * b0 + a0 * b1 + 19 * a4 * b2 + 19 * a3 * b3 + 19 * a2 * b4) +
    2 ^ 102 * (a2 * b0 + a1 * b1 + a0 * b2 + 19 * a4 * b3 + 19 * a3 * b4) +
    2 ^ 153 * (a3 * b0 + a2 * b1 + a1 * b2 + a0 * b3 + 19 * a4 * b4) +
    2 ^ 204 * (a4 * b0 + a3 * b1 + a2 * b2 + a1 * b3 + a0 * b4)) mod p25519"
proof -
  have R: "(2 ^ 51) ^ 5 = p25519 + 19" unfolding p25519_def by simp
  have n: "((2::int) ^ 51) ^ 2 = 2 ^ 102" "((2::int) ^ 51) ^ 3 = 2 ^ 153" "((2::int) ^ 51) ^ 4 = 2 ^ 204" by simp_all
  show ?thesis by (rule mod_p_eqI) (rule limb_product [OF R, unfolded n])
qed

lemma loose_products:
  assumes "loose (a0, a1, a2, a3, a4)" "loose (b0, b1, b2, b3, b4)" "x \<in> {a0, a1, a2, a3, a4}" "y \<in> {b0, b1, b2, b3, b4}"
  shows "uint x * uint y \<le> (2 ^ 54 + 2 ^ 51 + 2 ^ 13) * (2 ^ 54 + 2 ^ 51 + 2 ^ 13)"
  by (rule mult_mono) (use assms in \<open>auto simp: loose_def\<close>)

lemma fmul_fmul_correct:
  assumes "loose a" "loose b"
  shows "tight (fmul_fmul a b)" "felem_val (fmul_fmul a b) mod p25519 = felem_val a * felem_val b mod p25519"
proof -
  obtain a0 a1 a2 a3 a4 b0 b1 b2 b3 b4 where ab: "a = (a0, a1, a2, a3, a4)" "b = (b0, b1, b2, b3, b4)" by (metis prod_cases5)
  obtain t0 t1 t2 t3 t4 where t: "fmul_mul_shift_reduce (0, 0, 0, 0, 0) (a0, a1, a2, a3, a4) (b0, b1, b2, b3, b4) = (t0, t1, t2, t3, t4)"
    by (metis prod_cases5)
  note l = assms [unfolded ab]
  note v = fmul_mul_shift_reduce_val [OF l t]
  note p = loose_products [OF l]
  have b: "uint t0 < 2 ^ 120" "uint t1 < 2 ^ 120" "uint t2 < 2 ^ 120" "uint t3 < 2 ^ 120"
    unfolding v using p [of a0 b0] p [of a4 b1] p [of a3 b2] p [of a2 b3] p [of a1 b4]
      p [of a1 b0] p [of a0 b1] p [of a4 b2] p [of a3 b3] p [of a2 b4]
      p [of a2 b0] p [of a1 b1] p [of a0 b2] p [of a4 b3] p [of a3 b4]
      p [of a3 b0] p [of a2 b1] p [of a1 b2] p [of a0 b3] p [of a4 b4] by simp_all
  have b4: "uint t4 \<le> 5 * ((2 ^ 54 + 2 ^ 51 + 2 ^ 13) * (2 ^ 54 + 2 ^ 51 + 2 ^ 13))"
    unfolding v using p [of a4 b0] p [of a3 b1] p [of a2 b2] p [of a1 b3] p [of a0 b4] by simp
  note r = reduce_val [OF b b4]
  show "tight (fmul_fmul a b)" unfolding fmul_fmul_def Let_def ab t by (rule r(1))
  show "felem_val (fmul_fmul a b) mod p25519 = felem_val a * felem_val b mod p25519"
    unfolding fmul_fmul_def Let_def ab t r(2) felem_val.simps limb_product_51 unfolding wide_val.simps v ..
qed

lemma uint_sum3:
  assumes "uint x0 * uint y0 + uint x1 * uint y1 + uint x2 * uint y2 < 2 ^ 128"
  shows "uint (ucast x0 * ucast y0 + ucast x1 * ucast y1 + ucast x2 * ucast y2 :: u128) =
    uint (x0 :: u64) * uint (y0 :: u64) + uint (x1 :: u64) * uint (y1 :: u64) + uint (x2 :: u64) * uint (y2 :: u64)"
  using uint_sum5 [of "ucast x0 * ucast y0" "ucast x1 * ucast y1" "ucast x2 * ucast y2" 0 0] assms
  by (simp add: uint_product)

lemma fsquare_fsquare_wide_val:
  assumes "loose (r0, r1, r2, r3, r4)" "fsquare_fsquare_wide (r0, r1, r2, r3, r4) = (s0, s1, s2, s3, s4)"
  shows "uint s0 = uint r0 * uint r0 + 38 * (uint r4 * uint r1) + 38 * (uint r2 * uint r3)"
    "uint s1 = 2 * (uint r0 * uint r1) + 38 * (uint r4 * uint r2) + 19 * (uint r3 * uint r3)"
    "uint s2 = 2 * (uint r0 * uint r2) + uint r1 * uint r1 + 38 * (uint r4 * uint r3)"
    "uint s3 = 2 * (uint r0 * uint r3) + 2 * (uint r1 * uint r2) + 19 * (uint r4 * uint r4)"
    "uint s4 = 2 * (uint r0 * uint r4) + 2 * (uint r1 * uint r3) + uint r2 * uint r2"
proof -
  have b: "uint r0 < 2 ^ 55" "uint r1 < 2 ^ 55" "uint r2 < 2 ^ 55" "uint r3 < 2 ^ 55" "uint r4 < 2 ^ 55"
    using assms(1) by (simp_all add: loose_def)
  have n: "uint (r0 * 2) = uint r0 * 2" "uint (r1 * 2) = uint r1 * 2" "uint (r2 * 38) = uint r2 * 38"
    "uint (r3 * 19) = uint r3 * 19" "uint (r4 * 19) = uint r4 * 19" "uint (r4 * 38) = uint r4 * 38"
    using b uint_u64_mult [of r0 2] uint_u64_mult [of r1 2] uint_u64_mult [of r2 38] uint_u64_mult [of r3 19]
      uint_u64_mult [of r4 19] uint_u64_mult [of r4 38] by simp_all
  have s: "s0 = ucast r0 * ucast r0 + ucast (r4 * 38) * ucast r1 + ucast (r2 * 38) * ucast r3"
    "s1 = ucast (r0 * 2) * ucast r1 + ucast (r4 * 38) * ucast r2 + ucast (r3 * 19) * ucast r3"
    "s2 = ucast (r0 * 2) * ucast r2 + ucast r1 * ucast r1 + ucast (r4 * 38) * ucast r3"
    "s3 = ucast (r0 * 2) * ucast r3 + ucast (r1 * 2) * ucast r2 + ucast r4 * ucast (r4 * 19)"
    "s4 = ucast (r0 * 2) * ucast r4 + ucast (r1 * 2) * ucast r3 + ucast r2 * ucast r2"
    using assms(2) by (simp_all add: Let_def mult.assoc)
  note p = loose_products [OF assms(1) assms(1)]
  show "uint s0 = uint r0 * uint r0 + 38 * (uint r4 * uint r1) + 38 * (uint r2 * uint r3)"
    unfolding s(1) using p [of r0 r0] p [of r4 r1] p [of r2 r3] by (subst uint_sum3) (simp_all add: n)
  show "uint s1 = 2 * (uint r0 * uint r1) + 38 * (uint r4 * uint r2) + 19 * (uint r3 * uint r3)"
    unfolding s(2) using p [of r0 r1] p [of r4 r2] p [of r3 r3] by (subst uint_sum3) (simp_all add: n)
  show "uint s2 = 2 * (uint r0 * uint r2) + uint r1 * uint r1 + 38 * (uint r4 * uint r3)"
    unfolding s(3) using p [of r0 r2] p [of r1 r1] p [of r4 r3] by (subst uint_sum3) (simp_all add: n)
  show "uint s3 = 2 * (uint r0 * uint r3) + 2 * (uint r1 * uint r2) + 19 * (uint r4 * uint r4)"
    unfolding s(4) using p [of r0 r3] p [of r1 r2] p [of r4 r4] by (subst uint_sum3) (simp_all add: n)
  show "uint s4 = 2 * (uint r0 * uint r4) + 2 * (uint r1 * uint r3) + uint r2 * uint r2"
    unfolding s(5) using p [of r0 r4] p [of r1 r3] p [of r2 r2] by (subst uint_sum3) (simp_all add: n)
qed

lemma fsquare_fsquare_correct:
  assumes "loose a"
  shows "tight (fsquare_fsquare a)" "felem_val (fsquare_fsquare a) mod p25519 = felem_val a * felem_val a mod p25519"
proof -
  obtain a0 a1 a2 a3 a4 where a: "a = (a0, a1, a2, a3, a4)" by (metis prod_cases5)
  obtain t0 t1 t2 t3 t4 where t: "fsquare_fsquare_wide (a0, a1, a2, a3, a4) = (t0, t1, t2, t3, t4)"
    by (metis prod_cases5)
  note l = assms [unfolded a]
  note v = fsquare_fsquare_wide_val [OF l t]
  note p = loose_products [OF l l]
  have b: "uint t0 < 2 ^ 120" "uint t1 < 2 ^ 120" "uint t2 < 2 ^ 120" "uint t3 < 2 ^ 120"
    unfolding v using p [of a0 a0] p [of a4 a1] p [of a2 a3] p [of a0 a1] p [of a4 a2] p [of a3 a3] p [of a0 a2] p [of a1 a1] p [of a4 a3]
      p [of a0 a3] p [of a1 a2] p [of a4 a4] by simp_all
  have b4: "uint t4 \<le> 5 * ((2 ^ 54 + 2 ^ 51 + 2 ^ 13) * (2 ^ 54 + 2 ^ 51 + 2 ^ 13))"
    unfolding v using p [of a0 a4] p [of a1 a3] p [of a2 a2] by simp
  note r = reduce_val [OF b b4]
  show "tight (fsquare_fsquare a)" unfolding fsquare_fsquare_def Let_def a t by (rule r(1))
  show "felem_val (fsquare_fsquare a) mod p25519 = felem_val a * felem_val a mod p25519"
    unfolding fsquare_fsquare_def Let_def a t r(2) felem_val.simps limb_product_51 unfolding wide_val.simps v
    by (rule arg_cong [where f = "\<lambda>x. x mod p25519"]) (simp add: algebra_simps)
qed

subsection \<open>Sums, differences and scalar multiples\<close>

lemma fsum_correct:
  assumes "medium a" "medium b"
  shows "loose (fsum a b)" "felem_val (fsum a b) = felem_val a + felem_val b"
proof -
  obtain a0 a1 a2 a3 a4 b0 b1 b2 b3 b4 where ab: "a = (a0, a1, a2, a3, a4)" "b = (b0, b1, b2, b3, b4)" by (metis prod_cases5)
  have "uint (a0 + b0) = uint a0 + uint b0" "uint (a1 + b1) = uint a1 + uint b1" "uint (a2 + b2) = uint a2 + uint b2"
    "uint (a3 + b3) = uint a3 + uint b3" "uint (a4 + b4) = uint a4 + uint b4"
    using assms by (simp_all add: ab medium_def uint_u64_add)
  then show "loose (fsum a b)" "felem_val (fsum a b) = felem_val a + felem_val b"
    using assms unfolding ab by (simp_all add: medium_def loose_def)
qed

lemma uint_offset_sub:
  assumes "uint a < 2 ^ 51 + 2 ^ 13" "uint b < 2 ^ 51 + 2 ^ 13" "2 ^ 51 + 2 ^ 13 \<le> uint k" "uint k < 2 ^ 54"
  shows "uint (b + k - a :: u64) = uint b + uint k - uint a"
proof -
  have "uint (b + k) = uint b + uint k" using uint_u64_add [of b k] assms by simp
  moreover have "uint a \<le> uint b + uint k" using order_less_le_trans [OF assms(1,3)] uint_u64(1) [of b] by linarith
  ultimately show ?thesis using uint_sub_lem [of a "b + k"] by simp
qed

lemma fdifference_correct:
  assumes "tight a" "tight b"
  shows "loose (fdifference a b)" "felem_val (fdifference a b) mod p25519 = (felem_val b - felem_val a) mod p25519"
proof -
  obtain a0 a1 a2 a3 a4 b0 b1 b2 b3 b4 where ab: "a = (a0, a1, a2, a3, a4)" "b = (b0, b1, b2, b3, b4)" by (metis prod_cases5)
  have t: "uint a0 < 2 ^ 51 + 2 ^ 13" "uint a1 < 2 ^ 51 + 2 ^ 13" "uint a2 < 2 ^ 51 + 2 ^ 13" "uint a3 < 2 ^ 51 + 2 ^ 13" "uint a4 < 2 ^ 51 + 2 ^ 13"
    "uint b0 < 2 ^ 51 + 2 ^ 13" "uint b1 < 2 ^ 51 + 2 ^ 13" "uint b2 < 2 ^ 51 + 2 ^ 13" "uint b3 < 2 ^ 51 + 2 ^ 13" "uint b4 < 2 ^ 51 + 2 ^ 13"
    using assms unfolding ab tight_def by simp_all
  have v: "uint (b0 + 0x3fffffffffff68 - a0) = uint b0 + 0x3fffffffffff68 - uint a0"
    "uint (b1 + 0x3ffffffffffff8 - a1) = uint b1 + 0x3ffffffffffff8 - uint a1"
    "uint (b2 + 0x3ffffffffffff8 - a2) = uint b2 + 0x3ffffffffffff8 - uint a2"
    "uint (b3 + 0x3ffffffffffff8 - a3) = uint b3 + 0x3ffffffffffff8 - uint a3"
    "uint (b4 + 0x3ffffffffffff8 - a4) = uint b4 + 0x3ffffffffffff8 - uint a4"
    using uint_offset_sub [OF t(1,6), of "0x3fffffffffff68"] uint_offset_sub [OF t(2,7), of "0x3ffffffffffff8"]
      uint_offset_sub [OF t(3,8), of "0x3ffffffffffff8"] uint_offset_sub [OF t(4,9), of "0x3ffffffffffff8"]
      uint_offset_sub [OF t(5,10), of "0x3ffffffffffff8"] by simp_all
  have l: "y + k - uint x < 2 ^ 54 + 2 ^ 51 + 2 ^ 13" if "y < 2 ^ 51 + 2 ^ 13" "k < 2 ^ 54" for y k and x :: u64
    using that uint_u64(1) [of x] by linarith
  show "loose (fdifference a b)" unfolding ab fdifference.simps loose_def limbs_below.simps v by (intro conjI l t) simp_all
  have "felem_val (fdifference a b) = felem_val b - felem_val a + p25519 * 8"
    unfolding ab fdifference.simps felem_val.simps v p25519_def by simp
  then show "felem_val (fdifference a b) mod p25519 = (felem_val b - felem_val a) mod p25519" by (rule mod_p_eqI)
qed

lemma fscalar_correct:
  assumes "loose a" "uint s < 2 ^ 17"
  shows "medium (fscalar a s)" "felem_val (fscalar a s) mod p25519 = uint s * felem_val a mod p25519"
proof -
  obtain a0 a1 a2 a3 a4 where a: "a = (a0, a1, a2, a3, a4)" by (metis prod_cases5)
  have p: "uint x * uint s \<le> 2 ^ 55 * 2 ^ 17" if "x \<in> {a0, a1, a2, a3, a4}" for x
    by (rule mult_mono) (use assms that in \<open>auto simp: a loose_def\<close>)
  define t0 t1 t2 t3 t4 :: u128
    where t: "t0 = ucast a0 * ucast s" "t1 = ucast a1 * ucast s" "t2 = ucast a2 * ucast s" "t3 = ucast a3 * ucast s" "t4 = ucast a4 * ucast s"
  have v: "uint t0 = uint a0 * uint s" "uint t1 = uint a1 * uint s" "uint t2 = uint a2 * uint s" "uint t3 = uint a3 * uint s"
    "uint t4 = uint a4 * uint s" unfolding t by (rule uint_product)+
  have b: "uint t0 < 2 ^ 120" "uint t1 < 2 ^ 120" "uint t2 < 2 ^ 120" "uint t3 < 2 ^ 120" "uint t4 < 2 ^ 120"
    unfolding v using p [of a0] p [of a1] p [of a2] p [of a3] p [of a4] by simp_all
  obtain r0 r1 r2 r3 r4 where r: "fproduct_carry_wide (t0, t1, t2, t3, t4) = (r0, r1, r2, r3, r4)" by (metis prod_cases5)
  note c = fproduct_carry_wide_val [OF r b]
  obtain c0 c1 c2 c3 c4 where cc: "fproduct_copy_from_wide (wide_carry_top (r0, r1, r2, r3, r4)) = (c0, c1, c2, c3, c4)" by (metis prod_cases5)
  have d: "0 \<le> uint r4 div 2 ^ 51" "uint r4 div 2 ^ 51 < 2 ^ 22"
    using div_51_bound [of "uint r4" "2 ^ 22"] c(2) p [of a4] v(5) by simp_all
  have top: "19 * (uint r4 div 2 ^ 51) + 2 ^ 51 \<le> 2 ^ 64" using d by simp
  note w = wide_carry_top_val [OF c(3-6) top cc]
  have f: "fscalar a s = (c0, c1, c2, c3, c4)" unfolding a fscalar.simps Let_def t [symmetric] r cc ..
  have "uint c4 < 2 ^ 51" unfolding w(5) by simp
  then show "medium (fscalar a s)" unfolding f medium_def limbs_below.simps using w c(3-6) d by simp
  have "felem_val (c0, c1, c2, c3, c4) = wide_val (r0, r1, r2, r3, r4) + p25519 * (- (uint r4 div 2 ^ 51))"
    unfolding felem_val.simps wide_val.simps w(2-4) by (rule top_carry_val [OF w(5) w(1)])
  then have "felem_val (fscalar a s) mod p25519 = wide_val (t0, t1, t2, t3, t4) mod p25519"
    unfolding f c(1) by (rule mod_p_eqI)
  also have "wide_val (t0, t1, t2, t3, t4) = uint s * felem_val a" unfolding wide_val.simps v a by (simp add: algebra_simps)
  finally show "felem_val (fscalar a s) mod p25519 = uint s * felem_val a mod p25519" .
qed

subsection \<open>The field\<close>

interpretation hacl: ladder_field felem_val tight loose fmul_fmul fsquare_fsquare fsum "\<lambda>a b. fdifference b a"
  by unfold_locales (simp_all add: bound_mono fmul_fmul_correct fsquare_fsquare_correct fsum_correct fdifference_correct)

end
