(* ===== verification/Wg_Curve_Hacl.thy ===== *)
theory Wg_Curve_Hacl
  imports Wg_Curve_Field
begin

text \<open>
  The inversion and the ladder of \<open>curve25519-hacl64.h\<close>: \<open>crecip\<close> raises to the power \<open>2 ^ 255 - 21\<close>, and the
  nested loops take the steps of the ladder of RFC 7748 over the 256 bits of the scalar.
\<close>

subsection \<open>Inversion\<close>

lemma crecip_crecip_rep:
  assumes "tight z" and n: "n = 2 ^ 255 - 21"
  shows "hacl.rep (crecip_crecip z) (felem_val z ^ n)"
proof -
  define x where "x = felem_val z"
  have z: "hacl.rep_loose z (x ^ 1)" using assms hacl.rep_loose [OF hacl.rep_val(1)] by (simp add: x_def)
  note t = hacl.rep_power_sqr_times and m = hacl.rep_power_mul and l = hacl.rep_loose
  note times = fsquare_fsquare_times_def
  define a0 where a0: "a0 = fsquare_fsquare_times z 1"
  have ra0: "hacl.rep a0 (x ^ 2)" unfolding a0 times by (rule t [OF z]) simp
  define b0 where b0: "b0 = fmul_fmul (fsquare_fsquare_times a0 2) z"
  have rb0: "hacl.rep b0 (x ^ 9)" unfolding b0 times by (rule m [OF l [OF t [OF l [OF ra0]]] z]) simp_all
  define a1 where a1: "a1 = fmul_fmul b0 a0"
  have ra1: "hacl.rep a1 (x ^ 11)" unfolding a1 by (rule m [OF l [OF rb0] l [OF ra0]]) simp
  define b1 where b1: "b1 = fmul_fmul (fsquare_fsquare_times a1 1) b0"
  have rb1: "hacl.rep b1 (x ^ (2 ^ 5 - 1))" unfolding b1 times by (rule m [OF l [OF t [OF l [OF ra1]]] l [OF rb0]]) simp_all
  define b2 where b2: "b2 = fmul_fmul (fsquare_fsquare_times b1 5) b1"
  have rb2: "hacl.rep b2 (x ^ (2 ^ 10 - 1))" unfolding b2 times by (rule m [OF l [OF t [OF l [OF rb1]]] l [OF rb1]]) simp_all
  define c0 where c0: "c0 = fmul_fmul (fsquare_fsquare_times b2 10) b2"
  have rc0: "hacl.rep c0 (x ^ (2 ^ 20 - 1))" unfolding c0 times by (rule m [OF l [OF t [OF l [OF rb2]]] l [OF rb2]]) simp_all
  define t1 where t1: "t1 = fmul_fmul (fsquare_fsquare_times c0 20) c0"
  have rt1: "hacl.rep t1 (x ^ (2 ^ 40 - 1))" unfolding t1 times by (rule m [OF l [OF t [OF l [OF rc0]]] l [OF rc0]]) simp_all
  define b3 where b3: "b3 = fmul_fmul (fsquare_fsquare_times t1 10) b2"
  have rb3: "hacl.rep b3 (x ^ (2 ^ 50 - 1))" unfolding b3 times by (rule m [OF l [OF t [OF l [OF rt1]]] l [OF rb2]]) simp_all
  define c1 where c1: "c1 = fmul_fmul (fsquare_fsquare_times b3 50) b3"
  have rc1: "hacl.rep c1 (x ^ (2 ^ 100 - 1))" unfolding c1 times by (rule m [OF l [OF t [OF l [OF rb3]]] l [OF rb3]]) simp_all
  define t2 where t2: "t2 = fmul_fmul (fsquare_fsquare_times c1 100) c1"
  have rt2: "hacl.rep t2 (x ^ (2 ^ 200 - 1))" unfolding t2 times by (rule m [OF l [OF t [OF l [OF rc1]]] l [OF rc1]]) simp_all
  define t3 where t3: "t3 = fmul_fmul (fsquare_fsquare_times t2 50) b3"
  have rt3: "hacl.rep t3 (x ^ (2 ^ 250 - 1))" unfolding t3 times by (rule m [OF l [OF t [OF l [OF rt2]]] l [OF rb3]]) simp_all
  have "hacl.rep (fmul_fmul (fsquare_fsquare_times t3 5) a1) (x ^ n)"
    unfolding times n by (rule m [OF l [OF t [OF l [OF rt3]]] l [OF ra1]]) simp_all
  moreover have "crecip_crecip z = fmul_fmul (fsquare_fsquare_times t3 5) a1"
    unfolding crecip_crecip_def Let_def t3 t2 c1 b3 t1 c0 b2 b1 a1 b0 a0 ..
  ultimately show ?thesis by (simp only: x_def)
qed

subsection \<open>The conditional swap\<close>

lemma point_swap_conditional_step_eq:
  "point_swap_conditional_step a b 0 = (a, b)" "point_swap_conditional_step a b (- 1) = (b, a)"
  by (simp_all add: point_swap_conditional_step_def Let_def xor.assoc [symmetric] xor.commute [of b] xor.assoc [of a])

lemma point_swap_conditional5_eq:
  "point_swap_conditional5 a b 0 = (a, b)" "point_swap_conditional5 a b (- 1) = (b, a)"
  by (cases a; cases b; simp add: point_swap_conditional_step_eq)+

lemma point_swap_conditional_eq: "point_swap_conditional a b (of_bool s) = swap_if s (a, b)"
  by (cases a; cases b; cases s) (simp_all add: swap_if_def point_swap_conditional5_eq del: point_swap_conditional5.simps)

lemma top_bit_byte: "(ucast (drop_bit 7 b) :: u64) = of_bool (bit (b :: u8) 7)"
proof (rule bit_word_eqI)
  fix n
  have "\<not> bit b (7 + n)" if "n \<noteq> 0" using that bit_imp_le_length [of b "7 + n"] by auto
  then show "bit (ucast (drop_bit 7 b) :: u64) n \<longleftrightarrow> bit (of_bool (bit b 7) :: u64) n"
    by (cases "n = 0") (auto simp: bit_ucast_iff bit_drop_bit_eq bit_of_bool_iff)
qed

subsection \<open>The step of the ladder\<close>

fun rep_point :: "point \<Rightarrow> int \<times> int \<Rightarrow> bool" where
  "rep_point (x, z) (X, Z) = (hacl.rep x X \<and> hacl.rep z Z)"

fun rep_pair :: "point \<times> point \<Rightarrow> (int \<times> int) \<times> (int \<times> int) \<Rightarrow> bool" where
  "rep_pair (P, Q) (X, Y) = (rep_point P X \<and> rep_point Q Y)"

lemma rep_pair_swap: "rep_pair s S \<Longrightarrow> rep_pair (swap_if b s) (swap_if b S)"
  by (cases s; cases S) (simp add: swap_if_def)

lemma fscalar_rep:
  assumes "hacl.rep_loose a x" "hacl.rep b y"
  shows "hacl.rep_loose (fsum (fscalar a 121665) b) (y + 121665 * x)"
proof -
  have a: "loose a" "felem_val a mod p25519 = x mod p25519" and b: "tight b" "felem_val b mod p25519 = y mod p25519"
    using assms by (simp_all add: hacl.rep_def hacl.rep_loose_def)
  note s = fscalar_correct [OF a(1), of 121665, simplified]
  note f = fsum_correct [OF s(1) bound_mono(1) [OF b(1)]]
  have "121665 * felem_val a mod p25519 = 121665 * x mod p25519" by (rule mod_mult_cong [OF refl a(2)])
  then have "felem_val (fsum (fscalar a 121665) b) mod p25519 = (121665 * x + y) mod p25519"
    unfolding f(2) using s(2) b(2) by (intro mod_add_cong) simp_all
  then show ?thesis using f(1) by (simp add: hacl.rep_loose_def add.commute)
qed

lemma addanddouble_fmonty_rep:
  assumes "rep_pair (p, q) s" "hacl.rep u U"
  shows "rep_pair (addanddouble_fmonty p q u) (ladder_step U s)"
proof -
  obtain x z x' z' X Z X' Z' where e: "p = (x, z)" "q = (x', z')" "s = ((X, Z), (X', Z'))" by (metis surj_pair)
  have r: "hacl.rep x X" "hacl.rep z Z" "hacl.rep x' X'" "hacl.rep z' Z'" using assms(1) by (simp_all add: e)
  note l = hacl.rep_loose
  note a = hacl.rep_add [OF r(1,2)] and b = hacl.rep_sub [OF r(1,2)]
    and c = hacl.rep_add [OF r(3,4)] and d = hacl.rep_sub [OF r(3,4)]
  note cb = hacl.rep_mul [OF c b] and da = hacl.rep_mul [OF a d]
  note x3 = hacl.rep_sqr [OF hacl.rep_add [OF cb da]] and z3 = hacl.rep_mul [OF l [OF hacl.rep_sqr [OF hacl.rep_sub [OF cb da]]] l [OF assms(2)]]
  note aa = hacl.rep_sqr [OF a] and bb = hacl.rep_sqr [OF b]
  note ee = hacl.rep_sub [OF aa bb]
  note x2 = hacl.rep_mul [OF l [OF aa] l [OF bb]] and z2 = hacl.rep_mul [OF fscalar_rep [OF ee aa] ee]
  show ?thesis unfolding e addanddouble_fmonty.simps ladder_step.simps Let_def fsquare_fsquare_times_def fmul_def
    using x2 z2 x3 z3 by (simp add: hacl.rep_mod algebra_simps)
qed

subsection \<open>The loops\<close>

lemma small_loop_step_rep:
  assumes "rep_pair (nq, nqpq) s" "hacl.rep q u"
  shows "rep_pair (ladder_smallloop_cmult_small_loop_step nq nqpq q byt) (ladder u [bit byt 7] s)"
proof -
  obtain a b where ab: "swap_if (bit byt 7) (nq, nqpq) = (a, b)" by (rule prod.exhaust)
  have "rep_pair (a, b) (swap_if (bit byt 7) s)" using rep_pair_swap [OF assms(1), of "bit byt 7"] by (simp add: ab)
  from rep_pair_swap [OF addanddouble_fmonty_rep [OF this assms(2)], of "bit byt 7"]
  show ?thesis
    by (simp add: ladder_smallloop_cmult_small_loop_step_def Let_def top_bit_byte point_swap_conditional_eq ab split: prod.split)
qed

lemma small_loop_double_step_rep:
  assumes "rep_pair (nq, nqpq) s" "hacl.rep q u"
  shows "rep_pair (ladder_smallloop_cmult_small_loop_double_step nq nqpq q byt) (ladder u [bit byt 7, bit byt 6] s)"
proof -
  obtain a b where ab: "ladder_smallloop_cmult_small_loop_step nq nqpq q byt = (a, b)" by (rule prod.exhaust)
  have "rep_pair (a, b) (ladder u [bit byt 7] s)" using small_loop_step_rep [OF assms, of byt] by (simp only: ab)
  moreover have "bit (push_bit 1 byt) 7 = bit byt 6" unfolding bit_push_bit_iff by simp
  ultimately have "rep_pair (ladder_smallloop_cmult_small_loop_step a b q (push_bit 1 byt)) (ladder u [bit byt 7, bit byt 6] s)"
    using small_loop_step_rep [OF _ assms(2), of a b "ladder u [bit byt 7] s" "push_bit 1 byt"] by (simp only: ladder.simps)
  then show ?thesis unfolding ladder_smallloop_cmult_small_loop_double_step_def ab Let_def prod.case .
qed

lemma small_loop_rep:
  assumes "rep_pair (nq, nqpq) s" "hacl.rep q u"
  shows "rep_pair (ladder_smallloop_cmult_small_loop nq nqpq q byt 4) (ladder u (map (bit byt) (rev [0..<8])) s)"
proof -
  have 4: "(4::nat) = Suc (Suc (Suc (Suc 0)))" by simp
  define b2 b4 b6 where b: "b2 = push_bit 2 byt" "b4 = push_bit 2 b2" "b6 = push_bit 2 b4"
  obtain a b where 1: "ladder_smallloop_cmult_small_loop_double_step nq nqpq q byt = (a, b)" by (rule prod.exhaust)
  obtain c d where 2: "ladder_smallloop_cmult_small_loop_double_step a b q b2 = (c, d)" by (rule prod.exhaust)
  obtain e f where 3: "ladder_smallloop_cmult_small_loop_double_step c d q b4 = (e, f)" by (rule prod.exhaust)
  note r1 = small_loop_double_step_rep [OF assms, of byt, unfolded 1]
  note r2 = small_loop_double_step_rep [OF r1 assms(2), of b2, unfolded 2]
  note r3 = small_loop_double_step_rep [OF r2 assms(2), of b4, unfolded 3]
  note r4 = small_loop_double_step_rep [OF r3 assms(2), of b6]
  have "ladder_smallloop_cmult_small_loop nq nqpq q byt 4 = ladder_smallloop_cmult_small_loop_double_step e f q b6"
    unfolding 4 ladder_smallloop_cmult_small_loop.simps 1 b [symmetric] Let_def prod.case 2 3 by (simp split: prod.split)
  moreover have "bit b2 7 = bit byt 5" "bit b2 6 = bit byt 4" "bit b4 7 = bit byt 3" "bit b4 6 = bit byt 2" "bit b6 7 = bit byt 1" "bit b6 6 = bit byt 0"
    unfolding b bit_push_bit_iff by simp_all
  moreover have "rev [0..<8] = [7, 6, 5, 4, 3, 2, 1, 0::nat]" by (simp add: upt_rec)
  ultimately show ?thesis using r4 by simp
qed

lemma big_loop_rep:
  assumes "rep_pair (nq, nqpq) s" "hacl.rep q u"
  shows "rep_pair (ladder_bigloop_cmult_big_loop n1 nq nqpq q i)
    (ladder u (concat (map (\<lambda>i. map (bit (n1 ! i)) (rev [0..<8])) (rev [0..<i]))) s)"
  using assms(1)
proof (induction i arbitrary: nq nqpq s)
  case (Suc i)
  obtain a b where ab: "ladder_smallloop_cmult_small_loop nq nqpq q (n1 ! i) 4 = (a, b)" by (rule prod.exhaust)
  show ?case using Suc.IH [OF small_loop_rep [OF Suc.prems assms(2), of "n1 ! i", unfolded ab]]
    by (simp add: ab ladder_append del: upt_Suc) (simp add: ladder_append)
qed simp

lemma hacl_one_zero: "hacl.rep (1, 0, 0, 0, 0) 1" "hacl.rep (0, 0, 0, 0, 0) 0"
  unfolding hacl.rep_def by (simp_all add: tight_def)

lemma ladder_cmult_rep:
  assumes "length e = 32" "hacl.rep x u"
  shows "rep_point (ladder_cmult e (x, (1, 0, 0, 0, 0))) (fst (ladder u (scalar_bits 256 (le_int e)) ((1, 0), (u, 1))))"
proof -
  let ?s = "((1, 0, 0, 0, 0), (0, 0, 0, 0, 0))"
  have "rep_pair (?s, (x, (1, 0, 0, 0, 0))) ((1, 0), (u, 1))" using assms(2) hacl_one_zero by simp
  from big_loop_rep [OF this assms(2), of e 32]
  have "rep_pair (ladder_bigloop_cmult_big_loop e ?s (x, (1, 0, 0, 0, 0)) x 32) (ladder u (scalar_bits 256 (le_int e)) ((1, 0), (u, 1)))"
    using scalar_bits_bytes [of 32 e] assms(1) by simp
  then show ?thesis by (cases "ladder_bigloop_cmult_big_loop e ?s (x, (1, 0, 0, 0, 0)) x 32")
    (cases "ladder u (scalar_bits 256 (le_int e)) ((1, 0), (u, 1))", simp add: ladder_cmult_def)
qed

end
