(* ===== verification/Wg_Curve_Format.thy ===== *)
theory Wg_Curve_Format
  imports Wg_Curve_Field
begin

text \<open>
  Reading and writing an element: \<open>format_fexpand\<close> takes the 255 low bits of 32 bytes, and
  \<open>format_fcontract\<close> writes the remainder modulo the prime, with the masks that compare without branching.
\<close>

subsection \<open>Reading an element\<close>

lemma uint_get_unaligned_le64: "uint (get_unaligned_le64 a) = take_bit 64 (le_int a)"
  by (rule bit_eqI) (simp add: get_unaligned_le64_def bit_uint_iff bit_read_le le_int_take bit_take_bit_iff)

lemma uint_masked_shift: "uint (drop_bit n w AND mask51) = take_bit 51 (drop_bit n (uint (w :: u64)))"
  by (rule bit_eqI) (auto simp: mask51_eq bit_uint_iff bit_and_iff bit_mask_iff bit_take_bit_iff bit_drop_bit_eq dest: bit_imp_le_length)

lemma format_fexpand_correct: "tight (format_fexpand bs)" "felem_val (format_fexpand bs) = take_bit 255 (le_int bs)"
proof -
  let ?s = "\<lambda>n. take_bit 51 (drop_bit n (le_int bs))"
  have s: "take_bit 51 (drop_bit n (take_bit 64 (drop_bit m (le_int bs)))) = ?s (m + n)" if "n + 51 \<le> 64" for m n
    using that by (intro bit_eqI) (auto simp: bit_take_bit_iff bit_drop_bit_eq add.assoc)
  have limbs: "uint (get_unaligned_le64 bs AND mask51) = ?s 0"
    "uint (drop_bit 3 (get_unaligned_le64 (drop 6 bs)) AND mask51) = ?s 51"
    "uint (drop_bit 6 (get_unaligned_le64 (drop 12 bs)) AND mask51) = ?s 102"
    "uint (drop_bit 1 (get_unaligned_le64 (drop 19 bs)) AND mask51) = ?s 153"
    "uint (drop_bit 12 (get_unaligned_le64 (drop 24 bs)) AND mask51) = ?s 204"
    using s [of 0 0] s [of 3 48] s [of 6 96] s [of 1 152] s [of 12 192]
      uint_masked_shift [of 0 "get_unaligned_le64 bs"] uint_masked_shift [of 3 "get_unaligned_le64 (drop 6 bs)"]
      uint_masked_shift [of 6 "get_unaligned_le64 (drop 12 bs)"] uint_masked_shift [of 1 "get_unaligned_le64 (drop 19 bs)"]
      uint_masked_shift [of 12 "get_unaligned_le64 (drop 24 bs)"]
    by (simp_all only: uint_get_unaligned_le64 le_int_drop drop_bit_0 id_apply mult_numeral_left_semiring_numeral) simp_all
  have b: "?s n < 2 ^ 51 + 2 ^ 13" for n using take_bit_int_less_exp [of 51 "drop_bit n (le_int bs)"] by simp
  show "tight (format_fexpand bs)" unfolding format_fexpand_def Let_def tight_def limbs_below.simps limbs by (intro conjI b)
  show "felem_val (format_fexpand bs) = take_bit 255 (le_int bs)"
    unfolding format_fexpand_def Let_def felem_val.simps limbs drop_bit_0 id_apply by (rule take_bit_slices5)
qed

subsection \<open>The masks\<close>

lemma top_bit_u64: "bit (x :: u64) 63 \<longleftrightarrow> 2 ^ 63 \<le> uint x"
proof -
  have "bit x 63 \<longleftrightarrow> bit (uint x) 63" by (simp add: bit_uint_iff)
  also have "\<dots> \<longleftrightarrow> odd (uint x div 2 ^ 63)" by (rule bit_iff_odd)
  finally have o: "bit x 63 \<longleftrightarrow> odd (uint x div 2 ^ 63)" .
  show ?thesis
  proof (cases "2 ^ 63 \<le> uint x")
    case True
    then have "uint x div 2 ^ 63 = 1" using uint_u64(2) [of x] by (intro int_div_pos_eq [where r = "uint x - 2 ^ 63"]) simp_all
    then show ?thesis using o True by simp
  next
    case False
    then have "uint x div 2 ^ 63 = 0" using uint_u64(1) [of x] by (intro div_pos_pos_trivial) simp_all
    then show ?thesis using o False by simp
  qed
qed

lemma shift_63: "drop_bit 63 (x :: u64) = of_bool (bit x 63)"
proof (rule bit_word_eqI)
  fix n
  have "\<not> bit x (63 + n)" if "n \<noteq> 0" using that bit_imp_le_length [of x "63 + n"] by auto
  then show "bit (drop_bit 63 x) n \<longleftrightarrow> bit (of_bool (bit x 63) :: u64) n"
    by (cases "n = 0") (auto simp: bit_drop_bit_eq bit_of_bool_iff)
qed

lemma uint_u64_minus: "uint (a - b :: u64) = (if uint b \<le> uint a then uint a - uint b else uint a - uint b + 2 ^ 64)"
  using uint_sub_if' [of a b] by simp

lemma bit_63_or_minus:
  assumes "(x :: u64) \<noteq> 0"
  shows "bit (x OR - x) 63"
proof -
  have "uint x \<noteq> 0" using assms by (simp only: uint_0_iff not_False_eq_True)
  then have "0 < uint x" using uint_u64(1) [of x] by linarith
  then have "uint (0 - x) = 2 ^ 64 - uint x" unfolding uint_u64_minus by simp
  then have "uint (- x) = 2 ^ 64 - uint x" by simp
  then show ?thesis unfolding bit_or_iff unfolding top_bit_u64 by simp linarith
qed

lemma xor_eq_0: "a XOR b = 0 \<longleftrightarrow> a = (b :: u64)"
proof
  assume "a XOR b = 0"
  then have "(a XOR b) XOR b = b" by (simp only: xor.left_neutral)
  then show "a = b" by (simp only: xor.assoc xor_self_eq xor.right_neutral)
qed simp

lemma u64_eq_mask_eq: "u64_eq_mask a b = (if a = b then - 1 else 0)"
proof -
  have n: "NOT (a XOR b) + 1 = - (a XOR b)" by (rule minus_eq_not_plus_1 [symmetric])
  show ?thesis
  proof (cases "a = b")
    case True
    then show ?thesis by (simp add: u64_eq_mask_def)
  next
    case False
    then have "bit ((a XOR b) OR - (a XOR b)) 63" by (intro bit_63_or_minus) (simp only: xor_eq_0 not_False_eq_True)
    then show ?thesis unfolding u64_eq_mask_def Let_def n shift_63 using False by simp
  qed
qed

lemma borrow_of_top_bits:
  fixes a b :: int
  assumes "0 \<le> a" "a < 2 * h" "0 \<le> b" "b < 2 * h" "s = (if b \<le> a then a - b else a - b + 2 * h)"
  shows "(h \<le> a) \<noteq> (((h \<le> a) \<noteq> (h \<le> b)) \<or> ((h \<le> s) \<noteq> (h \<le> b))) \<longleftrightarrow> \<not> b \<le> a"
  using assms by (cases "h \<le> a"; cases "h \<le> b"; cases "b \<le> a"; simp)

lemma u64_gte_mask_eq: "u64_gte_mask a b = (if b \<le> a then - 1 else 0)"
proof -
  have "bit (a XOR ((a XOR b) OR ((a - b) XOR b))) 63 \<longleftrightarrow> \<not> b \<le> a"
    unfolding bit_xor_iff bit_or_iff unfolding top_bit_u64 word_le_def
    by (rule borrow_of_top_bits) (use uint_u64 [of a] uint_u64 [of b] uint_u64_minus [of a b] in simp_all)
  then show ?thesis by (simp add: u64_gte_mask_def Let_def shift_63)
qed

subsection \<open>The canonical form\<close>

text \<open>A pass of carries leaves four limbs of 51 bits and the same value.\<close>

lemma carry_pass_limb:
  assumes "uint x < 2 ^ 52" "uint y < 2 ^ 52"
  shows "uint (y + drop_bit 51 x :: u64) = uint y + uint x div 2 ^ 51" "0 \<le> uint x div 2 ^ 51" "uint x div 2 ^ 51 < 2"
proof -
  show b: "0 \<le> uint x div 2 ^ 51" "uint x div 2 ^ 51 < 2" using div_51_bound [of "uint x" 2] assms by simp_all
  show "uint (y + drop_bit 51 x) = uint y + uint x div 2 ^ 51"
    using uint_u64_add [of y "drop_bit 51 x"] b assms by (simp add: uint_shift51)
qed

lemma carry_pass_val:
  assumes "limbs_below (2 ^ 52 - 1) t" "format_fcontract_first_carry_pass t = (r0, r1, r2, r3, r4)"
  shows "felem_val (r0, r1, r2, r3, r4) = felem_val t" "uint r0 < 2 ^ 51" "uint r1 < 2 ^ 51" "uint r2 < 2 ^ 51" "uint r3 < 2 ^ 51"
    "uint r4 < 2 ^ 52"
proof -
  obtain t0 t1 t2 t3 t4 where t: "t = (t0, t1, t2, t3, t4)" by (metis prod_cases5)
  define s1 s2 s3 s4 where s: "s1 = t1 + drop_bit 51 t0" "s2 = t2 + drop_bit 51 s1" "s3 = t3 + drop_bit 51 s2" "s4 = t4 + drop_bit 51 s3"
  have b: "uint t0 < 2 ^ 52 - 1" "uint t1 < 2 ^ 52 - 1" "uint t2 < 2 ^ 52 - 1" "uint t3 < 2 ^ 52 - 1" "uint t4 < 2 ^ 52 - 1" using assms(1) t by simp_all
  have r: "r0 = t0 AND mask51" "r1 = s1 AND mask51" "r2 = s2 AND mask51" "r3 = s3 AND mask51" "r4 = s4"
    using assms(2) by (simp_all add: t s Let_def)
  have 1: "uint s1 = uint t1 + uint t0 div 2 ^ 51" "uint s1 < 2 ^ 52" unfolding s(1) using carry_pass_limb [of t0 t1] b by simp_all
  have 2: "uint s2 = uint t2 + uint s1 div 2 ^ 51" "uint s2 < 2 ^ 52" unfolding s(2) using carry_pass_limb [of s1 t2] b 1(2) by simp_all
  have 3: "uint s3 = uint t3 + uint s2 div 2 ^ 51" "uint s3 < 2 ^ 52" unfolding s(3) using carry_pass_limb [of s2 t3] b 2(2) by simp_all
  have 4: "uint s4 = uint t4 + uint s3 div 2 ^ 51" "uint s4 < 2 ^ 52" unfolding s(4) using carry_pass_limb [of s3 t4] b 3(2) by simp_all
  show "uint r4 < 2 ^ 52" unfolding r using 4(2) .
  show "uint r0 < 2 ^ 51" "uint r1 < 2 ^ 51" "uint r2 < 2 ^ 51" "uint r3 < 2 ^ 51" unfolding r uint_mask51 by simp_all
  have "uint t0 = 2 ^ 51 * (uint t0 div 2 ^ 51) + uint r0" "uint t1 + uint t0 div 2 ^ 51 = 2 ^ 51 * (uint s1 div 2 ^ 51) + uint r1"
    "uint t2 + uint s1 div 2 ^ 51 = 2 ^ 51 * (uint s2 div 2 ^ 51) + uint r2" "uint t3 + uint s2 div 2 ^ 51 = 2 ^ 51 * (uint s3 div 2 ^ 51) + uint r3"
    unfolding r uint_mask51 1(1) [symmetric] 2(1) [symmetric] 3(1) [symmetric] by simp_all
  from carry_telescope [OF this, of "uint t4"] show "felem_val (r0, r1, r2, r3, r4) = felem_val t"
    unfolding t felem_val.simps r(5) 4(1) .
qed

lemma modulo_carry_top_val:
  assumes "uint r0 < 2 ^ 51" "uint r4 < 2 ^ 52" "modulo_carry_top (r0, r1, r2, r3, r4) = (a0, a1, a2, a3, a4)"
  shows "felem_val (a0, a1, a2, a3, a4) = felem_val (r0, r1, r2, r3, r4) + p25519 * (- (uint r4 div 2 ^ 51))"
    "uint a0 = uint r0 + 19 * (uint r4 div 2 ^ 51)" "a1 = r1" "a2 = r2" "a3 = r3" "uint a4 = uint r4 mod 2 ^ 51"
proof -
  have d: "0 \<le> uint r4 div 2 ^ 51" "uint r4 div 2 ^ 51 < 2" using div_51_bound [of "uint r4" 2] assms(2) by simp_all
  have a: "a0 = r0 + 19 * drop_bit 51 r4" "a4 = r4 AND mask51" and "a1 = r1" "a2 = r2" "a3 = r3" using assms(3) by auto
  then show e: "a1 = r1" "a2 = r2" "a3 = r3" by simp_all
  have "uint (19 * drop_bit 51 r4) = 19 * (uint r4 div 2 ^ 51)" using uint_19 [of "drop_bit 51 r4"] d by (simp add: uint_shift51)
  then show a0: "uint a0 = uint r0 + 19 * (uint r4 div 2 ^ 51)"
    unfolding a(1) using uint_u64_add [of r0 "19 * drop_bit 51 r4"] assms(1) d by simp
  show a4: "uint a4 = uint r4 mod 2 ^ 51" unfolding a(2) by (rule uint_mask51)
  show "felem_val (a0, a1, a2, a3, a4) = felem_val (r0, r1, r2, r3, r4) + p25519 * (- (uint r4 div 2 ^ 51))"
    unfolding felem_val.simps e by (rule top_carry_val [OF a4 a0])
qed

abbreviation reduced :: "felem \<Rightarrow> bool" where
  "reduced \<equiv> limbs_below (2 ^ 51)"

lemma first_carry_full_val:
  assumes "tight t" "format_fcontract_first_carry_full t = (a0, a1, a2, a3, a4)"
  shows "felem_val (a0, a1, a2, a3, a4) mod p25519 = felem_val t mod p25519"
    "uint a0 < 2 ^ 51 + 19" "uint a1 < 2 ^ 51" "uint a2 < 2 ^ 51" "uint a3 < 2 ^ 51" "uint a4 < 2 ^ 51"
proof -
  obtain r0 r1 r2 r3 r4 where r: "format_fcontract_first_carry_pass t = (r0, r1, r2, r3, r4)" by (metis prod_cases5)
  have "limbs_below (2 ^ 52 - 1) t" using assms(1) unfolding tight_def by (rule limbs_below_mono) simp
  note p = carry_pass_val [OF this r]
  note m = modulo_carry_top_val [OF p(2,6) assms(2) [unfolded format_fcontract_first_carry_full_def r]]
  show "felem_val (a0, a1, a2, a3, a4) mod p25519 = felem_val t mod p25519" unfolding p(1) [symmetric] by (rule mod_p_eqI [OF m(1)])
  show "uint a1 < 2 ^ 51" "uint a2 < 2 ^ 51" "uint a3 < 2 ^ 51" "uint a4 < 2 ^ 51" unfolding m(3-6) using p by simp_all
  have "uint r4 div 2 ^ 51 < 2" using div_51_bound [of "uint r4" 2] p(6) by simp
  then show "uint a0 < 2 ^ 51 + 19" unfolding m(2) using p(2) by simp
qed

lemma carry_first_small: "uint b0 < 2 ^ 51 \<Longrightarrow> carry_first (b0, b1, b2, b3, b4) = (b0, b1, b2, b3, b4)"
proof -
  assume b: "uint b0 < 2 ^ 51"
  then have "uint (b0 AND mask51) = uint b0" "uint (drop_bit 51 b0) = 0" unfolding uint_mask51 uint_shift51 by simp_all
  then have "b0 AND mask51 = b0" "drop_bit 51 b0 = 0" by (simp_all only: word_uint_eq_iff unsigned_0)
  then show ?thesis by simp
qed

lemma second_carry_full_val:
  assumes a: "uint a0 < 2 ^ 51 + 19" "uint a1 < 2 ^ 51" "uint a2 < 2 ^ 51" "uint a3 < 2 ^ 51" "uint a4 < 2 ^ 51"
  shows "reduced (format_fcontract_second_carry_full (a0, a1, a2, a3, a4))"
    "felem_val (format_fcontract_second_carry_full (a0, a1, a2, a3, a4)) mod p25519 = felem_val (a0, a1, a2, a3, a4) mod p25519"
proof -
  obtain s0 s1 s2 s3 s4 where s: "format_fcontract_first_carry_pass (a0, a1, a2, a3, a4) = (s0, s1, s2, s3, s4)" by (metis prod_cases5)
  have "limbs_below (2 ^ 52 - 1) (a0, a1, a2, a3, a4)" using a by simp
  note p = carry_pass_val [OF this s]
  obtain b0 b1 b2 b3 b4 where b: "modulo_carry_top (s0, s1, s2, s3, s4) = (b0, b1, b2, b3, b4)" by (metis prod_cases5)
  note m = modulo_carry_top_val [OF p(2,6) b]
  have "felem_val (s0, s1, s2, s3, s4) < 2 ^ 255 + 19" unfolding p(1) using a by simp
  moreover have "uint s0 + 2 ^ 204 * uint s4 \<le> felem_val (s0, s1, s2, s3, s4)" by simp
  ultimately have top: "uint s0 + 2 ^ 204 * uint s4 < 2 ^ 255 + 19" by (rule order_le_less_trans [rotated])
  have b0: "uint b0 < 2 ^ 51"
  proof (cases "uint s4 < 2 ^ 51")
    case True
    then have "uint s4 div 2 ^ 51 = 0" by simp
    then show ?thesis using m(2) p(2) by simp
  next
    case False
    then have "uint s0 < 19" using top by simp
    moreover have "uint s4 div 2 ^ 51 < 2" using div_51_bound [of "uint s4" 2] p(6) by simp
    ultimately show ?thesis using m(2) by simp
  qed
  have e: "format_fcontract_second_carry_full (a0, a1, a2, a3, a4) = (b0, b1, b2, b3, b4)"
    unfolding format_fcontract_second_carry_full_def format_fcontract_second_carry_pass_def s b by (rule carry_first_small [OF b0])
  have "uint b4 < 2 ^ 51" unfolding m(6) by simp
  then show "reduced (format_fcontract_second_carry_full (a0, a1, a2, a3, a4))" unfolding e using b0 m(3-5) p(3-5) by simp
  show "felem_val (format_fcontract_second_carry_full (a0, a1, a2, a3, a4)) mod p25519 = felem_val (a0, a1, a2, a3, a4) mod p25519"
    unfolding e p(1) [symmetric] by (rule mod_p_eqI [OF m(1)])
qed

text \<open>The last subtraction is made when, and only when, the value has reached the prime.\<close>

lemma trim_condition:
  fixes a0 a1 a2 a3 a4 :: int
  assumes "0 \<le> a0" "a0 < 2 ^ 51" "a1 < 2 ^ 51" "a2 < 2 ^ 51" "a3 < 2 ^ 51" "a4 < 2 ^ 51"
  shows "2 ^ 51 - 19 \<le> a0 \<and> a1 = 2 ^ 51 - 1 \<and> a2 = 2 ^ 51 - 1 \<and> a3 = 2 ^ 51 - 1 \<and> a4 = 2 ^ 51 - 1 \<longleftrightarrow>
    p25519 \<le> a0 + 2 ^ 51 * a1 + 2 ^ 102 * a2 + 2 ^ 153 * a3 + 2 ^ 204 * a4"
  using assms unfolding p25519_def by auto

lemma trim_val:
  assumes "reduced a"
  shows "reduced (format_fcontract_trim a)" "felem_val (format_fcontract_trim a) = felem_val a mod p25519"
proof -
  obtain a0 a1 a2 a3 a4 where a: "a = (a0, a1, a2, a3, a4)" by (metis prod_cases5)
  note b = assms [unfolded a limbs_below.simps]
  define full where "full \<longleftrightarrow> 2 ^ 51 - 19 \<le> uint a0 \<and> uint a1 = 2 ^ 51 - 1 \<and> uint a2 = 2 ^ 51 - 1 \<and> uint a3 = 2 ^ 51 - 1 \<and> uint a4 = 2 ^ 51 - 1"
  have c: "full \<longleftrightarrow> p25519 \<le> felem_val a"
    unfolding full_def a felem_val.simps by (rule trim_condition) (use b in simp_all)
  have nn: "0 \<le> felem_val a" "felem_val a < 2 ^ 255" using b by (simp_all add: a)
  let ?m = "(((u64_gte_mask a0 0x7ffffffffffed AND u64_eq_mask a1 0x7ffffffffffff) AND u64_eq_mask a2 0x7ffffffffffff) AND
    u64_eq_mask a3 0x7ffffffffffff) AND u64_eq_mask a4 0x7ffffffffffff"
  have m: "?m = (if full then - 1 else 0)"
    unfolding full_def u64_eq_mask_eq u64_gte_mask_eq using b by (auto simp: word_uint_eq_iff word_le_def)
  have t: "format_fcontract_trim a = (if full then (a0 - 0x7ffffffffffed, 0, 0, 0, 0) else a)"
    unfolding a format_fcontract_trim.simps Let_def m by (auto simp: full_def word_uint_eq_iff uint_u64_minus)
  show "reduced (format_fcontract_trim a)"
    using assms b by (auto simp: t full_def uint_u64_minus)
  show "felem_val (format_fcontract_trim a) = felem_val a mod p25519"
  proof (cases full)
    case True
    have p: "felem_val a mod p25519 = felem_val a - p25519"
      using True nn unfolding c by (intro int_mod_pos_eq [where q = 1]) (simp_all add: p25519_def)
    have "uint (a0 - 0x7ffffffffffed) = uint a0 - 0x7ffffffffffed" using True by (simp add: full_def uint_u64_minus)
    then have "felem_val (format_fcontract_trim a) = felem_val a - p25519"
      using True unfolding t by (simp add: a full_def p25519_def)
    then show ?thesis using p by simp
  next
    case False
    then show ?thesis using nn c by (simp add: t)
  qed
qed

subsection \<open>Writing an element\<close>

lemma put_unaligned_le64_eq: "put_unaligned_le64 s = map (\<lambda>i. ucast (drop_bit (8 * i) s)) [0..<8]"
  by (simp add: put_unaligned_le64_def upt_rec)

lemma le_int_map_bytes: "le_int (map (\<lambda>i. ucast (drop_bit (8 * i) s)) [0..<n]) = take_bit (8 * n) (uint (s :: u64))"
proof (induction n)
  case (Suc n)
  have "uint (ucast (drop_bit (8 * n) s) :: u8) = take_bit 8 (drop_bit (8 * n) (uint s))"
    by (rule bit_eqI) (auto simp: bit_uint_iff bit_ucast_iff bit_take_bit_iff bit_drop_bit_eq dest: bit_imp_le_length)
  then show ?case using Suc take_bit_slice [of "8 * n" 8 "uint s"] by (simp add: le_int_append add.commute)
qed simp

lemma le_int_put_unaligned_le64: "le_int (put_unaligned_le64 s) = uint s" "length (put_unaligned_le64 s) = 8"
  unfolding put_unaligned_le64_eq le_int_map_bytes using take_bit_int_eq_self [OF uint_u64 [of s]] by simp_all

lemma felem_val_concat:
  assumes "reduced (t0, t1, t2, t3, t4)"
  shows "felem_val (t0, t1, t2, t3, t4) = concat_bit 51 (uint t0) (concat_bit 51 (uint t1) (concat_bit 51 (uint t2) (concat_bit 51 (uint t3) (uint t4))))"
proof -
  have "take_bit 51 (uint x) = uint x" if "uint x < 2 ^ 51" for x :: u64 using that by (simp add: take_bit_int_eq_self)
  then show ?thesis using assms by (simp add: concat_bit_eq push_bit_eq_mult)
qed

lemma store_val:
  assumes "reduced t"
  shows "le_int (format_fcontract_store t) = felem_val t" "length (format_fcontract_store t) = 32"
proof -
  obtain t0 t1 t2 t3 t4 where t: "t = (t0, t1, t2, t3, t4)" by (metis prod_cases5)
  let ?v = "felem_val t"
  have h: "\<not> bit x n" if "uint x < 2 ^ 51" "51 \<le> n" for x :: u64 and n
  proof -
    have "take_bit 51 (uint x) = uint x" using that(1) by (simp add: take_bit_int_eq_self)
    then have "bit (uint x) n = (n < 51 \<and> bit (uint x) n)" by (metis bit_take_bit_iff)
    then show ?thesis using that(2) bit_imp_le_length [of x n] by (auto simp: bit_uint_iff)
  qed
  have u: "bit (uint x) n = bit x n" for x :: u64 and n using bit_imp_le_length [of x n] by (auto simp: bit_uint_iff)
  have b: "uint t0 < 2 ^ 51" "uint t1 < 2 ^ 51" "uint t2 < 2 ^ 51" "uint t3 < 2 ^ 51" "uint t4 < 2 ^ 51" using assms by (simp_all add: t)
  have v: "bit ?v n = (if n < 51 then bit t0 n else if n < 102 then bit t1 (n - 51) else if n < 153 then bit t2 (n - 102)
      else if n < 204 then bit t3 (n - 153) else bit t4 (n - 204))" for n
    unfolding t felem_val_concat [OF assms [unfolded t]] bit_concat_bit_iff u by auto
  have o0: "uint (push_bit 51 t1 OR t0) = take_bit 64 ?v"
    by (rule bit_eqI) (auto simp: bit_uint_iff bit_or_iff bit_push_bit_iff bit_take_bit_iff v h [OF b(1)])
  have o1: "uint (push_bit 38 t2 OR drop_bit 13 t1) = take_bit 64 (drop_bit 64 ?v)"
    by (rule bit_eqI) (auto simp: bit_uint_iff bit_or_iff bit_push_bit_iff bit_take_bit_iff bit_drop_bit_eq v h [OF b(2)])
  have o2: "uint (push_bit 25 t3 OR drop_bit 26 t2) = take_bit 64 (drop_bit 128 ?v)"
    by (rule bit_eqI) (auto simp: bit_uint_iff bit_or_iff bit_push_bit_iff bit_take_bit_iff bit_drop_bit_eq v h [OF b(3)])
  have o3: "uint (push_bit 12 t4 OR drop_bit 39 t3) = take_bit 64 (drop_bit 192 ?v)"
    by (rule bit_eqI) (auto simp: bit_uint_iff bit_or_iff bit_push_bit_iff bit_take_bit_iff bit_drop_bit_eq v h [OF b(4)])
  have "0 \<le> ?v" "?v < 2 ^ 256" using b by (simp_all add: t)
  then have "take_bit 256 ?v = ?v" by (simp add: take_bit_int_eq_self)
  then show "le_int (format_fcontract_store t) = ?v"
    unfolding t format_fcontract_store.simps Let_def le_int_append le_int_put_unaligned_le64 o0 [unfolded t] o1 [unfolded t] o2 [unfolded t] o3 [unfolded t]
    using take_bit_slices4 [of ?v] by (simp add: t)
  show "length (format_fcontract_store t) = 32" by (simp add: t Let_def le_int_put_unaligned_le64)
qed

end
