(* ===== verification/Wg_Curve_Properties.thy ===== *)
theory Wg_Curve_Properties
  imports Wg_Curve_Hacl Wg_Curve_Format
begin

text \<open>
  The 64-bit implementation of X25519 computes the ladder of RFC 7748, and what its parts promise.
\<close>

subsection \<open>The scalar\<close>

lemma byte_index: "j < 8 \<Longrightarrow> j = 0 \<or> j = 1 \<or> j = 2 \<or> j = 3 \<or> j = 4 \<or> j = 5 \<or> j = 6 \<or> j = (7::nat)"
  by arith

lemma clamp_bytes:
  "j < 8 \<Longrightarrow> bit (b AND 248 :: u8) j \<longleftrightarrow> 3 \<le> j \<and> bit b j"
  "j < 8 \<Longrightarrow> bit ((b AND 127) OR 64 :: u8) j \<longleftrightarrow> j < 6 \<and> bit b j \<or> j = 6"
  by (drule byte_index, elim disjE; simp add: bit_and_iff bit_or_iff bit_numeral_rec)+

lemma curve25519_clamp_secret_value:
  assumes "length s = 32"
  shows "le_int (curve25519_clamp_secret s) = clamped (le_int s)" "length (curve25519_clamp_secret s) = 32"
proof -
  show len: "length (curve25519_clamp_secret s) = 32" using assms by (simp add: curve25519_clamp_secret_def)
  show "le_int (curve25519_clamp_secret s) = clamped (le_int s)"
  proof (rule bit_eqI)
    fix n :: nat
    define i j where ij: "i = n div 8" "j = n mod 8"
    have j: "j < 8" and n: "n = 8 * i + j" by (simp_all add: ij)
    have e: "curve25519_clamp_secret s ! i = (if i = 0 then s ! 0 AND 248 else if i = 31 then (s ! 31 AND 127) OR 64 else s ! i)"
      if "i < 32" using that assms by (simp add: curve25519_clamp_secret_def nth_list_update)
    show "bit (le_int (curve25519_clamp_secret s)) n = bit (clamped (le_int s)) n"
    proof (cases "i < 32")
      case True
      then have "bit (le_int (curve25519_clamp_secret s)) n = bit (curve25519_clamp_secret s ! i) j" "bit (le_int s) n = bit (s ! i) j"
        unfolding n using bit_le_int [of i _ j] j len assms by simp_all
      then show ?thesis unfolding bit_clamped e [OF True] using clamp_bytes [OF j] j True by (auto simp: n)
    next
      case False
      then have "\<not> n < 256" using n by simp
      then show ?thesis unfolding bit_clamped bit_le_int_iff len by simp
    qed
  qed
qed

subsection \<open>X25519\<close>

lemma format_fcontract_val:
  assumes "tight t"
  shows "format_fcontract t = le_bytes 32 (nat (felem_val t mod p25519))"
proof -
  obtain a0 a1 a2 a3 a4 where a: "format_fcontract_first_carry_full t = (a0, a1, a2, a3, a4)" by (metis prod_cases5)
  note f = first_carry_full_val [OF assms a]
  note s = second_carry_full_val [OF f(2-6)]
  note t = trim_val [OF s(1)]
  note w = store_val [OF t(1)]
  have "le_int (format_fcontract t) = felem_val t mod p25519" "length (format_fcontract t) = 32"
    unfolding format_fcontract_def a w t(2) s(2) f(1) by simp_all
  then show ?thesis using le_bytes_le_value [of "format_fcontract t"] by (metis nat_int)
qed

lemma format_scalar_of_point_val:
  assumes "rep_point P (X, Z)"
  shows "format_scalar_of_point P = le_bytes 32 (nat (X * Z ^ nat (p25519 - 2) mod p25519))"
proof -
  obtain x z where P: "P = (x, z)" by (cases P)
  have r: "hacl.rep x X" "tight z" "felem_val z mod p25519 = Z mod p25519" using assms by (simp_all add: P hacl.rep_def)
  define n where "n = nat (p25519 - 2)"
  have "n = 2 ^ 255 - 21" by (simp add: n_def p25519_def nat_diff_distrib)
  from crecip_crecip_rep [OF r(2) this] have "hacl.rep (crecip_crecip z) (Z ^ n)"
    unfolding hacl.rep_def using r(3) by (metis power_mod)
  from hacl.rep_mul [OF hacl.rep_loose [OF r(1)] hacl.rep_loose [OF this]]
  have "tight (fmul x (crecip z))" "felem_val (fmul x (crecip z)) mod p25519 = X * Z ^ n mod p25519"
    by (simp_all add: hacl.rep_def fmul_def crecip_def)
  then show ?thesis using format_fcontract_val by (simp add: format_scalar_of_point_def P n_def)
qed

lemma curve25519_generic_value:
  assumes "length secret = 32"
  shows "curve25519_generic secret basepoint = le_bytes 32 (nat (x25519 256 (clamped (le_int secret)) (take_bit 255 (le_int basepoint))))"
proof -
  note c = curve25519_clamp_secret_value [OF assms] and f = format_fexpand_correct [of basepoint]
  define u where "u = take_bit 255 (le_int basepoint)"
  have "hacl.rep (format_fexpand basepoint) u" unfolding hacl.rep_def u_def using f by simp
  from ladder_cmult_rep [OF c(2) this] obtain X Z
    where r: "rep_point (ladder_cmult (curve25519_clamp_secret secret) (format_fexpand basepoint, (1, 0, 0, 0, 0))) (X, Z)"
      and l: "fst (ladder u (scalar_bits 256 (clamped (le_int secret))) ((1, 0), (u, 1))) = (X, Z)"
    unfolding c(1) by (metis surj_pair)
  show ?thesis unfolding curve25519_generic_def Let_def format_scalar_of_point_val [OF r] x25519_def u_def [symmetric] l by simp
qed

lemma x25519_range: "0 \<le> x25519 n k u" "x25519 n k u < p25519"
  by (simp_all add: x25519_def p25519_def split: prod.split)

subsection \<open>Properties\<close>

text \<open>
  C25. The 64-bit implementation refines the specification: for every secret and every point of 32 bytes,
  \<open>curve25519_generic\<close> writes the number that the Montgomery ladder of RFC 7748 computes modulo
  \<open>2 ^ 255 - 19\<close> over the 256 bits of the clamped secret, from the point without its top bit. No limb overflows on the way.
\<close>

theorem curve25519_generic_correct:
  assumes "length secret = 32" "length basepoint = 32"
  shows "curve25519_generic secret basepoint =
    le_bytes 32 (nat (x25519 256 (clamped (le_int secret)) (take_bit 255 (le_int basepoint))))"
  by (rule curve25519_generic_value [OF assms(1)])

theorem curve25519_generic_correct_witness:
  "curve25519_generic (replicate 32 7) (9 # replicate 31 0) =
    le_bytes 32 (nat (x25519 256 (clamped (le_int (replicate 32 7))) (take_bit 255 (le_int (9 # replicate 31 0)))))"
  by (rule curve25519_generic_correct) simp_all

text \<open>
  C27. A product of two elements whose limbs may be as large as a difference leaves them (\<open>loose\<close>) is their product
  modulo the prime, and its limbs are small again (\<open>tight\<close>): the sums of 128-bit products do not wrap around.
\<close>

theorem fmul_modulo_prime:
  assumes "loose a" "loose b"
  shows "tight (fmul a b) \<and> felem_val (fmul a b) mod p25519 = felem_val a * felem_val b mod p25519"
  unfolding fmul_def using fmul_fmul_correct [OF assms] by simp

theorem fmul_modulo_prime_witness:
  "tight (fmul (0x40000000000000, 0, 0, 0, 1) (3, 0, 0, 0, 0x40000000000000)) \<and>
   felem_val (fmul (0x40000000000000, 0, 0, 0, 1) (3, 0, 0, 0, 0x40000000000000)) mod p25519 =
     felem_val (0x40000000000000, 0, 0, 0, 1) * felem_val (3, 0, 0, 0, 0x40000000000000) mod p25519"
  by (rule fmul_modulo_prime) (simp_all add: loose_def)

text \<open>
  C28. The inversion raises to the power \<open>p - 2\<close>, by 254 squarings and 11 multiplications.
\<close>

theorem crecip_power:
  assumes "tight z"
  shows "tight (crecip z) \<and> felem_val (crecip z) mod p25519 = felem_val z ^ nat (p25519 - 2) mod p25519"
proof -
  have "nat (p25519 - 2) = 2 ^ 255 - 21" by (simp add: p25519_def nat_diff_distrib)
  from crecip_crecip_rep [OF assms this] show ?thesis by (simp add: hacl.rep_def crecip_def)
qed

theorem crecip_power_witness:
  "tight (crecip (2, 0, 0, 0, 0)) \<and> felem_val (crecip (2, 0, 0, 0, 0)) mod p25519 = felem_val (2, 0, 0, 0, 0) ^ nat (p25519 - 2) mod p25519"
  by (rule crecip_power) (simp add: tight_def)

text \<open>
  C29. The comparisons without branches are comparisons: \<open>u64_eq_mask\<close> is all ones when the words are equal and zero
  when not, and \<open>u64_gte_mask\<close> is all ones when the first word is at least the second, for all words of 64 bits.
\<close>

theorem u64_masks_correct:
  "u64_eq_mask a b = (if a = b then - 1 else 0) \<and> u64_gte_mask a b = (if b \<le> a then - 1 else 0)"
  by (simp add: u64_eq_mask_eq u64_gte_mask_eq)

text \<open>
  C30. Reading an element and writing it returns the bytes that were read when they are canonical, and otherwise the
  bytes of the remainder modulo the prime of the number without its top bit.
\<close>

theorem format_fcontract_fexpand:
  assumes "length bs = 32"
  shows "format_fcontract (format_fexpand bs) = (if le_int bs < p25519 then bs else le_bytes 32 (nat (take_bit 255 (le_int bs) mod p25519)))"
proof -
  have "format_fcontract (format_fexpand bs) = le_bytes 32 (nat (take_bit 255 (le_int bs) mod p25519))"
    using format_fcontract_val [OF format_fexpand_correct(1)] by (simp only: format_fexpand_correct(2))
  moreover have "take_bit 255 (le_int bs) mod p25519 = le_int bs" if "le_int bs < p25519"
  proof -
    have "le_int bs < 2 ^ 255" using that unfolding p25519_def by linarith
    then show ?thesis using that take_bit_int_eq_self [of "le_int bs" 255] by simp
  qed
  ultimately show ?thesis using le_bytes_le_value [of bs] assms by simp
qed

theorem format_fcontract_fexpand_witness:
  "format_fcontract (format_fexpand (5 # replicate 31 0)) = 5 # replicate 31 0"
proof -
  have "le_int (5 # replicate 31 0) < p25519" by (simp only: le_value.simps le_value_zeros) (simp add: p25519_def)
  moreover have "length (5 # replicate 31 0 :: bytes) = 32" by simp
  ultimately show ?thesis using format_fcontract_fexpand [of "5 # replicate 31 0"] by (simp only: if_True)
qed

end
