(* ===== verification/Wg_Fiat_Properties.thy ===== *)
theory Wg_Fiat_Properties
  imports Wg_Fiat_Ladder Wg_Fiat_Format Wg_Curve_Properties
begin

text \<open>
  The 32-bit implementation of X25519 is the function of RFC 7748, and the two implementations agree.
\<close>

lemma fe_tobytes_val:
  assumes "fe_tight h"
  shows "fe_tobytes h = le_bytes 32 (nat (fe_val h mod p25519))"
proof -
  obtain h0 h1 h2 h3 h4 h5 h6 h7 h8 h9 where f: "fe_freeze h = (h0, h1, h2, h3, h4, h5, h6, h7, h8, h9)" by (rule fe_cases)
  note v = fe_freeze_val [OF assms, unfolded f]
  have "le_int (fe_tobytes h) = fe_val h mod p25519" unfolding fe_tobytes_def f Let_def prod.case fe_tobytes_store [OF v(1)] by (rule v(2))
  moreover have "length (fe_tobytes h) = 32" by (simp add: fe_tobytes_def f)
  ultimately show ?thesis using le_bytes_le_value [of "fe_tobytes h"] by (metis nat_int)
qed

lemma fe_result:
  assumes "fiat.rep x2 X" "fiat.rep z2 Z"
  shows "fe_tobytes (fe_mul x2 (fe_invert z2)) = le_bytes 32 (nat (X * Z ^ nat (p25519 - 2) mod p25519))"
proof -
  have r: "fe_tight z2" "fe_val z2 mod p25519 = Z mod p25519" using assms(2) by (simp_all add: fiat.rep_def)
  define n where "n = nat (p25519 - 2)"
  have "n = 2 ^ 255 - 21" by (simp add: n_def p25519_def nat_diff_distrib)
  from fe_loose_invert_rep [OF r(1) this] have "fiat.rep (fe_invert z2) (Z ^ n)"
    unfolding fiat.rep_def fe_invert_def using r(2) by (metis power_mod)
  from fiat.rep_mul [OF fiat.rep_loose [OF assms(1)] fiat.rep_loose [OF this]] show ?thesis
    using fe_tobytes_val by (simp add: fiat.rep_def n_def)
qed

lemma fiat_one_zero: "fiat.rep fe_1 1" "fiat.rep fe_0 0"
  unfolding fiat.rep_def by (simp_all add: fe_tight_def fe_1_def fe_0_def)

lemma curve25519_generic_fiat_value:
  assumes "length scalar = 32"
  shows "curve25519_generic_fiat scalar point = le_bytes 32 (nat (x25519 255 (clamped (le_int scalar)) (take_bit 255 (le_int point))))"
proof -
  note c = curve25519_clamp_secret_value [OF assms]
  define x1 u where "x1 = fe_frombytes point" and "u = take_bit 255 (le_int point)"
  let ?e = "curve25519_clamp_secret scalar"
  have x1: "fiat.rep x1 u" unfolding fiat.rep_def x1_def u_def using fe_frombytes_correct [of point] by simp
  have "fe_rep_pair (swap_if False ((fe_1, fe_0), (x1, fe_1))) ((1, 0), (u, 1))" using x1 fiat_one_zero by (simp add: swap_if_def)
  from fe_ladder_rep [OF this x1, of 255 ?e] c(2) obtain d t
    where t: "fe_ladder ?e x1 255 ((fe_1, fe_0), (x1, fe_1)) 0 = (t, of_bool d)"
      and r: "fe_rep_pair (swap_if d t) (ladder u (scalar_bits 255 (clamped (le_int scalar))) ((1, 0), (u, 1)))"
    unfolding c(1) by auto
  obtain x2 z2 x3 z3 where s: "swap_if d t = ((x2, z2), (x3, z3))" by (metis surj_pair)
  obtain X2 Z2 X3 Z3 where l: "ladder u (scalar_bits 255 (clamped (le_int scalar))) ((1, 0), (u, 1)) = ((X2, Z2), (X3, Z3))" by (metis surj_pair)
  have "fiat.rep x2 X2" "fiat.rep z2 Z2" using r unfolding s l by simp_all
  from fe_result [OF this] show ?thesis
    unfolding curve25519_generic_fiat_def Let_def x1_def [symmetric] t prod.case fe_points_cswap_eq s x25519_def u_def [symmetric] l by simp
qed

subsection \<open>Properties\<close>

text \<open>
  C31. The 32-bit implementation is the function \<open>X25519\<close> of RFC 7748: for every scalar and every point of 32 bytes it
  writes the number that the ladder of the RFC computes over the 255 bits of the clamped scalar.
\<close>

theorem curve25519_generic_fiat_correct:
  assumes "length scalar = 32" "length point = 32"
  shows "curve25519_generic_fiat scalar point =
    le_bytes 32 (nat (x25519 255 (clamped (le_int scalar)) (take_bit 255 (le_int point))))"
  by (rule curve25519_generic_fiat_value [OF assms(1)])

theorem curve25519_generic_fiat_correct_witness:
  "curve25519_generic_fiat (replicate 32 7) (9 # replicate 31 0) =
    le_bytes 32 (nat (x25519 255 (clamped (le_int (replicate 32 7))) (take_bit 255 (le_int (9 # replicate 31 0)))))"
  by (rule curve25519_generic_fiat_correct) simp_all

text \<open>
  C32. Both implementations return the same bytes. The 64-bit one takes one more step, for bit 255, which clamping
  clears; that step multiplies the second point by \<open>4 * u\<close>. The hypothesis on \<open>u\<close> is the instance of Fermat's little
  theorem for that factor.
\<close>

theorem curve25519_implementations_agree:
  assumes "length secret = 32" "length point = 32"
    and "u = take_bit 255 (le_int point)" "(4 * u) ^ nat (p25519 - 1) mod p25519 = 1"
  shows "curve25519_generic secret point = curve25519_generic_fiat secret point"
proof -
  have "\<not> bit (clamped (le_int secret)) 255" by (simp add: bit_clamped)
  from x25519_leading_zero [OF assms(4) this] show ?thesis
    unfolding curve25519_generic_value [OF assms(1)] curve25519_generic_fiat_value [OF assms(1)] assms(3) by simp
qed

text \<open>The point whose coordinate is the inverse of four.\<close>

theorem curve25519_implementations_agree_witness:
  "curve25519_generic (replicate 32 5) (le_bytes 32 (nat ((3 * p25519 + 1) div 4))) =
    curve25519_generic_fiat (replicate 32 5) (le_bytes 32 (nat ((3 * p25519 + 1) div 4)))"
proof (rule curve25519_implementations_agree [OF _ _ refl])
  let ?v = "(3 * p25519 + 1) div 4"
  have v: "4 * ?v = p25519 * 3 + 1" "0 \<le> ?v" "?v < 2 ^ 255" by (simp_all add: p25519_def)
  then have "le_int (le_bytes 32 (nat ?v)) = ?v" using le_value_le_bytes [of "nat ?v" 32] by (simp add: nat_less_iff)
  then have "4 * take_bit 255 (le_int (le_bytes 32 (nat ?v))) mod p25519 = 1"
    using v take_bit_int_eq_self [OF v(2,3)] by (simp add: p25519_def)
  then show "(4 * take_bit 255 (le_int (le_bytes 32 (nat ?v)))) ^ nat (p25519 - 1) mod p25519 = 1"
    by (metis power_mod power_one mod_mod_trivial)
qed (simp_all add: le_bytes_length)

text \<open>
  C26. A public key is the point of the secret on the curve: on either platform \<open>curve25519_generate_public\<close> writes, as
  32 little-endian bytes and smaller than the prime, the number that the ladder of RFC 7748 computes over the bits of
  the clamped secret from the base point \<open>9\<close>.
\<close>

theorem curve25519_generate_public_correct:
  assumes "length secret = 32"
  shows "length (curve25519_generate_public int128 secret) = 32 \<and>
    le_int (curve25519_generate_public int128 secret) =
      x25519 (if int128 then 256 else 255) (clamped (le_int secret)) 9 \<and>
    le_int (curve25519_generate_public int128 secret) < p25519"
proof -
  define v where "v = x25519 (if int128 then 256 else 255) (clamped (le_int secret)) 9"
  have nine: "take_bit 255 (le_int (9 # replicate 31 0)) = 9" by (simp add: le_value_zeros)
  have v: "curve25519_generate_public int128 secret = le_bytes 32 (nat v)"
    unfolding curve25519_generate_public_def curve25519_def v_def
      curve25519_generic_value [OF assms] curve25519_generic_fiat_value [OF assms] nine by simp
  have r: "0 \<le> v" "v < p25519" unfolding v_def by (rule x25519_range)+
  then have "nat v < 256 ^ 32" "int (nat v) = v" by (simp_all add: p25519_def nat_less_iff)
  then have "le_int (le_bytes 32 (nat v)) = v" using le_value_le_bytes [of "nat v" 32] by (simp only:)
  then show ?thesis using r(2) by (simp add: v v_def [symmetric] le_bytes_length)
qed

theorem curve25519_generate_public_correct_witness:
  "le_int (curve25519_generate_public True (replicate 32 1)) = x25519 256 (clamped (le_int (replicate 32 1))) 9 \<and>
   le_int (curve25519_generate_public False (replicate 32 1)) = x25519 255 (clamped (le_int (replicate 32 1))) 9"
  using curve25519_generate_public_correct [of "replicate 32 1" True]
    curve25519_generate_public_correct [of "replicate 32 1" False] by simp

text \<open>
  C33. \<open>fe_freeze\<close> returns the canonical form of an element: limbs of 26 and 25 bits and a value that is the remainder
  modulo the prime, for every element within the bounds that the comments of the source give.
\<close>

theorem fe_freeze_canonical:
  assumes "fe_tight h"
  shows "fe_below (2 ^ 25) (fe_freeze h) \<and> fe_val (fe_freeze h) = fe_val h mod p25519"
  using fe_freeze_val [OF assms] by simp

theorem fe_freeze_canonical_witness:
  "fe_below (2 ^ 25) (fe_freeze (0x3ffffff, 0x1ffffff, 0x3ffffff, 0x1ffffff, 0x3ffffff, 0x1ffffff, 0x3ffffff, 0x1ffffff, 0x3ffffff, 0x1ffffff)) \<and>
   fe_val (fe_freeze (0x3ffffff, 0x1ffffff, 0x3ffffff, 0x1ffffff, 0x3ffffff, 0x1ffffff, 0x3ffffff, 0x1ffffff, 0x3ffffff, 0x1ffffff)) =
     fe_val (0x3ffffff, 0x1ffffff, 0x3ffffff, 0x1ffffff, 0x3ffffff, 0x1ffffff, 0x3ffffff, 0x1ffffff, 0x3ffffff, 0x1ffffff) mod p25519"
  by (rule fe_freeze_canonical) (simp add: fe_tight_def)

end
