(* ===== verification/Wg_Netlink.thy ===== *)
theory Wg_Netlink
  imports Wg_Containers
begin

text \<open>
  The netlink library of \<open>wireguard-tools/src/netlink.h\<close>. A message being built is the list of its bytes, so that
  \<open>nlmsg_len\<close> is the length of the list; its first four bytes, where C keeps that number, are filled in when the
  message is sent. All lengths are multiples of four, so the tail of a message is its end. A nested attribute is
  named by its offset. The bytes that \<open>mnl_attr_nest_start\<close> leaves as they are in the buffer, the length of the
  nested attribute, are zero here until \<open>mnl_attr_nest_end\<close> writes them.

  A pointer into a received message is the list of the bytes from there to the end of the buffer. Reading past
  the end of the buffer is \<^const>\<open>Crash\<close>. A callback returns its integer, \<open>errno\<close> and its data.

  The kernel is a parameter, a record of what each system call answers, given the messages sent before. A message
  is answered by a list of results of \<open>recvmsg\<close>, which wait in the socket; \<open>recvmsg\<close> on a socket where nothing
  waits and nothing will come does not return, \<^const>\<open>Diverge\<close>. Allocation succeeds.
\<close>

subsection \<open>Numbers of the protocol\<close>

definition EINVAL :: nat where "EINVAL = 22"
definition ESRCH :: nat where "ESRCH = 3"
definition nl_EPROTO :: nat where "nl_EPROTO = 71"
definition EINTR :: nat where "EINTR = 4"
definition EBADMSG :: nat where "EBADMSG = 74"
definition EOPNOTSUPP :: nat where "EOPNOTSUPP = 95"
definition ERANGE :: nat where "ERANGE = 34"
definition ENOSPC :: nat where "ENOSPC = 28"
definition ENOENT :: nat where "ENOENT = 2"
definition EPROTONOSUPPORT :: nat where "EPROTONOSUPPORT = 93"
definition ENOSYS :: nat where "ENOSYS = 38"
definition ENAMETOOLONG :: nat where "ENAMETOOLONG = 36"

lemmas errno_defs = EINVAL_def ESRCH_def nl_EPROTO_def EINTR_def EBADMSG_def EOPNOTSUPP_def ERANGE_def ENOSPC_def
  ENOENT_def EPROTONOSUPPORT_def ENOSYS_def ENAMETOOLONG_def

definition NLM_F_REQUEST :: nat where "NLM_F_REQUEST = 1"
definition NLM_F_MULTI :: nat where "NLM_F_MULTI = 2"
definition NLM_F_ACK :: nat where "NLM_F_ACK = 4"
definition NLM_F_DUMP_INTR :: nat where "NLM_F_DUMP_INTR = 16"
definition NLM_F_DUMP :: nat where "NLM_F_DUMP = 768"
definition NLMSG_NOOP :: nat where "NLMSG_NOOP = 1"
definition NLMSG_ERROR :: nat where "NLMSG_ERROR = 2"
definition NLMSG_DONE :: nat where "NLMSG_DONE = 3"
definition NLMSG_OVERRUN :: nat where "NLMSG_OVERRUN = 4"
definition NLMSG_MIN_TYPE :: nat where "NLMSG_MIN_TYPE = 16"
definition NLA_F_NESTED :: nat where "NLA_F_NESTED = 32768"
definition NLA_TYPE_MASK :: nat where "NLA_TYPE_MASK = 16383"
definition GENL_ID_CTRL :: nat where "GENL_ID_CTRL = 16"
definition CTRL_CMD_GETFAMILY :: nat where "CTRL_CMD_GETFAMILY = 3"
definition CTRL_ATTR_FAMILY_ID :: nat where "CTRL_ATTR_FAMILY_ID = 1"
definition CTRL_ATTR_FAMILY_NAME :: nat where "CTRL_ATTR_FAMILY_NAME = 2"
definition AF_NETLINK :: nat where "AF_NETLINK = 16"
definition NETLINK_ROUTE :: nat where "NETLINK_ROUTE = 0"
definition NETLINK_GENERIC :: nat where "NETLINK_GENERIC = 16"
definition MSG_TRUNC :: nat where "MSG_TRUNC = 32"

lemmas nl_defs = NLM_F_REQUEST_def NLM_F_MULTI_def NLM_F_ACK_def NLM_F_DUMP_INTR_def NLM_F_DUMP_def
  NLMSG_NOOP_def NLMSG_ERROR_def NLMSG_DONE_def NLMSG_OVERRUN_def NLMSG_MIN_TYPE_def NLA_F_NESTED_def
  NLA_TYPE_MASK_def GENL_ID_CTRL_def CTRL_CMD_GETFAMILY_def CTRL_ATTR_FAMILY_ID_def CTRL_ATTR_FAMILY_NAME_def
  AF_NETLINK_def NETLINK_ROUTE_def NETLINK_GENERIC_def MSG_TRUNC_def

definition MNL_CB_ERROR :: int where "MNL_CB_ERROR = - 1"
definition MNL_CB_STOP :: int where "MNL_CB_STOP = 0"
definition MNL_CB_OK :: int where "MNL_CB_OK = 1"

lemmas cb_defs = MNL_CB_ERROR_def MNL_CB_STOP_def MNL_CB_OK_def

definition MNL_ALIGN :: "nat \<Rightarrow> nat" where
  "MNL_ALIGN len = (len + 3) div 4 * 4"

definition MNL_NLMSG_HDRLEN :: nat where "MNL_NLMSG_HDRLEN = MNL_ALIGN 16"

definition MNL_ATTR_HDRLEN :: nat where "MNL_ATTR_HDRLEN = MNL_ALIGN 4"

definition mnl_ideal_socket_buffer_size :: "nat \<Rightarrow> nat" where
  "mnl_ideal_socket_buffer_size pagesize = (if pagesize > 8192 then 8192 else pagesize)"

subsection \<open>Building a message\<close>

definition store :: "nat \<Rightarrow> bytes \<Rightarrow> bytes \<Rightarrow> bytes" where
  "store i v m = take i m @ v @ drop (i + length v) m"

definition mnl_nlmsg_put_header :: bytes where
  "mnl_nlmsg_put_header = replicate MNL_NLMSG_HDRLEN 0"

definition mnl_nlmsg_put_extra_header :: "nat \<Rightarrow> bytes \<Rightarrow> bytes" where
  "mnl_nlmsg_put_extra_header len m = m @ replicate (MNL_ALIGN len) 0"

text \<open>The length of an attribute is kept in 16 bits, and the message grows by the length kept.\<close>

definition mnl_attr_put :: "nat \<Rightarrow> bytes \<Rightarrow> bytes \<Rightarrow> bytes" where
  "mnl_attr_put t data m =
     (let payload_len = (MNL_ATTR_HDRLEN + length data) mod 2 ^ 16;
          pad = MNL_ALIGN (length data) - length data
      in m @ take (MNL_ALIGN payload_len)
               (le_bytes 2 payload_len @ le_bytes 2 t @ data @ replicate pad 0))"

definition mnl_attr_put_u16 :: "nat \<Rightarrow> u16 \<Rightarrow> bytes \<Rightarrow> bytes" where
  "mnl_attr_put_u16 t x = mnl_attr_put t (le_bytes 2 (unat x))"

definition mnl_attr_put_u32 :: "nat \<Rightarrow> u32 \<Rightarrow> bytes \<Rightarrow> bytes" where
  "mnl_attr_put_u32 t x = mnl_attr_put t (le_bytes 4 (unat x))"

definition string_bytes :: "string \<Rightarrow> bytes" where
  "string_bytes s = map (\<lambda>c. of_nat (of_char c)) s"

definition bytes_string :: "bytes \<Rightarrow> string" where
  "bytes_string bs = map (\<lambda>b. char_of (unat b)) bs"

definition mnl_attr_put_strz :: "nat \<Rightarrow> string \<Rightarrow> bytes \<Rightarrow> bytes" where
  "mnl_attr_put_strz t s = mnl_attr_put t (string_bytes s @ [0])"

definition mnl_attr_nest_start :: "nat \<Rightarrow> bytes \<Rightarrow> nat \<times> bytes" where
  "mnl_attr_nest_start t m = (length m, m @ le_bytes 2 0 @ le_bytes 2 (NLA_F_NESTED OR t))"

definition mnl_attr_put_check :: "nat \<Rightarrow> nat \<Rightarrow> bytes \<Rightarrow> bytes \<Rightarrow> bool \<times> bytes" where
  "mnl_attr_put_check buflen t data m =
     (if length m + MNL_ATTR_HDRLEN + MNL_ALIGN (length data) > buflen then (False, m)
      else (True, mnl_attr_put t data m))"

definition mnl_attr_put_u8_check :: "nat \<Rightarrow> nat \<Rightarrow> u8 \<Rightarrow> bytes \<Rightarrow> bool \<times> bytes" where
  "mnl_attr_put_u8_check buflen t x = mnl_attr_put_check buflen t (le_bytes 1 (unat x))"

definition mnl_attr_put_u16_check :: "nat \<Rightarrow> nat \<Rightarrow> u16 \<Rightarrow> bytes \<Rightarrow> bool \<times> bytes" where
  "mnl_attr_put_u16_check buflen t x = mnl_attr_put_check buflen t (le_bytes 2 (unat x))"

definition mnl_attr_put_u32_check :: "nat \<Rightarrow> nat \<Rightarrow> u32 \<Rightarrow> bytes \<Rightarrow> bool \<times> bytes" where
  "mnl_attr_put_u32_check buflen t x = mnl_attr_put_check buflen t (le_bytes 4 (unat x))"

definition mnl_attr_nest_start_check :: "nat \<Rightarrow> nat \<Rightarrow> bytes \<Rightarrow> (nat \<times> bytes) option" where
  "mnl_attr_nest_start_check buflen t m =
     (if length m + MNL_ATTR_HDRLEN > buflen then None else Some (mnl_attr_nest_start t m))"

definition mnl_attr_nest_end :: "nat \<Rightarrow> bytes \<Rightarrow> bytes" where
  "mnl_attr_nest_end start m = store start (le_bytes 2 (length m - start)) m"

definition mnl_attr_nest_cancel :: "nat \<Rightarrow> bytes \<Rightarrow> bytes" where
  "mnl_attr_nest_cancel start m = take start m"

subsection \<open>Reading attributes\<close>

definition nla_len :: "bytes \<Rightarrow> nat" where
  "nla_len attr = le_value (take 2 attr)"

definition nla_type :: "bytes \<Rightarrow> nat" where
  "nla_type attr = le_value (take 2 (drop 2 attr))"

definition mnl_attr_get_type :: "bytes \<Rightarrow> nat" where
  "mnl_attr_get_type attr = nla_type attr AND NLA_TYPE_MASK"

definition mnl_attr_get_payload_len :: "bytes \<Rightarrow> nat" where
  "mnl_attr_get_payload_len attr = (nla_len attr + 2 ^ 16 - MNL_ATTR_HDRLEN) mod 2 ^ 16"

definition mnl_attr_get_payload :: "bytes \<Rightarrow> bytes" where
  "mnl_attr_get_payload attr = drop MNL_ATTR_HDRLEN attr"

definition mnl_attr_ok :: "bytes \<Rightarrow> int \<Rightarrow> bool" where
  "mnl_attr_ok attr len \<longleftrightarrow> len \<ge> 4 \<and> nla_len attr \<ge> 4 \<and> int (nla_len attr) \<le> len"

definition mnl_attr_next :: "bytes \<Rightarrow> bytes" where
  "mnl_attr_next attr = drop (MNL_ALIGN (nla_len attr)) attr"

definition mnl_attr_type_valid :: "bytes \<Rightarrow> nat \<Rightarrow> nat \<Rightarrow> int \<times> nat" where
  "mnl_attr_type_valid attr ma e = (if mnl_attr_get_type attr > ma then (- 1, EOPNOTSUPP) else (1, e))"

datatype mnl_attr_data_type =
  MNL_TYPE_UNSPEC | MNL_TYPE_U8 | MNL_TYPE_U16 | MNL_TYPE_U32 | MNL_TYPE_U64 | MNL_TYPE_STRING | MNL_TYPE_FLAG
| MNL_TYPE_MSECS | MNL_TYPE_NESTED | MNL_TYPE_NESTED_COMPAT | MNL_TYPE_NUL_STRING | MNL_TYPE_BINARY

fun mnl_attr_data_type_len :: "mnl_attr_data_type \<Rightarrow> nat" where
  "mnl_attr_data_type_len MNL_TYPE_U8 = 1"
| "mnl_attr_data_type_len MNL_TYPE_U16 = 2"
| "mnl_attr_data_type_len MNL_TYPE_U32 = 4"
| "mnl_attr_data_type_len MNL_TYPE_U64 = 8"
| "mnl_attr_data_type_len MNL_TYPE_MSECS = 8"
| "mnl_attr_data_type_len _ = 0"

definition validate_payload :: "bytes \<Rightarrow> mnl_attr_data_type \<Rightarrow> nat \<Rightarrow> nat option" where
  "validate_payload attr ty attr_len =
     (case ty of
        MNL_TYPE_FLAG \<Rightarrow> (if attr_len > 0 then Some ERANGE else None)
      | MNL_TYPE_NUL_STRING \<Rightarrow>
          (if attr_len = 0 then Some ERANGE
           else if mnl_attr_get_payload attr ! (attr_len - 1) \<noteq> 0 then Some EINVAL else None)
      | MNL_TYPE_STRING \<Rightarrow> (if attr_len = 0 then Some ERANGE else None)
      | MNL_TYPE_NESTED \<Rightarrow>
          (if attr_len = 0 then None else if attr_len < MNL_ATTR_HDRLEN then Some ERANGE else None)
      | _ \<Rightarrow> None)"

text \<open>The result and \<open>errno\<close> after the call.\<close>

definition mnl_attr_validate_len :: "bytes \<Rightarrow> mnl_attr_data_type \<Rightarrow> nat \<Rightarrow> nat \<Rightarrow> int \<times> nat" where
  "mnl_attr_validate_len attr ty exp_len e =
     (let attr_len = mnl_attr_get_payload_len attr in
      if attr_len < exp_len then (- 1, ERANGE)
      else case validate_payload attr ty attr_len of
        Some err \<Rightarrow> (- 1, err)
      | None \<Rightarrow> (if exp_len \<noteq> 0 \<and> attr_len > exp_len then (- 1, ERANGE) else (0, e)))"

definition mnl_attr_validate :: "bytes \<Rightarrow> mnl_attr_data_type \<Rightarrow> nat \<Rightarrow> int \<times> nat" where
  "mnl_attr_validate attr ty e = mnl_attr_validate_len attr ty (mnl_attr_data_type_len ty) e"

definition mnl_attr_get_u8 :: "bytes \<Rightarrow> u8" where
  "mnl_attr_get_u8 attr = of_nat (le_value (take 1 (mnl_attr_get_payload attr)))"

definition mnl_attr_get_u16 :: "bytes \<Rightarrow> u16" where
  "mnl_attr_get_u16 attr = of_nat (le_value (take 2 (mnl_attr_get_payload attr)))"

definition mnl_attr_get_u32 :: "bytes \<Rightarrow> u32" where
  "mnl_attr_get_u32 attr = of_nat (le_value (take 4 (mnl_attr_get_payload attr)))"

definition mnl_attr_get_u64 :: "bytes \<Rightarrow> u64" where
  "mnl_attr_get_u64 attr = of_nat (le_value (take 8 (mnl_attr_get_payload attr)))"

definition mnl_attr_get_str :: "bytes \<Rightarrow> bytes" where
  "mnl_attr_get_str attr = mnl_attr_get_payload attr"

type_synonym 'd cb_result = "(unit, int \<times> nat \<times> 'd) outcome"
type_synonym 'd mnl_cb = "bytes \<Rightarrow> nat \<Rightarrow> 'd \<Rightarrow> 'd cb_result"

lemma and_then_cong [fundef_cong]:
  "r = r' \<Longrightarrow> (\<And>x. r' = Done x \<Longrightarrow> f x = g x) \<Longrightarrow> and_then r f = and_then r' g"
  by (cases r') auto

text \<open>
  The loop of \<open>mnl_attr_parse\<close> and \<open>mnl_attr_parse_nested\<close>, from an attribute with \<open>len\<close> bytes up to the end of the
  message or of the enclosing attribute.
\<close>

function mnl_attr_loop :: "'d mnl_cb \<Rightarrow> bytes \<Rightarrow> int \<Rightarrow> int \<Rightarrow> nat \<Rightarrow> 'd \<Rightarrow> 'd cb_result" where
  "mnl_attr_loop cb attr len ret e d =
     (if len \<ge> 4 \<and> length attr < 4 then Crash
      else if \<not> mnl_attr_ok attr len then Done (ret, e, d)
      else if length attr < nla_len attr then Crash
      else and_then (cb attr e d) (\<lambda>(ret, e, d).
        if ret \<le> MNL_CB_STOP then Done (ret, e, d)
        else mnl_attr_loop cb (mnl_attr_next attr) (len - int (MNL_ALIGN (nla_len attr))) ret e d))"
  by pat_completeness auto
termination
  by (relation "measure (\<lambda>(cb, attr, len, ret, e, d). nat len)") (auto simp: mnl_attr_ok_def MNL_ALIGN_def)

declare mnl_attr_loop.simps [simp del]

definition mnl_attr_parse_nested :: "bytes \<Rightarrow> 'd mnl_cb \<Rightarrow> nat \<Rightarrow> 'd \<Rightarrow> 'd cb_result" where
  "mnl_attr_parse_nested nested cb e d =
     mnl_attr_loop cb (mnl_attr_get_payload nested) (int (mnl_attr_get_payload_len nested)) MNL_CB_OK e d"

subsection \<open>Reading messages\<close>

definition nlmsg_len :: "bytes \<Rightarrow> u32" where
  "nlmsg_len nlh = of_nat (le_value (take 4 nlh))"

definition nlmsg_type :: "bytes \<Rightarrow> nat" where
  "nlmsg_type nlh = le_value (take 2 (drop 4 nlh))"

definition nlmsg_flags :: "bytes \<Rightarrow> nat" where
  "nlmsg_flags nlh = le_value (take 2 (drop 6 nlh))"

definition nlmsg_seq :: "bytes \<Rightarrow> u32" where
  "nlmsg_seq nlh = of_nat (le_value (take 4 (drop 8 nlh)))"

definition nlmsg_pid :: "bytes \<Rightarrow> u32" where
  "nlmsg_pid nlh = of_nat (le_value (take 4 (drop 12 nlh)))"

text \<open>\<open>MNL_ALIGN\<close> of a 32-bit length, and the conversion of a number to \<open>int\<close>.\<close>

definition mnl_align32 :: "u32 \<Rightarrow> u32" where
  "mnl_align32 x = of_nat (MNL_ALIGN (unat x))"

definition to_int :: "int \<Rightarrow> int" where
  "to_int x = sint (word_of_int x :: 32 word)"

definition mnl_nlmsg_size :: "nat \<Rightarrow> nat" where
  "mnl_nlmsg_size len = len + MNL_NLMSG_HDRLEN"

definition mnl_nlmsg_get_payload :: "bytes \<Rightarrow> bytes" where
  "mnl_nlmsg_get_payload nlh = drop MNL_NLMSG_HDRLEN nlh"

definition mnl_nlmsg_get_payload_offset :: "bytes \<Rightarrow> nat \<Rightarrow> bytes" where
  "mnl_nlmsg_get_payload_offset nlh offset = drop (MNL_NLMSG_HDRLEN + MNL_ALIGN offset) nlh"

definition mnl_nlmsg_ok :: "bytes \<Rightarrow> int \<Rightarrow> bool" where
  "mnl_nlmsg_ok nlh len \<longleftrightarrow> len \<ge> 16 \<and> unat (nlmsg_len nlh) \<ge> 16 \<and> sint (nlmsg_len nlh) \<le> len"

definition mnl_nlmsg_next :: "bytes \<Rightarrow> int \<Rightarrow> bytes \<times> int" where
  "mnl_nlmsg_next nlh len =
     (drop (unat (mnl_align32 (nlmsg_len nlh))) nlh, to_int (len - uint (mnl_align32 (nlmsg_len nlh))))"

definition mnl_nlmsg_seq_ok :: "bytes \<Rightarrow> u32 \<Rightarrow> bool" where
  "mnl_nlmsg_seq_ok nlh seq \<longleftrightarrow> (if nlmsg_seq nlh \<noteq> 0 \<and> seq \<noteq> 0 then nlmsg_seq nlh = seq else True)"

definition mnl_nlmsg_portid_ok :: "bytes \<Rightarrow> u32 \<Rightarrow> bool" where
  "mnl_nlmsg_portid_ok nlh portid \<longleftrightarrow> (if nlmsg_pid nlh \<noteq> 0 \<and> portid \<noteq> 0 then nlmsg_pid nlh = portid else True)"

definition mnl_attr_parse :: "bytes \<Rightarrow> nat \<Rightarrow> 'd mnl_cb \<Rightarrow> nat \<Rightarrow> 'd \<Rightarrow> 'd cb_result" where
  "mnl_attr_parse nlh offset cb e d =
     mnl_attr_loop cb (mnl_nlmsg_get_payload_offset nlh offset)
       (to_int (uint (mnl_align32 (nlmsg_len nlh)) - int (MNL_NLMSG_HDRLEN + MNL_ALIGN offset))) MNL_CB_OK e d"

text \<open>A 32-bit signed number in the payload of a message.\<close>

definition payload_int :: "bytes \<Rightarrow> (unit, int) outcome" where
  "payload_int nlh =
     (let p = mnl_nlmsg_get_payload nlh in
      if length p < 4 then Crash else Done (sint (of_nat (le_value (take 4 p)) :: 32 word)))"

definition mnl_cb_noop :: "'d mnl_cb" where
  "mnl_cb_noop nlh e d = Done (MNL_CB_OK, e, d)"

definition mnl_cb_error :: "'d mnl_cb" where
  "mnl_cb_error nlh e d =
     (if unat (nlmsg_len nlh) < mnl_nlmsg_size 20 then Done (MNL_CB_ERROR, EBADMSG, d)
      else and_then (payload_int nlh) (\<lambda>error.
        Done (if error = 0 then MNL_CB_STOP else MNL_CB_ERROR, nat \<bar>error\<bar>, d)))"

definition mnl_cb_stop :: "'d mnl_cb" where
  "mnl_cb_stop nlh e d = Done (MNL_CB_STOP, e, d)"

definition default_cb_array :: "nat \<Rightarrow> 'd mnl_cb option" where
  "default_cb_array t =
     (if t = NLMSG_NOOP then Some mnl_cb_noop
      else if t = NLMSG_ERROR then Some mnl_cb_error
      else if t = NLMSG_DONE then Some mnl_cb_stop
      else if t = NLMSG_OVERRUN then Some mnl_cb_noop
      else None)"

text \<open>The callback for a message, called if there is one.\<close>

definition mnl_cb_dispatch ::
    "'d mnl_cb option \<Rightarrow> (nat \<Rightarrow> 'd mnl_cb option) option \<Rightarrow> nat \<Rightarrow> bytes \<Rightarrow> int \<Rightarrow> nat \<Rightarrow> 'd \<Rightarrow> 'd cb_result" where
  "mnl_cb_dispatch cb_data cb_ctl_array cb_ctl_array_len nlh ret e d =
     (let call = (\<lambda>cb. case cb of Some f \<Rightarrow> f nlh e d | None \<Rightarrow> Done (ret, e, d)) in
      if nlmsg_type nlh \<ge> NLMSG_MIN_TYPE then call cb_data
      else if nlmsg_type nlh < cb_ctl_array_len
        then (case cb_ctl_array of Some a \<Rightarrow> call (a (nlmsg_type nlh)) | None \<Rightarrow> Done (ret, e, d))
      else call (default_cb_array (nlmsg_type nlh)))"

text \<open>
  The loop of \<open>__mnl_cb_run\<close>. The aligned length of a message is 0 if its length is within three of \<open>2 ^ 32\<close>; such
  a message passes \<open>mnl_nlmsg_ok\<close> as its length is negative as an \<open>int\<close>, has no attributes, and is the next message
  again.
\<close>

function mnl_cb_run_loop ::
    "u32 \<Rightarrow> u32 \<Rightarrow> 'd mnl_cb option \<Rightarrow> (nat \<Rightarrow> 'd mnl_cb option) option \<Rightarrow> nat \<Rightarrow> bytes \<Rightarrow> int \<Rightarrow> int \<Rightarrow> nat \<Rightarrow> 'd \<Rightarrow>
     'd cb_result" where
  "mnl_cb_run_loop seq portid cb_data cb_ctl_array cb_ctl_array_len nlh len ret e d =
     (if len \<ge> 16 \<and> length nlh < 16 then Crash
      else if \<not> mnl_nlmsg_ok nlh len then Done (ret, e, d)
      else if \<not> mnl_nlmsg_portid_ok nlh portid then Done (- 1, ESRCH, d)
      else if \<not> mnl_nlmsg_seq_ok nlh seq then Done (- 1, nl_EPROTO, d)
      else if nlmsg_flags nlh AND NLM_F_DUMP_INTR \<noteq> 0 then Done (- 1, EINTR, d)
      else and_then (mnl_cb_dispatch cb_data cb_ctl_array cb_ctl_array_len nlh ret e d) (\<lambda>(ret, e, d).
        if ret \<le> MNL_CB_STOP then Done (ret, e, d)
        else if mnl_align32 (nlmsg_len nlh) = 0 then Diverge
        else mnl_cb_run_loop seq portid cb_data cb_ctl_array cb_ctl_array_len
               (fst (mnl_nlmsg_next nlh len)) (snd (mnl_nlmsg_next nlh len)) ret e d))"
  by pat_completeness auto
termination
proof (relation "measure (\<lambda>(seq, portid, cb, a, n, nlh, len, ret, e, d). length nlh)", goal_cases)
  case (2 seq portid cb a n nlh len ret e d x y z f g)
  then have "0 < unat (mnl_align32 (nlmsg_len nlh))" "0 < length nlh"
    by (auto simp: mnl_nlmsg_ok_def unat_gt_0)
  then show ?case by (simp add: mnl_nlmsg_next_def)
qed simp

declare mnl_cb_run_loop.simps [simp del]

definition mnl_cb_run2 ::
    "bytes \<Rightarrow> nat \<Rightarrow> u32 \<Rightarrow> u32 \<Rightarrow> 'd mnl_cb option \<Rightarrow> (nat \<Rightarrow> 'd mnl_cb option) \<Rightarrow> nat \<Rightarrow> nat \<Rightarrow> 'd \<Rightarrow> 'd cb_result" where
  "mnl_cb_run2 buf numbytes seq portid cb_data cb_ctl_array cb_ctl_array_len e d =
     mnl_cb_run_loop seq portid cb_data (Some cb_ctl_array) cb_ctl_array_len buf (int numbytes) MNL_CB_OK e d"

definition mnl_cb_run :: "bytes \<Rightarrow> nat \<Rightarrow> u32 \<Rightarrow> u32 \<Rightarrow> 'd mnl_cb option \<Rightarrow> nat \<Rightarrow> 'd \<Rightarrow> 'd cb_result" where
  "mnl_cb_run buf numbytes seq portid cb_data e d =
     mnl_cb_run_loop seq portid cb_data None 0 buf (int numbytes) MNL_CB_OK e d"

subsection \<open>The kernel and the sockets\<close>

text \<open>
  What \<open>recvmsg\<close> gives: an error number, or the flags, the length of the address, the bytes received and the bytes
  the rest of the buffer still holds.
\<close>

datatype recvmsg_result = Recv_failed nat | Received nat nat bytes bytes

text \<open>
  The system: the page size, and, given the messages sent so far, the time, the error numbers of \<open>socket\<close>, \<open>bind\<close>
  and \<open>sendto\<close> (0 for success), what \<open>getsockname\<close> fills in (an error number, or the length of the address, its
  family and the port), and what comes back for a message. \<open>CTRL_ATTR_MAX\<close> depends on the kernel headers.
\<close>

record netlink_sys =
  sys_pagesize :: nat
  sys_ctrl_attr_max :: nat
  sys_time :: "bytes list \<Rightarrow> u32"
  sys_socket :: "bytes list \<Rightarrow> nat \<Rightarrow> nat"
  sys_bind :: "bytes list \<Rightarrow> nat"
  sys_getsockname :: "bytes list \<Rightarrow> nat + nat \<times> nat \<times> u32"
  sys_sendto :: "bytes list \<Rightarrow> bytes \<Rightarrow> nat"
  sys_reply :: "bytes list \<Rightarrow> bytes \<Rightarrow> recvmsg_result list"

abbreviation buffer_size :: "netlink_sys \<Rightarrow> nat" where
  "buffer_size k \<equiv> mnl_ideal_socket_buffer_size (sys_pagesize k)"

text \<open>\<open>mnl_socket_open\<close>: the error number, or nothing.\<close>

definition mnl_socket_open :: "netlink_sys \<Rightarrow> bytes list \<Rightarrow> nat \<Rightarrow> nat option" where
  "mnl_socket_open k h bus = (if sys_socket k h bus \<noteq> 0 then Some (sys_socket k h bus) else None)"

text \<open>\<open>mnl_socket_bind\<close> and then \<open>mnl_socket_get_portid\<close>: the error number or the port.\<close>

definition mnl_socket_bind :: "netlink_sys \<Rightarrow> bytes list \<Rightarrow> nat + u32" where
  "mnl_socket_bind k h =
     (if sys_bind k h \<noteq> 0 then Inl (sys_bind k h)
      else case sys_getsockname k h of
        Inl err \<Rightarrow> Inl err
      | Inr (addr_len, nl_family, nl_pid) \<Rightarrow>
          (if addr_len \<noteq> 12 then Inl EINVAL
           else if nl_family \<noteq> AF_NETLINK then Inl EINVAL
           else Inr nl_pid))"

text \<open>\<open>mnl_socket_recvfrom\<close>: the error number, or the buffer and the number of bytes received.\<close>

definition mnl_socket_recvfrom :: "recvmsg_result \<Rightarrow> nat + bytes \<times> nat" where
  "mnl_socket_recvfrom r =
     (case r of
        Recv_failed err \<Rightarrow> Inl err
      | Received msg_flags msg_namelen data rest \<Rightarrow>
          (if msg_flags AND MSG_TRUNC \<noteq> 0 then Inl ENOSPC
           else if msg_namelen \<noteq> 12 then Inl EINVAL
           else Inr (data @ rest, length data)))"

subsection \<open>Generic netlink\<close>

text \<open>The socket, with what waits in it.\<close>

record mnlg_socket =
  nlg_id :: u16
  nlg_version :: u8
  nlg_seq :: u32
  nlg_portid :: u32
  nlg_queue :: "recvmsg_result list"

text \<open>\<open>__mnlg_msg_prepare\<close> with the sequence number \<open>seq\<close>, which the caller's socket keeps.\<close>

definition mnlg_msg_prepare_id :: "nat \<Rightarrow> nat \<Rightarrow> u16 \<Rightarrow> u8 \<Rightarrow> u32 \<Rightarrow> bytes" where
  "mnlg_msg_prepare_id cmd flags nl_id version seq =
     (let nlh = store 8 (le_bytes 4 (unat seq)) (store 6 (le_bytes 2 flags) (store 4 (le_bytes 2 (unat nl_id))
                  mnl_nlmsg_put_header));
          nlh = mnl_nlmsg_put_extra_header 4 nlh
      in store 17 [version] (store 16 (le_bytes 1 cmd) nlh))"

definition mnlg_msg_prepare ::
    "netlink_sys \<Rightarrow> bytes list \<Rightarrow> mnlg_socket \<Rightarrow> nat \<Rightarrow> nat \<Rightarrow> mnlg_socket \<times> bytes" where
  "mnlg_msg_prepare k h nlg cmd flags =
     (nlg\<lparr>nlg_seq := sys_time k h\<rparr>,
      mnlg_msg_prepare_id cmd flags (nlg_id nlg) (nlg_version nlg) (sys_time k h))"

text \<open>The message on the wire, and sending it: the error number, or the history and the socket after it.\<close>

definition nlmsg_wire :: "bytes \<Rightarrow> bytes" where
  "nlmsg_wire m = store 0 (le_bytes 4 (length m)) m"

definition mnlg_socket_send ::
    "netlink_sys \<Rightarrow> bytes list \<Rightarrow> mnlg_socket \<Rightarrow> bytes \<Rightarrow> nat + bytes list \<times> mnlg_socket" where
  "mnlg_socket_send k h nlg m =
     (let b = nlmsg_wire m in
      if sys_sendto k h b \<noteq> 0 then Inl (sys_sendto k h b)
      else Inr (h @ [b], nlg\<lparr>nlg_queue := nlg_queue nlg @ sys_reply k h b\<rparr>))"

definition mnlg_cb_noop :: "'d mnl_cb" where
  "mnlg_cb_noop nlh e d = Done (MNL_CB_OK, e, d)"

definition mnlg_cb_error :: "'d mnl_cb" where
  "mnlg_cb_error nlh e d =
     (if unat (nlmsg_len nlh) < mnl_nlmsg_size 20 then Done (MNL_CB_ERROR, EBADMSG, d)
      else and_then (payload_int nlh) (\<lambda>error.
        Done (if error = 0 then MNL_CB_STOP else MNL_CB_ERROR, nat \<bar>error\<bar>, d)))"

definition mnlg_cb_stop :: "'d mnl_cb" where
  "mnlg_cb_stop nlh e d =
     (if nlmsg_flags nlh AND NLM_F_MULTI \<noteq> 0 \<and> unat (nlmsg_len nlh) = mnl_nlmsg_size 4
      then and_then (payload_int nlh) (\<lambda>error.
        Done (if error = 0 then MNL_CB_STOP else MNL_CB_ERROR, nat \<bar>error\<bar>, d))
      else Done (MNL_CB_STOP, e, d))"

definition mnlg_cb_array :: "nat \<Rightarrow> 'd mnl_cb option" where
  "mnlg_cb_array t =
     (if t = NLMSG_NOOP then Some mnlg_cb_noop
      else if t = NLMSG_ERROR then Some mnlg_cb_error
      else if t = NLMSG_DONE then Some mnlg_cb_stop
      else if t = NLMSG_OVERRUN then Some mnlg_cb_noop
      else None)"

text \<open>The loop of \<open>mnlg_socket_recv_run\<close>, with what is left waiting.\<close>

fun mnlg_recv_loop ::
    "u32 \<Rightarrow> u32 \<Rightarrow> 'd mnl_cb option \<Rightarrow> recvmsg_result list \<Rightarrow> nat \<Rightarrow> 'd \<Rightarrow>
     (unit, int \<times> nat \<times> 'd \<times> recvmsg_result list) outcome" where
  "mnlg_recv_loop seq portid cb [] e d = Diverge"
| "mnlg_recv_loop seq portid cb (r # rs) e d =
     (case mnl_socket_recvfrom r of
        Inl err \<Rightarrow> Done (- 1, err, d, rs)
      | Inr (buf, n) \<Rightarrow>
          (if n = 0 then Done (0, e, d, rs)
           else and_then (mnl_cb_run2 buf n seq portid cb mnlg_cb_array 5 e d) (\<lambda>(err, e, d).
             if err > 0 then mnlg_recv_loop seq portid cb rs e d else Done (err, e, d, rs))))"

definition mnlg_socket_recv_run ::
    "mnlg_socket \<Rightarrow> 'd mnl_cb option \<Rightarrow> nat \<Rightarrow> 'd \<Rightarrow> (unit, int \<times> nat \<times> 'd \<times> mnlg_socket) outcome" where
  "mnlg_socket_recv_run nlg cb e d =
     and_then (mnlg_recv_loop (nlg_seq nlg) (nlg_portid nlg) cb (nlg_queue nlg) e d)
       (\<lambda>(err, e, d, rs). Done (err, e, d, nlg\<lparr>nlg_queue := rs\<rparr>))"

definition get_family_id_attr_cb :: "nat \<Rightarrow> (nat \<rightharpoonup> bytes) mnl_cb" where
  "get_family_id_attr_cb ma attr e tb =
     (let t = mnl_attr_get_type attr; (valid, e) = mnl_attr_type_valid attr ma e in
      if valid < 0 then Done (MNL_CB_ERROR, e, tb)
      else let (u16, e') = mnl_attr_validate attr MNL_TYPE_U16 e in
        if t = CTRL_ATTR_FAMILY_ID \<and> u16 < 0 then Done (MNL_CB_ERROR, e', tb)
        else Done (MNL_CB_OK, e, tb(t \<mapsto> attr)))"

definition get_family_id_cb :: "nat \<Rightarrow> u16 mnl_cb" where
  "get_family_id_cb ma nlh e p_id =
     and_then (mnl_attr_parse nlh 4 (get_family_id_attr_cb ma) e Map.empty) (\<lambda>(_, e, tb).
       case tb CTRL_ATTR_FAMILY_ID of
         None \<Rightarrow> Done (MNL_CB_ERROR, e, p_id)
       | Some attr \<Rightarrow> Done (MNL_CB_OK, e, mnl_attr_get_u16 attr))"

text \<open>\<open>mnlg_socket_open\<close>: the error number it leaves in \<open>errno\<close> or the socket, and the history after it.\<close>

definition mnlg_socket_open ::
    "netlink_sys \<Rightarrow> bytes list \<Rightarrow> string \<Rightarrow> u8 \<Rightarrow> (unit, (nat + mnlg_socket) \<times> bytes list) outcome" where
  "mnlg_socket_open k h family_name version =
     (case mnl_socket_open k h NETLINK_GENERIC of
        Some err \<Rightarrow> Done (Inl err, h)
      | None \<Rightarrow>
     (case mnl_socket_bind k h of
        Inl err \<Rightarrow> Done (Inl err, h)
      | Inr portid \<Rightarrow>
     (let seq = sys_time k h;
          nlg = \<lparr>nlg_id = 0, nlg_version = 0, nlg_seq = seq, nlg_portid = portid, nlg_queue = []\<rparr>;
          nlh = mnlg_msg_prepare_id CTRL_CMD_GETFAMILY (NLM_F_REQUEST OR NLM_F_ACK) (of_nat GENL_ID_CTRL) 1 seq;
          nlh = mnl_attr_put_strz CTRL_ATTR_FAMILY_NAME family_name nlh
      in case mnlg_socket_send k h nlg nlh of
        Inl err \<Rightarrow> Done (Inl err, h)
      | Inr (h, nlg) \<Rightarrow>
          and_then (mnlg_socket_recv_run nlg (Some (get_family_id_cb (sys_ctrl_attr_max k))) 0 (nlg_id nlg))
            (\<lambda>(ret, e, nl_id, nlg).
              if ret < 0 then
                let e = (if e = ENOENT then EPROTONOSUPPORT else e)
                in Done (Inl (if e \<noteq> 0 then e else ENOSYS), h)
              else Done (Inr (nlg\<lparr>nlg_id := nl_id, nlg_version := version\<rparr>), h)))))"

end
