(* ===== verification/Wg_Linux.thy ===== *)
theory Wg_Linux
  imports Wg_Netlink
begin

text \<open>
  Devices to and from the kernel, \<open>wireguard-tools/src/ipc-linux.h\<close>, and the list of interface names of \<open>ipc.c\<close>.
  The functions named \<open>set_...\<close> are the loops of \<open>kernel_set_device\<close>; the label a \<open>goto\<close> leads to is in their result.
  The pointers \<open>peer\<close> and \<open>allowedip\<close> that live on between messages are the lists of what is still to be sent, empty
  for \<open>NULL\<close>. The callbacks of this file that share a name with a function of \<open>config.c\<close> begin with \<open>nl\<close>.
\<close>

subsection \<open>Numbers of the protocol\<close>

definition WG_GENL_NAME :: string where "WG_GENL_NAME = ''wireguard''"
definition WG_GENL_VERSION :: u8 where "WG_GENL_VERSION = 1"
definition WG_CMD_GET_DEVICE :: nat where "WG_CMD_GET_DEVICE = 0"
definition WG_CMD_SET_DEVICE :: nat where "WG_CMD_SET_DEVICE = 1"
definition WGDEVICE_F_REPLACE_PEERS :: u32 where "WGDEVICE_F_REPLACE_PEERS = 1"
definition WGDEVICE_A_IFINDEX :: nat where "WGDEVICE_A_IFINDEX = 1"
definition WGDEVICE_A_IFNAME :: nat where "WGDEVICE_A_IFNAME = 2"
definition WGDEVICE_A_PRIVATE_KEY :: nat where "WGDEVICE_A_PRIVATE_KEY = 3"
definition WGDEVICE_A_PUBLIC_KEY :: nat where "WGDEVICE_A_PUBLIC_KEY = 4"
definition WGDEVICE_A_FLAGS :: nat where "WGDEVICE_A_FLAGS = 5"
definition WGDEVICE_A_LISTEN_PORT :: nat where "WGDEVICE_A_LISTEN_PORT = 6"
definition WGDEVICE_A_FWMARK :: nat where "WGDEVICE_A_FWMARK = 7"
definition WGDEVICE_A_PEERS :: nat where "WGDEVICE_A_PEERS = 8"
definition WGPEER_F_REMOVE_ME :: u32 where "WGPEER_F_REMOVE_ME = 1"
definition WGPEER_F_REPLACE_ALLOWEDIPS :: u32 where "WGPEER_F_REPLACE_ALLOWEDIPS = 2"
definition WGPEER_A_PUBLIC_KEY :: nat where "WGPEER_A_PUBLIC_KEY = 1"
definition WGPEER_A_PRESHARED_KEY :: nat where "WGPEER_A_PRESHARED_KEY = 2"
definition WGPEER_A_FLAGS :: nat where "WGPEER_A_FLAGS = 3"
definition WGPEER_A_ENDPOINT :: nat where "WGPEER_A_ENDPOINT = 4"
definition WGPEER_A_PERSISTENT_KEEPALIVE_INTERVAL :: nat where "WGPEER_A_PERSISTENT_KEEPALIVE_INTERVAL = 5"
definition WGPEER_A_LAST_HANDSHAKE_TIME :: nat where "WGPEER_A_LAST_HANDSHAKE_TIME = 6"
definition WGPEER_A_RX_BYTES :: nat where "WGPEER_A_RX_BYTES = 7"
definition WGPEER_A_TX_BYTES :: nat where "WGPEER_A_TX_BYTES = 8"
definition WGPEER_A_ALLOWEDIPS :: nat where "WGPEER_A_ALLOWEDIPS = 9"
definition WGALLOWEDIP_A_FAMILY :: nat where "WGALLOWEDIP_A_FAMILY = 1"
definition WGALLOWEDIP_A_IPADDR :: nat where "WGALLOWEDIP_A_IPADDR = 2"
definition WGALLOWEDIP_A_CIDR_MASK :: nat where "WGALLOWEDIP_A_CIDR_MASK = 3"
definition WGALLOWEDIP_A_FLAGS :: nat where "WGALLOWEDIP_A_FLAGS = 4"
definition IFLA_IFNAME :: nat where "IFLA_IFNAME = 3"
definition IFLA_LINKINFO :: nat where "IFLA_LINKINFO = 18"
definition IFLA_INFO_KIND :: nat where "IFLA_INFO_KIND = 1"
definition RTM_GETLINK :: u16 where "RTM_GETLINK = 18"

lemmas wg_nl_defs = WG_GENL_NAME_def WG_GENL_VERSION_def WG_CMD_GET_DEVICE_def WG_CMD_SET_DEVICE_def
  WGDEVICE_F_REPLACE_PEERS_def WGDEVICE_A_IFINDEX_def WGDEVICE_A_IFNAME_def WGDEVICE_A_PRIVATE_KEY_def
  WGDEVICE_A_PUBLIC_KEY_def WGDEVICE_A_FLAGS_def WGDEVICE_A_LISTEN_PORT_def WGDEVICE_A_FWMARK_def
  WGDEVICE_A_PEERS_def WGPEER_F_REMOVE_ME_def WGPEER_F_REPLACE_ALLOWEDIPS_def WGPEER_A_PUBLIC_KEY_def
  WGPEER_A_PRESHARED_KEY_def WGPEER_A_FLAGS_def WGPEER_A_ENDPOINT_def WGPEER_A_PERSISTENT_KEEPALIVE_INTERVAL_def
  WGPEER_A_LAST_HANDSHAKE_TIME_def WGPEER_A_RX_BYTES_def WGPEER_A_TX_BYTES_def WGPEER_A_ALLOWEDIPS_def
  WGALLOWEDIP_A_FAMILY_def WGALLOWEDIP_A_IPADDR_def WGALLOWEDIP_A_CIDR_MASK_def WGALLOWEDIP_A_FLAGS_def

subsection \<open>Setting a device\<close>

text \<open>Puts in a row, up to the first that does not fit.\<close>

primrec put_all :: "(bytes \<Rightarrow> bool \<times> bytes) list \<Rightarrow> bytes \<Rightarrow> bool \<times> bytes" where
  "put_all [] m = (True, m)"
| "put_all (f # fs) m = (case f m of (ok, m) \<Rightarrow> if ok then put_all fs m else (False, m))"

definition put_if :: "bool \<Rightarrow> (bytes \<Rightarrow> bool \<times> bytes) \<Rightarrow> bytes \<Rightarrow> bool \<times> bytes" where
  "put_if b f m = (if b then f m else (True, m))"

definition set_device_attrs :: "wgdevice \<Rightarrow> bytes \<Rightarrow> bytes" where
  "set_device_attrs dev m =
     (let m = (if has_flag (d_flags dev) WGDEVICE_HAS_PRIVATE_KEY
               then mnl_attr_put WGDEVICE_A_PRIVATE_KEY (private_key dev) m else m);
          m = (if has_flag (d_flags dev) WGDEVICE_HAS_LISTEN_PORT
               then mnl_attr_put_u16 WGDEVICE_A_LISTEN_PORT (listen_port dev) m else m);
          m = (if has_flag (d_flags dev) WGDEVICE_HAS_FWMARK
               then mnl_attr_put_u32 WGDEVICE_A_FWMARK (fwmark dev) m else m);
          flags = (if has_flag (d_flags dev) WGDEVICE_REPLACE_PEERS then WGDEVICE_F_REPLACE_PEERS else 0)
      in if flags \<noteq> 0 then mnl_attr_put_u32 WGDEVICE_A_FLAGS flags m else m)"

definition set_allowedip_attrs :: "nat \<Rightarrow> wgallowedip \<Rightarrow> bytes \<Rightarrow> bool \<times> bytes" where
  "set_allowedip_attrs buflen a = put_all
     [mnl_attr_put_u16_check buflen WGALLOWEDIP_A_FAMILY (family a),
      (if unat (family a) = AF_INET then mnl_attr_put_check buflen WGALLOWEDIP_A_IPADDR (take 4 (ip a))
       else put_if (unat (family a) = AF_INET6) (mnl_attr_put_check buflen WGALLOWEDIP_A_IPADDR (ip a))),
      mnl_attr_put_u8_check buflen WGALLOWEDIP_A_CIDR_MASK (cidr a),
      put_if (a_flags a \<noteq> 0) (mnl_attr_put_u32_check buflen WGALLOWEDIP_A_FLAGS (a_flags a))]"

text \<open>One allowed IP: whether it fits, \<open>allowedip_nest\<close> and the message.\<close>

definition set_allowedip :: "nat \<Rightarrow> wgallowedip \<Rightarrow> bytes \<Rightarrow> bool \<times> nat option \<times> bytes" where
  "set_allowedip buflen a m =
     (case mnl_attr_nest_start_check buflen 0 m of
        None \<Rightarrow> (False, None, m)
      | Some (nest, m) \<Rightarrow>
          (case set_allowedip_attrs buflen a m of (ok, m) \<Rightarrow>
             if ok then (True, None, mnl_attr_nest_end nest m) else (False, Some nest, m)))"

text \<open>The allowed IPs from \<open>allowedip\<close> on: those that do not fit, \<open>allowedip_nest\<close> and the message.\<close>

fun set_allowedips :: "nat \<Rightarrow> wgallowedip list \<Rightarrow> bytes \<Rightarrow> wgallowedip list \<times> nat option \<times> bytes" where
  "set_allowedips buflen [] m = ([], None, m)"
| "set_allowedips buflen (a # as) m =
     (case set_allowedip buflen a m of (ok, nest, m) \<Rightarrow>
        if ok then set_allowedips buflen as m else (a # as, nest, m))"

text \<open>
  What a peer says besides its allowed IPs, \<open>fresh\<close> if \<open>allowedip\<close> is \<open>NULL\<close>, that is, unless the peer continues
  from the message before.
\<close>

definition set_peer_flags :: "bool \<Rightarrow> wgpeer \<Rightarrow> u32" where
  "set_peer_flags fresh p =
     ((if has_flag (p_flags p) WGPEER_REMOVE_ME then WGPEER_F_REMOVE_ME else 0)
      OR (if fresh \<and> has_flag (p_flags p) WGPEER_REPLACE_ALLOWEDIPS then WGPEER_F_REPLACE_ALLOWEDIPS else 0))"

definition set_peer_attrs :: "nat \<Rightarrow> bool \<Rightarrow> wgpeer \<Rightarrow> bytes \<Rightarrow> bool \<times> bytes" where
  "set_peer_attrs buflen fresh p = put_all
     [mnl_attr_put_check buflen WGPEER_A_PUBLIC_KEY (public_key p),
      put_if (fresh \<and> has_flag (p_flags p) WGPEER_HAS_PRESHARED_KEY)
        (mnl_attr_put_check buflen WGPEER_A_PRESHARED_KEY (preshared_key p)),
      (if fresh \<and> sa_family (endpoint p) = AF_INET
       then mnl_attr_put_check buflen WGPEER_A_ENDPOINT (take 16 (endpoint p))
       else put_if (fresh \<and> sa_family (endpoint p) = AF_INET6)
         (mnl_attr_put_check buflen WGPEER_A_ENDPOINT (endpoint p))),
      put_if (fresh \<and> has_flag (p_flags p) WGPEER_HAS_PERSISTENT_KEEPALIVE_INTERVAL)
        (mnl_attr_put_u16_check buflen WGPEER_A_PERSISTENT_KEEPALIVE_INTERVAL (persistent_keepalive_interval p)),
      put_if (set_peer_flags fresh p \<noteq> 0)
        (mnl_attr_put_u32_check buflen WGPEER_A_FLAGS (set_peer_flags fresh p))]"

text \<open>
  How the body of the loop over the peers ends, with the message up to the end of this peer's attribute: the next
  peer is due, or \<open>toobig_allowedips\<close> with \<open>allowedip\<close>, or \<open>toobig_peers\<close>.
\<close>

datatype set_peer_exit =
  Next_peer bytes | Toobig_allowedips "wgallowedip list" bytes | Toobig_peers bytes

definition set_peer :: "nat \<Rightarrow> wgpeer \<Rightarrow> wgallowedip list \<Rightarrow> bytes \<Rightarrow> set_peer_exit" where
  "set_peer buflen p allowedip m =
     (case mnl_attr_nest_start_check buflen 0 m of
        None \<Rightarrow> Toobig_peers m
      | Some (peer_nest, m) \<Rightarrow>
     (case set_peer_attrs buflen (allowedip = []) p m of (ok, m) \<Rightarrow>
      if \<not> ok then Toobig_peers (mnl_attr_nest_cancel peer_nest m)
      else if allowedips p = [] then Next_peer (mnl_attr_nest_end peer_nest m)
      else let allowedip = (if allowedip = [] then allowedips p else allowedip) in
      (case mnl_attr_nest_start_check buflen WGPEER_A_ALLOWEDIPS m of
         None \<Rightarrow> Toobig_allowedips allowedip (mnl_attr_nest_end peer_nest m)
       | Some (allowedips_nest, m) \<Rightarrow>
      (case set_allowedips buflen allowedip m of (allowedip, allowedip_nest, m) \<Rightarrow>
       if allowedip = [] then Next_peer (mnl_attr_nest_end peer_nest (mnl_attr_nest_end allowedips_nest m))
       else let m = (case allowedip_nest of None \<Rightarrow> m | Some nest \<Rightarrow> mnl_attr_nest_cancel nest m)
            in Toobig_allowedips allowedip
                 (mnl_attr_nest_end peer_nest (mnl_attr_nest_end allowedips_nest m))))))"

text \<open>The peers from \<open>peer\<close> on: \<open>peer\<close> and \<open>allowedip\<close> at the end of the message, and the message.\<close>

fun set_peers ::
    "nat \<Rightarrow> wgpeer list \<Rightarrow> wgallowedip list \<Rightarrow> bytes \<Rightarrow> wgpeer list \<times> wgallowedip list \<times> bytes" where
  "set_peers buflen [] allowedip m = ([], allowedip, m)"
| "set_peers buflen (p # ps) allowedip m =
     (case set_peer buflen p allowedip m of
        Next_peer m \<Rightarrow> set_peers buflen ps [] m
      | Toobig_allowedips allowedip m \<Rightarrow> (p # ps, allowedip, m)
      | Toobig_peers m \<Rightarrow> (p # ps, allowedip, m))"

text \<open>From the label \<open>again\<close> to the label \<open>send\<close>, on a message that \<open>mnlg_msg_prepare\<close> has begun.\<close>

definition set_message ::
    "nat \<Rightarrow> wgdevice \<Rightarrow> wgpeer list \<Rightarrow> wgallowedip list \<Rightarrow> bytes \<Rightarrow> wgpeer list \<times> wgallowedip list \<times> bytes" where
  "set_message buflen dev peer allowedip m =
     (let m = mnl_attr_put_strz WGDEVICE_A_IFNAME (name dev) m;
          m = (if peer = [] then set_device_attrs dev m else m)
      in if peers dev = [] then (peer, allowedip, m)
         else case mnl_attr_nest_start WGDEVICE_A_PEERS m of (peers_nest, m) \<Rightarrow>
           (case set_peers buflen (if peer = [] then peers dev else peer) allowedip m of
              (peer, allowedip, m) \<Rightarrow> (peer, allowedip, mnl_attr_nest_end peers_nest m)))"

text \<open>
  From the label \<open>again\<close> on: the value returned and the history, or \<^const>\<open>None\<close> if messages are sent without end.
\<close>

partial_function (option) set_again ::
    "netlink_sys \<Rightarrow> bytes list \<Rightarrow> mnlg_socket \<Rightarrow> wgdevice \<Rightarrow> wgpeer list \<Rightarrow> wgallowedip list \<Rightarrow>
     (unit, int \<times> bytes list) outcome option" where
  "set_again k h nlg dev peer allowedip =
     (case mnlg_msg_prepare k h nlg WG_CMD_SET_DEVICE (NLM_F_REQUEST OR NLM_F_ACK) of (nlg, nlh) \<Rightarrow>
      case set_message (buffer_size k) dev peer allowedip nlh of (peer, allowedip, nlh) \<Rightarrow>
      case mnlg_socket_send k h nlg nlh of
        Inl err \<Rightarrow> Some (Done (- int err, h))
      | Inr (h, nlg) \<Rightarrow>
          (case mnlg_socket_recv_run nlg None 0 () of
             Done (ret, e, _, nlg) \<Rightarrow>
               if ret < 0 then Some (Done (if e \<noteq> 0 then - int e else - int EINVAL, h))
               else if peer \<noteq> [] then set_again k h nlg dev peer allowedip
               else Some (Done (0, h))
           | Diverge \<Rightarrow> Some Diverge
           | _ \<Rightarrow> Some Crash))"

definition kernel_set_device ::
    "netlink_sys \<Rightarrow> bytes list \<Rightarrow> wgdevice \<Rightarrow> (unit, int \<times> bytes list) outcome option" where
  "kernel_set_device k h dev =
     (case mnlg_socket_open k h WG_GENL_NAME WG_GENL_VERSION of
        Done (Inl err, h) \<Rightarrow> Some (Done (- int err, h))
      | Done (Inr nlg, h) \<Rightarrow> set_again k h nlg dev [] []
      | Diverge \<Rightarrow> Some Diverge
      | _ \<Rightarrow> Some Crash)"

subsection \<open>Reading a device\<close>

definition nl_parse_allowedip :: "wgallowedip mnl_cb" where
  "nl_parse_allowedip attr e a =
     (let t = mnl_attr_get_type attr; n = mnl_attr_get_payload_len attr; data = take n (mnl_attr_get_payload attr) in
      if t = WGALLOWEDIP_A_FAMILY then
        (case mnl_attr_validate attr MNL_TYPE_U16 e of (ret, e) \<Rightarrow>
           Done (MNL_CB_OK, e, if ret = 0 then a\<lparr>family := mnl_attr_get_u16 attr\<rparr> else a))
      else if t = WGALLOWEDIP_A_IPADDR then
        Done (MNL_CB_OK, e,
          if n = 4 then a\<lparr>ip := data @ drop 4 (ip a)\<rparr> else if n = 16 then a\<lparr>ip := data\<rparr> else a)
      else if t = WGALLOWEDIP_A_CIDR_MASK then
        (case mnl_attr_validate attr MNL_TYPE_U8 e of (ret, e) \<Rightarrow>
           Done (MNL_CB_OK, e, if ret = 0 then a\<lparr>cidr := mnl_attr_get_u8 attr\<rparr> else a))
      else Done (MNL_CB_OK, e, a))"

text \<open>Appending a node to a chain whose first node is tested.\<close>

definition link_first_last :: "'a \<Rightarrow> 'a list \<times> nat option \<Rightarrow> (unit, 'a list \<times> nat option) outcome" where
  "link_first_last new c =
     (case c of (chain, lp) \<Rightarrow>
      if chain = [] then Done ([new], Some 0)
      else case lp of None \<Rightarrow> Crash | Some i \<Rightarrow> Done (take (Suc i) chain @ [new], Some (Suc i)))"

definition nl_parse_allowedips :: "wgpeer mnl_cb" where
  "nl_parse_allowedips attr e p =
     and_then (mnl_attr_parse_nested attr nl_parse_allowedip e zero_allowedip) (\<lambda>(ret, e, a).
     and_then (link_first_last a (allowedips p, last_allowedip p)) (\<lambda>(as, l).
       let p = p\<lparr>allowedips := as, last_allowedip := l\<rparr> in
       if ret = 0 then Done (ret, e, p)
       else if \<not> (unat (family a) = AF_INET \<and> unat (cidr a) \<le> 32 \<or>
                  unat (family a) = AF_INET6 \<and> unat (cidr a) \<le> 128) then Done (MNL_CB_ERROR, e, p)
       else Done (MNL_CB_OK, e, p)))"

definition nl_timespec :: "bytes \<Rightarrow> timespec64" where
  "nl_timespec bs = \<lparr>tv_sec = of_nat (le_value (take 8 bs)), tv_nsec = of_nat (le_value (take 8 (drop 8 bs)))\<rparr>"

definition nl_parse_peer :: "wgpeer mnl_cb" where
  "nl_parse_peer attr e p =
     (let t = mnl_attr_get_type attr; n = mnl_attr_get_payload_len attr; data = take n (mnl_attr_get_payload attr) in
      if t = WGPEER_A_PUBLIC_KEY then
        Done (MNL_CB_OK, e,
          if n = WG_KEY_LEN then p\<lparr>public_key := data, p_flags := p_flags p OR WGPEER_HAS_PUBLIC_KEY\<rparr> else p)
      else if t = WGPEER_A_PRESHARED_KEY then
        Done (MNL_CB_OK, e,
          if n = WG_KEY_LEN then
            p\<lparr>preshared_key := data,
              p_flags := (if \<not> key_is_zero data then p_flags p OR WGPEER_HAS_PRESHARED_KEY else p_flags p)\<rparr>
          else p)
      else if t = WGPEER_A_ENDPOINT then
        Done (MNL_CB_OK, e,
          if n < 16 then p
          else if sa_family data = AF_INET \<and> n = 16 then p\<lparr>endpoint := data @ drop 16 (endpoint p)\<rparr>
          else if sa_family data = AF_INET6 \<and> n = 28 then p\<lparr>endpoint := data\<rparr>
          else p)
      else if t = WGPEER_A_PERSISTENT_KEEPALIVE_INTERVAL then
        (case mnl_attr_validate attr MNL_TYPE_U16 e of (ret, e) \<Rightarrow>
           Done (MNL_CB_OK, e, if ret = 0 then p\<lparr>persistent_keepalive_interval := mnl_attr_get_u16 attr\<rparr> else p))
      else if t = WGPEER_A_LAST_HANDSHAKE_TIME then
        Done (MNL_CB_OK, e, if n = 16 then p\<lparr>last_handshake_time := nl_timespec data\<rparr> else p)
      else if t = WGPEER_A_RX_BYTES then
        (case mnl_attr_validate attr MNL_TYPE_U64 e of (ret, e) \<Rightarrow>
           Done (MNL_CB_OK, e, if ret = 0 then p\<lparr>rx_bytes := mnl_attr_get_u64 attr\<rparr> else p))
      else if t = WGPEER_A_TX_BYTES then
        (case mnl_attr_validate attr MNL_TYPE_U64 e of (ret, e) \<Rightarrow>
           Done (MNL_CB_OK, e, if ret = 0 then p\<lparr>tx_bytes := mnl_attr_get_u64 attr\<rparr> else p))
      else if t = WGPEER_A_ALLOWEDIPS then mnl_attr_parse_nested attr nl_parse_allowedips e p
      else Done (MNL_CB_OK, e, p))"

definition nl_parse_peers :: "wgdevice mnl_cb" where
  "nl_parse_peers attr e d =
     and_then (mnl_attr_parse_nested attr nl_parse_peer e zero_peer) (\<lambda>(ret, e, p).
     and_then (link_first_last p (peers d, last_peer d)) (\<lambda>(ps, l).
       let d = d\<lparr>peers := ps, last_peer := l\<rparr> in
       if ret = 0 then Done (ret, e, d)
       else if \<not> has_flag (p_flags p) WGPEER_HAS_PUBLIC_KEY then Done (MNL_CB_ERROR, e, d)
       else Done (MNL_CB_OK, e, d)))"

text \<open>\<open>strncpy\<close> of at most \<open>n\<close> characters from memory, up to the first NUL.\<close>

definition strncpy_from :: "nat \<Rightarrow> bytes \<Rightarrow> (unit, string) outcome" where
  "strncpy_from n src =
     (let s = takeWhile (\<lambda>b. b \<noteq> 0) (take n src) in
      if length s = length src \<and> length s < n then Crash else Done (bytes_string s))"

definition nl_parse_device :: "wgdevice mnl_cb" where
  "nl_parse_device attr e d =
     (let t = mnl_attr_get_type attr; n = mnl_attr_get_payload_len attr; data = take n (mnl_attr_get_payload attr) in
      if t = WGDEVICE_A_IFINDEX then
        (case mnl_attr_validate attr MNL_TYPE_U32 e of (ret, e) \<Rightarrow>
           Done (MNL_CB_OK, e, if ret = 0 then d\<lparr>ifindex := mnl_attr_get_u32 attr\<rparr> else d))
      else if t = WGDEVICE_A_IFNAME then
        (case mnl_attr_validate attr MNL_TYPE_STRING e of (ret, e) \<Rightarrow>
           if ret = 0 then
             and_then (strncpy_from 15 (mnl_attr_get_str attr)) (\<lambda>s. Done (MNL_CB_OK, e, d\<lparr>name := s\<rparr>))
           else Done (MNL_CB_OK, e, d))
      else if t = WGDEVICE_A_PRIVATE_KEY then
        Done (MNL_CB_OK, e,
          if n = WG_KEY_LEN then d\<lparr>private_key := data, d_flags := d_flags d OR WGDEVICE_HAS_PRIVATE_KEY\<rparr> else d)
      else if t = WGDEVICE_A_PUBLIC_KEY then
        Done (MNL_CB_OK, e,
          if n = WG_KEY_LEN then d\<lparr>d_public_key := data, d_flags := d_flags d OR WGDEVICE_HAS_PUBLIC_KEY\<rparr> else d)
      else if t = WGDEVICE_A_LISTEN_PORT then
        (case mnl_attr_validate attr MNL_TYPE_U16 e of (ret, e) \<Rightarrow>
           Done (MNL_CB_OK, e, if ret = 0 then d\<lparr>listen_port := mnl_attr_get_u16 attr\<rparr> else d))
      else if t = WGDEVICE_A_FWMARK then
        (case mnl_attr_validate attr MNL_TYPE_U32 e of (ret, e) \<Rightarrow>
           Done (MNL_CB_OK, e, if ret = 0 then d\<lparr>fwmark := mnl_attr_get_u32 attr\<rparr> else d))
      else if t = WGDEVICE_A_PEERS then mnl_attr_parse_nested attr nl_parse_peers e d
      else Done (MNL_CB_OK, e, d))"

definition read_device_cb :: "wgdevice mnl_cb" where
  "read_device_cb nlh e d = mnl_attr_parse nlh 4 nl_parse_device e d"

text \<open>
  Joining a peer with its successor. The pointer to the last allowed IP becomes that of the successor, also when the
  successor has none.
\<close>

definition join_peers :: "wgpeer \<Rightarrow> wgpeer \<Rightarrow> (unit, wgpeer) outcome" where
  "join_peers p q =
     (if allowedips p = [] then Done (p\<lparr>allowedips := allowedips q, last_allowedip := last_allowedip q\<rparr>)
      else case last_allowedip p of
        None \<Rightarrow> Crash
      | Some i \<Rightarrow> Done (p\<lparr>allowedips := take (Suc i) (allowedips p) @ allowedips q,
                       last_allowedip := map_option (\<lambda>j. Suc i + j) (last_allowedip q)\<rparr>))"

fun coalesce_loop :: "wgpeer list \<Rightarrow> (unit, wgpeer list) outcome" where
  "coalesce_loop (p # q # ps) =
     (if public_key p \<noteq> public_key q then and_then (coalesce_loop (q # ps)) (\<lambda>r. Done (p # r))
      else and_then (join_peers p q) (\<lambda>p. coalesce_loop (p # ps)))"
| "coalesce_loop ps = Done ps"

text \<open>
  The pointer to the last peer is not changed. It dangles if that peer has been joined to the one before, which is
  written \<^const>\<open>None\<close> here.
\<close>

definition coalesce_peers :: "wgdevice \<Rightarrow> (unit, wgdevice) outcome" where
  "coalesce_peers d =
     and_then (coalesce_loop (peers d)) (\<lambda>ps.
       Done (d\<lparr>peers := ps,
               last_peer := (if ps = [] \<or> (length (peers d) > 1 \<and>
                   public_key (last (peers d)) = public_key (last (butlast (peers d)))) then None
                 else Some (length ps - 1))\<rparr>))"

text \<open>From the label \<open>try_again\<close> on: the value returned, the device and the history.\<close>

partial_function (option) get_try_again ::
    "netlink_sys \<Rightarrow> bytes list \<Rightarrow> string \<Rightarrow> (unit, int \<times> wgdevice option \<times> bytes list) outcome option" where
  "get_try_again k h iface =
     (case mnlg_socket_open k h WG_GENL_NAME WG_GENL_VERSION of
        Done (Inl err, h) \<Rightarrow> Some (Done (- int err, None, h))
      | Done (Inr nlg, h) \<Rightarrow>
          (case mnlg_msg_prepare k h nlg WG_CMD_GET_DEVICE (NLM_F_REQUEST OR NLM_F_ACK OR NLM_F_DUMP) of (nlg, nlh) \<Rightarrow>
           case mnlg_socket_send k h nlg (mnl_attr_put_strz WGDEVICE_A_IFNAME iface nlh) of
             Inl err \<Rightarrow> if err = EINTR then get_try_again k h iface else Some (Done (- int err, None, h))
           | Inr (h, nlg) \<Rightarrow>
               (case mnlg_socket_recv_run nlg (Some read_device_cb) 0 zero_device of
                  Done (ret, e, d, nlg) \<Rightarrow>
                    if ret < 0 then
                      if e = EINTR then get_try_again k h iface
                      else Some (Done (if e \<noteq> 0 then - int e else - int EINVAL, None, h))
                    else Some (and_then (coalesce_peers d) (\<lambda>d. Done (0, Some d, h)))
                | Diverge \<Rightarrow> Some Diverge
                | _ \<Rightarrow> Some Crash))
      | Diverge \<Rightarrow> Some Diverge
      | _ \<Rightarrow> Some Crash)"

definition kernel_get_device ::
    "netlink_sys \<Rightarrow> bytes list \<Rightarrow> string \<Rightarrow> (unit, int \<times> wgdevice option \<times> bytes list) outcome option" where
  "kernel_get_device k h iface =
     (if length iface \<ge> 16 then Some (Done (- int ENAMETOOLONG, None, h)) else get_try_again k h iface)"

subsection \<open>Listing the interfaces\<close>

text \<open>The list of names: the bytes written to the buffer, the length without the last NUL, the capacity.\<close>

record string_list =
  sl_buffer :: bytes
  sl_len :: nat
  sl_cap :: nat

definition string_list_add :: "string_list \<Rightarrow> string \<Rightarrow> (unit, int \<times> string_list) outcome" where
  "string_list_add l s =
     (let len = length s + 1 in
      if len = 1 then Done (0, l)
      else
        let cap = (if len \<ge> sl_cap l - sl_len l
                   then (let new_cap = sl_cap l * 2
                         in if new_cap < sl_len l + len + 1 then sl_len l + len + 1 else new_cap)
                   else sl_cap l)
        in if sl_len l + len \<ge> cap then Crash
           else Done (0, \<lparr>sl_buffer = take (sl_len l) (sl_buffer l) @ string_bytes s @ [0, 0],
                          sl_len = sl_len l + len, sl_cap = cap\<rparr>))"

text \<open>Whether memory holds a string, and the string that memory holds.\<close>

fun str_eq :: "string \<Rightarrow> bytes \<Rightarrow> (unit, bool) outcome" where
  "str_eq s [] = Crash"
| "str_eq [] (b # bs) = Done (b = 0)"
| "str_eq (c # s) (b # bs) = (if b = of_nat (of_char c) then str_eq s bs else Done False)"

definition c_string :: "bytes \<Rightarrow> (unit, string) outcome" where
  "c_string bs = (if 0 \<in> set bs then Done (bytes_string (takeWhile (\<lambda>b. b \<noteq> 0) bs)) else Crash)"

record nl_interface =
  if_name :: "bytes option"
  is_wireguard :: bool

definition parse_linkinfo :: "nl_interface mnl_cb" where
  "parse_linkinfo attr e i =
     (if mnl_attr_get_type attr = IFLA_INFO_KIND
      then and_then (str_eq WG_GENL_NAME (mnl_attr_get_str attr)) (\<lambda>eq.
        Done (MNL_CB_OK, e, if eq then i\<lparr>is_wireguard := True\<rparr> else i))
      else Done (MNL_CB_OK, e, i))"

definition parse_infomsg :: "nl_interface mnl_cb" where
  "parse_infomsg attr e i =
     (if mnl_attr_get_type attr = IFLA_LINKINFO then mnl_attr_parse_nested attr parse_linkinfo e i
      else if mnl_attr_get_type attr = IFLA_IFNAME then Done (MNL_CB_OK, e, i\<lparr>if_name := Some (mnl_attr_get_str attr)\<rparr>)
      else Done (MNL_CB_OK, e, i))"

definition read_devices_cb :: "string_list mnl_cb" where
  "read_devices_cb nlh e l =
     and_then (mnl_attr_parse nlh 16 parse_infomsg e \<lparr>if_name = None, is_wireguard = False\<rparr>) (\<lambda>(ret, e, i).
       if ret \<noteq> MNL_CB_OK then Done (ret, e, l)
       else and_then
         (case if_name i of
            Some s \<Rightarrow> (if is_wireguard i then and_then (c_string s) (string_list_add l) else Done (ret, l))
          | None \<Rightarrow> Done (ret, l)) (\<lambda>(ret, l).
         if ret < 0 then Done (ret, e, l)
         else if nlmsg_type nlh \<noteq> NLMSG_DONE then Done (MNL_CB_OK + 1, e, l)
         else Done (MNL_CB_OK, e, l)))"

text \<open>From the label \<open>another\<close> on, on what waits in the socket.\<close>

fun interfaces_another ::
    "u32 \<Rightarrow> u32 \<Rightarrow> recvmsg_result list \<Rightarrow> nat \<Rightarrow> string_list \<Rightarrow> (unit, int \<times> string_list) outcome" where
  "interfaces_another seq portid [] e l = Diverge"
| "interfaces_another seq portid (r # rs) e l =
     (case mnl_socket_recvfrom r of
        Inl err \<Rightarrow> Done (- int err, l)
      | Inr (buf, n) \<Rightarrow>
          and_then (mnl_cb_run buf n seq portid (Some read_devices_cb) e l) (\<lambda>(len, e, l).
            if len < 0 \<and> e \<noteq> EINTR then Done (- int e, l)
            else if len = MNL_CB_OK + 1 then interfaces_another seq portid rs e l
            else Done (0, l)))"

definition kernel_get_wireguard_interfaces ::
    "netlink_sys \<Rightarrow> bytes list \<Rightarrow> string_list \<Rightarrow> (unit, int \<times> string_list) outcome" where
  "kernel_get_wireguard_interfaces k h l =
     (case mnl_socket_open k h NETLINK_ROUTE of
        Some err \<Rightarrow> Done (- int err, l)
      | None \<Rightarrow>
     (case mnl_socket_bind k h of
        Inl err \<Rightarrow> Done (- int err, l)
      | Inr portid \<Rightarrow>
     (let seq = sys_time k h;
          nlh = store 8 (le_bytes 4 (unat seq)) (store 6 (le_bytes 2 (NLM_F_REQUEST OR NLM_F_ACK OR NLM_F_DUMP))
                  (store 4 (le_bytes 2 (unat RTM_GETLINK)) mnl_nlmsg_put_header));
          b = nlmsg_wire (mnl_nlmsg_put_extra_header 16 nlh)
      in if sys_sendto k h b \<noteq> 0 then Done (- int (sys_sendto k h b), l)
         else interfaces_another seq portid (sys_reply k h b) 0 l)))"

end
