(* ===== verification/Spec2Isabelle.thy ===== *)
theory Spec2Isabelle
  imports Wg_Config_Properties Wg_Showconf Wg_Setconf Wg_Uapi Wg_Highlighter_Properties
    Wg_Fiat_Properties Wg_Linux
begin

text \<open>
  \<^bold>\<open>The program.\<close> The application builds the WireGuard tools under \<open>src/tunnel/tools/wireguard-tools\<close> for
  Android: the command \<open>wg\<close> in \<open>src/\<close> of that directory (paths below are relative to it), which reads
  configuration files and sets and shows devices, and the syntax highlighter \<open>contrib/highlighter\<close>. The
  parts and how they meet:

  \<^item> \<open>ctype.h\<close> and \<open>encoding.c\<close>: character classes and key encodings without data-dependent branches, used by
    everything that reads or prints text.
  \<^item> \<open>containers.h\<close>: the device, its peers and their allowed IPs, which all other parts exchange.
  \<^item> \<open>config.c\<close>: text of a file or of a command line to a device.
  \<^item> \<open>showconf.c\<close>: a device back to text. \<open>setconf.c\<close> and \<open>set.c\<close>: text to a device to the interface, with
    \<open>syncconf\<close> first reading the interface and removing what the file does not have.
  \<^item> \<open>ipc-uapi.h\<close>: the device to and from the text protocol of a userspace implementation.
  \<^item> \<open>netlink.h\<close> and \<open>ipc-linux.h\<close>: the device to and from the netlink messages of the kernel, \<open>ipc.c\<close> with the list
    of interface names.
  \<^item> \<open>curve25519.c\<close> with \<open>curve25519-hacl64.h\<close> or \<open>curve25519-fiat32.h\<close>: public keys from private ones.
  \<^item> \<open>contrib/highlighter/highlighter.c\<close>: which parts of a text an editor marks as keys, addresses or errors.

  \<^bold>\<open>The theories.\<close> Every definition keeps the name of the C function it translates, or adds to it the name of the
  loop or branch it is.

  \<^item> \<open>Wg_Prelude\<close>: machine types as words, C strings, numerals, little-endian bytes, \<open>strtoul\<close>.
  \<^item> \<open>Wg_Ctype\<close>, \<open>Wg_Encoding\<close>: \<open>char_is_space\<close>, \<open>char_is_digit\<close>, \<open>char_is_alpha\<close>; \<open>encode_base64\<close>,
    \<open>decode_base64\<close>, \<open>key_to_base64\<close>, \<open>key_from_base64\<close>, \<open>key_to_hex\<close>, \<open>key_from_hex\<close>, \<open>key_is_zero\<close>, all with the
    shifts and masks of the source. The lemmas give the values of the bit tricks by evaluation over all
    characters and bytes, and the codecs as inverse bijections.
  \<^item> \<open>Wg_Text\<close>: the text the tools write and split again.
  \<^item> \<open>Wg_Containers\<close>: the records \<open>wgdevice\<close>, \<open>wgpeer\<close>, \<open>wgallowedip\<close>, their flags, the type of results and the
    locale \<open>append_chain\<close> of the chains with a last-node pointer. \<open>free_wgdevice\<close> is on a memory, a map from
    addresses to nodes with their pointers, where reading or releasing an address that is not allocated is \<open>Crash\<close>.
  \<^item> \<open>Wg_Config\<close>: every parser of \<open>config.c\<close>, \<open>process_line\<close>, the reader \<open>config_read_init\<close>, \<open>config_read_line\<close>,
    \<open>config_read_finish\<close> and the command line \<open>config_read_cmd\<close>. The state is the C \<open>config_ctx\<close> with the device
    in it. \<open>Wg_Config_Spec\<close> says what the parsers accept, \<open>Wg_Config_Properties\<close> that the readers never follow a
    null pointer and what they compute.
  \<^item> \<open>Wg_Libc\<close>: the documented behaviour of \<open>inet_pton\<close>, \<open>inet_ntop\<close>, \<open>getaddrinfo\<close> and \<open>getnameinfo\<close> as one
    predicate on the record of these functions, and an instance that has it.
  \<^item> \<open>Wg_Showconf\<close>, \<open>Wg_Setconf\<close>, \<open>Wg_Uapi\<close>: the commands and the protocol. Printing and reading back gives the
    same device (\<open>showconf_roundtrip\<close>, \<open>uapi_roundtrip\<close>); \<open>sync_conf_correct\<close> says which peers a
    synchronisation asks the interface to remove.
  \<^item> \<open>Wg_Highlighter\<close>, \<open>Wg_Highlighter_Spec\<close>, \<open>Wg_Highlighter_Properties\<close>: every validator and the span builder of
    \<open>highlighter.c\<close>. A read of the text or a write to the array of spans that is out of bounds is a value of its own
    (\<open>char_at\<close>, \<open>store_span\<close>); neither happens, the spans are ordered, disjoint and within the text, and the validators
    agree with the grammars and with \<open>config.c\<close>.
  \<^item> \<open>Wg_Curve\<close>, \<open>Wg_Fiat\<close>: X25519 on words of 64 and 128 bits, and on words of 32 and 64 bits, one definition per
    C function. \<open>Wg_Curve_Ladder\<close> has the ladder of RFC 7748 on integers and the locales \<open>limb_field\<close> and
    \<open>ladder_field\<close> of what a field implementation promises; \<open>Wg_Curve_Field\<close> and \<open>Wg_Fiat_Field\<close> interpret them on
    the two implementations, which shows that no sum or product overflows; \<open>Wg_Curve_Hacl\<close>, \<open>Wg_Fiat_Ladder\<close>,
    \<open>Wg_Curve_Format\<close> and \<open>Wg_Fiat_Format\<close> have inversion, ladder and byte formats; \<open>Wg_Curve_Properties\<close> and
    \<open>Wg_Fiat_Properties\<close> conclude that both are the function of RFC 7748 and equal each other. \<open>curve25519\<close> and
    \<open>curve25519_generate_public\<close> take whether the compiler has a 128-bit integer, by which \<open>curve25519.c\<close> chooses.
  \<^item> \<open>Wg_Netlink\<close>: the library \<open>netlink.h\<close>: building messages and nested attributes, reading them through callbacks,
    the generic netlink socket. \<open>Wg_Linux\<close>: \<open>kernel_set_device\<close> with its division of a device over messages,
    \<open>kernel_get_device\<close> with the joining of divided peers, \<open>kernel_get_wireguard_interfaces\<close> and \<open>string_list_add\<close>.

  \<^bold>\<open>Parameters.\<close> The C library and the system are arguments: the record \<open>libc\<close> of address functions, the contents
  of files, the implementation at the other end of a socket, the success of an allocation in the highlighter,
  the kernel as a record of what each system call answers.
  What a theorem needs of them is a hypothesis in its statement, and a witness instantiates it. Bytes are
  little endian, as on the Android ABIs; those differ in the signedness of \<open>char\<close> and the width of \<open>unsigned long\<close>,
  which are fields of \<open>libc\<close>, and in whether there is a 128-bit integer.

  \<^bold>\<open>Bounds and fuel.\<close> Loops of the source are structural recursions or functions with a termination proof; the
  retries of \<open>parse_endpoint\<close> are bounded by its count, and only \<open>infinity\<close> retries without end, which is the
  value \<open>Diverge\<close>. The loops \<open>again\<close> of
  \<open>kernel_set_device\<close> and \<open>try_again\<close> of \<open>kernel_get_device\<close> and the
  loops of \<open>free_wgdevice\<close> are partial functions, so that not returning is \<open>None\<close>. No definition uses fuel in place of a bound of the source. The theorem
  that the two implementations of X25519 agree asks that the point satisfies one instance of Fermat's theorem, as the
  primality of \<open>2 ^ 255 - 19\<close> is not proved here; that each computes the ladder of RFC 7748 does not need it.

  \<^bold>\<open>Not modelled.\<close>
  \<^item> \<open>ipc-uapi-unix.h\<close> and the entry points of \<open>ipc.c\<close>: opening sockets and listing directories.
  \<^item> \<open>show.c\<close> and \<open>terminal.c\<close>: printing for a person, with colours and the current time.
  \<^item> \<open>genkey.c\<close>, \<open>pubkey.c\<close>, \<open>wg.c\<close>: reading and writing standard streams around the functions modelled here;
    random bytes come from the system.
  \<^item> \<open>wg-quick/android.c\<close>: runs commands and talks to Android services; what it computes is not in the sources.
  \<^item> \<open>ipc-windows.h\<close>, \<open>ipc-freebsd.h\<close>, \<open>ipc-openbsd.h\<close>, \<open>ipc-uapi-windows.h\<close>, \<open>wincompat\<close>: not compiled into this
    application.
  \<^item> \<open>contrib\<close> except the highlighter, and \<open>fuzz\<close>: examples, scripts and test drivers that are not compiled into
    this application; \<open>contrib/embeddable-wg-library\<close> repeats the functions of the tools.
  \<^item> \<open>uapi\<close>: kernel headers, constants only.
  \<^item> \<open>elf-cleaner\<close>, \<open>ndk-compat\<close>: build helpers. \<open>libwg-go\<close> and the Java and Kotlin code of the application: calls
    into the Go implementation and the Android framework, neither of which is in the sources.
\<close>

end
